(* ===== verification/Shield_Prelude.thy ===== *)
theory Shield_Prelude
  imports Main "HOL-Library.Word" "HOL-Library.Signed_Division"
begin

text \<open>
  Shared vocabulary of the development: Go's integers, times, durations, strings and
  decimal formatting, as far as the sources under \<^verbatim>\<open>src/\<close> use them, and the generic
  lemmas on lists and maps that the component theories rely on.

  \<^item> A Go string is a sequence of bytes: \<^typ>\<open>string\<close>, one \<^typ>\<open>char\<close> per byte.
  \<^item> \<^verbatim>\<open>int\<close> and \<^verbatim>\<open>int64\<close> are \<^typ>\<open>int\<close> with the two's complement wrap-around
    \<open>i64\<close> written at every operation that can overflow; \<^verbatim>\<open>int32\<close> likewise with \<open>i32\<close>.
  \<^item> \<^verbatim>\<open>time.Time\<close> is the number of nanoseconds since the Unix epoch, \<^verbatim>\<open>time.Duration\<close>
    a number of nanoseconds; every reading of the clock is an argument of the model.
\<close>

named_theorems go_arith \<open>facts on Go's machine integers and durations\<close>
named_theorems go_string \<open>facts on Go's strings and decimal formatting\<close>

type_synonym gotime = int
type_synonym duration = int

section \<open>Machine integers\<close>

definition i64 :: "int \<Rightarrow> int" where
  "i64 x = (x + 2 ^ 63) mod 2 ^ 64 - 2 ^ 63"

definition in_i64 :: "int \<Rightarrow> bool" where
  "in_i64 x \<longleftrightarrow> - (2 ^ 63) \<le> x \<and> x < 2 ^ 63"

lemma i64_id [go_arith]: "in_i64 x \<Longrightarrow> i64 x = x"
  by (simp add: i64_def in_i64_def)

lemma in_i64_i64 [simp, go_arith]: "in_i64 (i64 x)"
  using pos_mod_sign [of "2 ^ 64" "x + 2 ^ 63"] pos_mod_bound [of "2 ^ 64" "x + 2 ^ 63"]
  by (simp add: i64_def in_i64_def)

lemma i64_i64 [simp]: "i64 (i64 x) = i64 x"
  by (rule i64_id) simp

lemma i64_add_i64 [simp]: "i64 (i64 x + y) = i64 (x + y)"
proof -
  have "(i64 x + y + 2 ^ 63) mod 2 ^ 64 = ((x + 2 ^ 63) mod 2 ^ 64 + y) mod 2 ^ 64"
    by (simp add: i64_def algebra_simps)
  also have "\<dots> = (x + 2 ^ 63 + y) mod 2 ^ 64"
    by (rule mod_add_left_eq)
  also have "x + 2 ^ 63 + y = x + y + 2 ^ 63" by simp
  finally show ?thesis by (simp add: i64_def)
qed

section \<open>Times and durations\<close>

abbreviation Millisecond :: duration where "Millisecond \<equiv> 1000000"
abbreviation Second :: duration where "Second \<equiv> 1000000000"

text \<open>The zero \<^verbatim>\<open>time.Time\<close>: January 1, year 1, 00:00:00 UTC.\<close>

definition zero_time :: gotime where
  "zero_time = - 62135596800 * Second"

text \<open>\<^verbatim>\<open>t.UnixNano()\<close>: the nanoseconds since the epoch as an \<^verbatim>\<open>int64\<close>.\<close>

definition unix_nano :: "gotime \<Rightarrow> int" where
  "unix_nano t = i64 t"

text \<open>\<^verbatim>\<open>now.Sub(t)\<close>, and with it \<^verbatim>\<open>time.Since(t)\<close>: the difference, saturated to the range
  of \<^verbatim>\<open>int64\<close>.\<close>

definition time_since :: "gotime \<Rightarrow> gotime \<Rightarrow> duration" where
  "time_since now t = max (- (2 ^ 63)) (min (2 ^ 63 - 1) (now - t))"

lemma time_since_ge [go_arith]:
  "in_i64 d \<Longrightarrow> d \<le> time_since now t \<longleftrightarrow> d \<le> now - t \<or> d = - (2 ^ 63)"
  by (auto simp: time_since_def in_i64_def)

lemma time_since_gt [go_arith]:
  "in_i64 d \<Longrightarrow> d < time_since now t \<longleftrightarrow> d < now - t \<and> d < 2 ^ 63 - 1"
  by (auto simp: time_since_def in_i64_def)

section \<open>Strings\<close>

definition has_prefix :: "string \<Rightarrow> string \<Rightarrow> bool" where
  "has_prefix s p \<longleftrightarrow> take (length p) s = p"

lemma has_prefix_append [simp, go_string]: "has_prefix (p @ s) p"
  by (simp add: has_prefix_def)

text \<open>The verb \<^verbatim>\<open>%d\<close> of package fmt.\<close>

definition digit_char :: "nat \<Rightarrow> char" where
  "digit_char d = char_of (48 + d)"

fun show_nat :: "nat \<Rightarrow> string" where
  "show_nat n = (if n < 10 then [digit_char n] else show_nat (n div 10) @ [digit_char (n mod 10)])"

declare show_nat.simps [simp del]

definition show_int :: "int \<Rightarrow> string" where
  "show_int i = (if i < 0 then ''-'' @ show_nat (nat (- i)) else show_nat (nat i))"

lemma digit_char_neq_colon: "d < 10 \<Longrightarrow> digit_char d \<noteq> CHR '':''"
proof
  assume d: "d < 10" and "digit_char d = CHR '':''"
  then have "of_char (digit_char d) = (of_char (CHR '':'') :: nat)" by simp
  with d show False by (simp add: digit_char_def)
qed

lemma show_nat_no_colon [go_string]: "CHR '':'' \<notin> set (show_nat n)"
proof (induction n rule: show_nat.induct)
  case (1 n)
  then show ?case
    using digit_char_neq_colon [of n] digit_char_neq_colon [of "n mod 10"]
    by (cases "n < 10") (simp_all add: show_nat.simps [of n] eq_commute [of "CHR '':''"])
qed

lemma show_int_no_colon [go_string]: "CHR '':'' \<notin> set (show_int i)"
  by (simp add: show_int_def show_nat_no_colon)

text \<open>A separator that does not occur in the left part makes a joined string unambiguous.\<close>

lemma append_sep_inject [go_string]:
  assumes "c \<notin> set xs" and "c \<notin> set ys"
  shows "xs @ c # us = ys @ c # vs \<longleftrightarrow> xs = ys \<and> us = vs"
  using assms
proof (induction xs arbitrary: ys)
  case Nil
  then show ?case by (cases ys) auto
next
  case (Cons x xs)
  then show ?case by (cases ys) auto
qed

section \<open>Lists\<close>

text \<open>The values of a list of results that are all there.\<close>

fun all_some :: "'a option list \<Rightarrow> 'a list option" where
  "all_some [] = Some []"
| "all_some (x # xs) =
     (case x of None \<Rightarrow> None | Some v \<Rightarrow> (case all_some xs of None \<Rightarrow> None | Some vs \<Rightarrow> Some (v # vs)))"

lemma all_some_map [simp]: "all_some (map Some vs) = Some vs"
  by (induction vs) auto

lemma all_some_SomeD: "all_some xs = Some vs \<Longrightarrow> xs = map Some vs"
  by (induction xs arbitrary: vs) (auto split: option.splits)

lemma find_first [simp]:
  "P x \<Longrightarrow> \<forall>u \<in> set us. \<not> P u \<Longrightarrow> find P (us @ x # vs) = Some x"
  by (induction us) auto

lemma find_SomeD:
  "find P xs = Some x \<Longrightarrow> \<exists>us vs. xs = us @ x # vs \<and> P x \<and> (\<forall>u \<in> set us. \<not> P u)"
proof (induction xs)
  case (Cons a xs)
  show ?case
  proof (cases "P a")
    case True
    with Cons.prems have "a # xs = [] @ x # xs \<and> P x" by simp
    then show ?thesis by (metis empty_iff list.set(1))
  next
    case False
    with Cons obtain us vs where "xs = us @ x # vs" "P x" "\<forall>u \<in> set us. \<not> P u"
      by auto
    with False have "a # xs = (a # us) @ x # vs \<and> P x \<and> (\<forall>u \<in> set (a # us). \<not> P u)"
      by simp
    then show ?thesis by blast
  qed
qed simp

lemma length_filter_mono:
  "(\<And>x. x \<in> set xs \<Longrightarrow> P x \<Longrightarrow> Q x) \<Longrightarrow> length (filter P xs) \<le> length (filter Q xs)"
  by (induction xs) (auto simp: le_SucI)

lemma sorted_wrt_snoc [simp]:
  "sorted_wrt P (xs @ [x]) \<longleftrightarrow> sorted_wrt P xs \<and> (\<forall>y \<in> set xs. P y x)"
  by (auto simp: sorted_wrt_append)

section \<open>Sequences of steps that can fail\<close>

definition err_of :: "string + 'a \<Rightarrow> string option" where
  "err_of x = (case x of Inl err \<Rightarrow> Some err | Inr y \<Rightarrow> None)"

text \<open>The message of the first step that has an error.\<close>

fun first_failure :: "(string \<times> string option) list \<Rightarrow> string option" where
  "first_failure [] = None"
| "first_failure ((msg, None) # steps) = first_failure steps"
| "first_failure ((msg, Some err) # steps) = Some (msg @ err)"

end
