(* ===== verification/Net_Http.thy ===== *)
theory Net_Http
  imports Shield_Prelude
begin

text \<open>
  What the sources use of Go's package \<^verbatim>\<open>net/http\<close>: header maps with canonical keys,
  outgoing requests, incoming requests with their context values, and the response writer.

  A response writer is the value \<open>ResponseWriter\<close>, threaded through the handlers: the
  header map under construction, the status code and header snapshot sent by the first
  \<^verbatim>\<open>WriteHeader\<close>, and the body written so far. A handler maps a request, a writer and the
  state \<open>'s\<close> of the program to the new writer and state.
\<close>

section \<open>Headers\<close>

type_synonym header = "string \<rightharpoonup> string list"

definition lower_char :: "char \<Rightarrow> bool" where
  "lower_char c \<longleftrightarrow> c \<in> set ''abcdefghijklmnopqrstuvwxyz''"

definition upper_char :: "char \<Rightarrow> bool" where
  "upper_char c \<longleftrightarrow> c \<in> set ''ABCDEFGHIJKLMNOPQRSTUVWXYZ''"

definition to_upper :: "char \<Rightarrow> char" where
  "to_upper c = (if lower_char c then char_of ((of_char c :: nat) - 32) else c)"

definition to_lower :: "char \<Rightarrow> char" where
  "to_lower c = (if upper_char c then char_of ((of_char c :: nat) + 32) else c)"

text \<open>The token characters of RFC 7230; the single quote and the backquote by their codes.\<close>

definition header_byte :: "char \<Rightarrow> bool" where
  "header_byte c \<longleftrightarrow> lower_char c \<or> upper_char c \<or> c \<in> set ''0123456789!#$%&*+-.^_|~'' \<or>
     (of_char c :: nat) = 39 \<or> (of_char c :: nat) = 96"

fun canon_loop :: "bool \<Rightarrow> string \<Rightarrow> string" where
  "canon_loop up [] = []"
| "canon_loop up (c # cs) =
     (let c' = (if up then to_upper c else to_lower c) in c' # canon_loop (c' = CHR ''-'') cs)"

definition CanonicalMIMEHeaderKey :: "string \<Rightarrow> string" where
  "CanonicalMIMEHeaderKey s = (if list_all header_byte s then canon_loop True s else s)"

definition Header_Get :: "header \<Rightarrow> string \<Rightarrow> string" where
  "Header_Get h key =
     (case h (CanonicalMIMEHeaderKey key) of Some (v # vs) \<Rightarrow> v | _ \<Rightarrow> '''')"

definition Header_Set :: "string \<Rightarrow> string \<Rightarrow> header \<Rightarrow> header" where
  "Header_Set key v h = h(CanonicalMIMEHeaderKey key \<mapsto> [v])"

definition Header_Del :: "string \<Rightarrow> header \<Rightarrow> header" where
  "Header_Del key h = h(CanonicalMIMEHeaderKey key := None)"

lemma Header_Get_Set [simp]:
  "Header_Get (Header_Set k v h) k' =
     (if CanonicalMIMEHeaderKey k' = CanonicalMIMEHeaderKey k then v else Header_Get h k')"
  by (simp add: Header_Get_def Header_Set_def)

section \<open>Outgoing requests\<close>

record out_request =
  out_method :: string
  out_url :: string
  out_header :: header
  out_body :: string

datatype http_outcome = HttpStatus int | HttpErr string

section \<open>Incoming requests\<close>

text \<open>The context of a request: its values under the keys of package middleware, and whether it is cancelled.\<close>

datatype contextKey = TraceIDKey | TierKey | APIKeyKey

record Request =
  Method :: string
  Path :: string
  EscapedPath :: string
  RawQuery :: string
  ReqHeader :: header
  Body :: string
  CtxValue :: "contextKey \<rightharpoonup> string"
  CtxCancelled :: bool

definition WithValue :: "contextKey \<Rightarrow> string \<Rightarrow> Request \<Rightarrow> Request" where
  "WithValue k v r = r\<lparr>CtxValue := (CtxValue r)(k \<mapsto> v)\<rparr>"

text \<open>\<^verbatim>\<open>v, _ := ctx.Value(k).(string)\<close>: the empty string when there is no value.\<close>

definition ctx_string :: "Request \<Rightarrow> contextKey \<Rightarrow> string" where
  "ctx_string r k = (case CtxValue r k of None \<Rightarrow> '''' | Some v \<Rightarrow> v)"

lemma WithValue_sel [simp]:
  "Method (WithValue k v r) = Method r" "Path (WithValue k v r) = Path r"
  "EscapedPath (WithValue k v r) = EscapedPath r"
  "RawQuery (WithValue k v r) = RawQuery r" "ReqHeader (WithValue k v r) = ReqHeader r"
  "Body (WithValue k v r) = Body r" "CtxCancelled (WithValue k v r) = CtxCancelled r"
  "CtxValue (WithValue k v r) = (CtxValue r)(k \<mapsto> v)"
  by (simp_all add: WithValue_def)

section \<open>Responses\<close>

text \<open>
  \<open>statusCode\<close> is the field of the wrapper \<^verbatim>\<open>statusResponseWriter\<close> of the gateway, None while
  the writer is not wrapped; see the theory \<open>Gateway\<close>.
\<close>

record ResponseWriter =
  wheader :: header
  sent :: "(int \<times> header) option"
  wbody :: string
  statusCode :: "int option"

definition new_writer :: ResponseWriter where
  "new_writer = \<lparr>wheader = Map.empty, sent = None, wbody = '''', statusCode = None\<rparr>"

definition set_header :: "string \<Rightarrow> string \<Rightarrow> ResponseWriter \<Rightarrow> ResponseWriter" where
  "set_header k v w = w\<lparr>wheader := Header_Set k v (wheader w)\<rparr>"

text \<open>Only the first call of the server's \<^verbatim>\<open>WriteHeader\<close> counts, and it sends the headers.\<close>

definition send_header :: "int \<Rightarrow> ResponseWriter \<Rightarrow> ResponseWriter" where
  "send_header code w = (case sent w of None \<Rightarrow> w\<lparr>sent := Some (code, wheader w)\<rparr> | Some _ \<Rightarrow> w)"

text \<open>The wrapper's \<^verbatim>\<open>WriteHeader\<close>, where there is one, notes the code first.\<close>

definition WriteHeader :: "int \<Rightarrow> ResponseWriter \<Rightarrow> ResponseWriter" where
  "WriteHeader code w =
     send_header code (case statusCode w of None \<Rightarrow> w | Some _ \<Rightarrow> w\<lparr>statusCode := Some code\<rparr>)"

text \<open>
  \<^verbatim>\<open>Write\<close> sends status 200 first when no status was sent; it is the server's method also on
  a wrapped writer.
\<close>

definition Write :: "string \<Rightarrow> ResponseWriter \<Rightarrow> ResponseWriter" where
  "Write data w = (let w' = send_header 200 w in w'\<lparr>wbody := wbody w' @ data\<rparr>)"

text \<open>\<^verbatim>\<open>http.Error\<close>: the body ends with a newline; a content length set before is dropped.\<close>

definition http_Error :: "string \<Rightarrow> int \<Rightarrow> ResponseWriter \<Rightarrow> ResponseWriter" where
  "http_Error msg code w =
     (let w1 = w\<lparr>wheader := Header_Del ''Content-Length'' (wheader w)\<rparr>;
          w2 = set_header ''Content-Type'' ''text/plain; charset=utf-8'' w1;
          w3 = set_header ''X-Content-Type-Options'' ''nosniff'' w2
      in Write (msg @ [CHR 0x0A]) (WriteHeader code w3))"

text \<open>The status the client sees when the handler has returned.\<close>

definition status_of :: "ResponseWriter \<Rightarrow> int" where
  "status_of w = (case sent w of None \<Rightarrow> 200 | Some (code, h) \<Rightarrow> code)"

text \<open>The wrapper, if any, knows the status that was or will be sent.\<close>

definition writer_ok :: "ResponseWriter \<Rightarrow> bool" where
  "writer_ok w \<longleftrightarrow> (case statusCode w of None \<Rightarrow> True | Some c \<Rightarrow> c = status_of w)"

type_synonym 's handler = "Request \<Rightarrow> ResponseWriter \<times> 's \<Rightarrow> ResponseWriter \<times> 's"
type_synonym 's middleware = "'s handler \<Rightarrow> 's handler"

lemma send_header_sel [simp]:
  "sent (send_header code w) = (case sent w of None \<Rightarrow> Some (code, wheader w) | Some x \<Rightarrow> Some x)"
  "wheader (send_header code w) = wheader w" "wbody (send_header code w) = wbody w"
  "statusCode (send_header code w) = statusCode w"
  by (simp_all add: send_header_def split: option.splits)

lemma sent_WriteHeader [simp]:
  "sent (WriteHeader code w) = (case sent w of None \<Rightarrow> Some (code, wheader w) | Some x \<Rightarrow> Some x)"
  "wheader (WriteHeader code w) = wheader w" "wbody (WriteHeader code w) = wbody w"
  "statusCode (WriteHeader code w) = map_option (\<lambda>_. code) (statusCode w)"
  by (simp_all add: WriteHeader_def split: option.splits)

lemma set_header_sel [simp]:
  "sent (set_header k v w) = sent w" "wbody (set_header k v w) = wbody w"
  "wheader (set_header k v w) = Header_Set k v (wheader w)" "statusCode (set_header k v w) = statusCode w"
  by (simp_all add: set_header_def)

lemma Write_sel [simp]:
  "sent (Write d w) = (case sent w of None \<Rightarrow> Some (200, wheader w) | Some x \<Rightarrow> Some x)"
  "wbody (Write d w) = wbody w @ d" "wheader (Write d w) = wheader w" "statusCode (Write d w) = statusCode w"
  by (simp_all add: Write_def Let_def)

lemma status_of_set_header [simp]: "status_of (set_header k v w) = status_of w"
  by (simp add: status_of_def)

lemma status_of_Write [simp]: "status_of (Write d w) = status_of w"
  by (simp add: status_of_def split: option.splits)

lemma status_of_WriteHeader [simp]:
  "status_of (WriteHeader code w) = (if sent w = None then code else status_of w)"
  by (auto simp: status_of_def split: option.splits)

lemma http_Error_sel [simp]:
  "status_of (http_Error msg code w) = (if sent w = None then code else status_of w)"
  "wbody (http_Error msg code w) = wbody w @ msg @ [CHR 0x0A]"
  "statusCode (http_Error msg code w) = map_option (\<lambda>_. code) (statusCode w)"
  by (auto simp: http_Error_def Let_def status_of_def split: option.splits)

lemma sent_http_Error [simp]: "sent (http_Error msg code w) \<noteq> None"
  by (auto simp: http_Error_def Let_def split: option.splits)

lemma writer_ok_http_Error [simp]: "sent w = None \<Longrightarrow> writer_ok (http_Error msg code w)"
  by (simp add: writer_ok_def split: option.splits)

lemma writer_ok_WriteHeader [simp]: "sent w = None \<Longrightarrow> writer_ok (WriteHeader code w)"
  by (simp add: writer_ok_def split: option.splits)

lemma writer_ok_Write [simp]: "writer_ok (Write d w) = writer_ok w"
  by (simp add: writer_ok_def split: option.splits)

lemma writer_ok_set_header [simp]: "writer_ok (set_header k v w) = writer_ok w"
  by (simp add: writer_ok_def split: option.splits)

end
