(* ===== verification/Sharded_Cache.thy ===== *)
theory Sharded_Cache
  imports Shield_Prelude
begin

unbundle bit_operations_syntax

text \<open>
  The in-memory L1 cache (\<^verbatim>\<open>src/internal/cache/cache.go\<close>): 256 shards, each a map with
  expiry times, and the 32-bit FNV-1a hash that chooses the shard of a key. A shard's
  mutex makes every operation one atomic step on that shard, so the operations are
  functions on the cache. Every reading of the clock is an argument. Reading a shard out
  of range is Go's index panic: the operations return \<open>None\<close> there.

  The theory shows that the shards cannot be observed: every run of operations gives the
  answers of one flat map with expiry times (locale \<open>ttl_cache\<close>, interpreted on both).
\<close>

section \<open>Definitions\<close>

record 'v item =
  item_value :: 'v
  item_expiration :: int

record 'v Shard =
  items :: "string \<rightharpoonup> 'v item"

record 'v ShardedCache =
  shards :: "'v Shard list"

definition NewShardedCache :: "'v ShardedCache" where
  "NewShardedCache = \<lparr>shards = replicate 256 \<lparr>items = Map.empty\<rparr>\<rparr>"

definition fnv1a :: "string \<Rightarrow> 32 word" where
  "fnv1a key = foldl (\<lambda>hash c. (hash XOR of_char c) * 16777619) 2166136261 key"

text \<open>The shard pointer is the shard's index; \<open>None\<close> is the index panic.\<close>

definition getShard :: "'v ShardedCache \<Rightarrow> string \<Rightarrow> nat option" where
  "getShard c key =
     (let idx = unat (fnv1a key mod 256)
      in if idx < length (shards c) then Some idx else None)"

definition Cache_Get :: "gotime \<Rightarrow> 'v ShardedCache \<Rightarrow> string \<Rightarrow> 'v option option" where
  "Cache_Get now c key =
     (case getShard c key of
        None \<Rightarrow> None
      | Some i \<Rightarrow>
          Some (case items (shards c ! i) key of
                  None \<Rightarrow> None
                | Some it \<Rightarrow>
                    if item_expiration it > 0 \<and> unix_nano now > item_expiration it then None
                    else Some (item_value it)))"

definition Cache_Set ::
  "gotime \<Rightarrow> 'v ShardedCache \<Rightarrow> string \<Rightarrow> 'v \<Rightarrow> duration \<Rightarrow> 'v ShardedCache option" where
  "Cache_Set now c key val ttl =
     (case getShard c key of
        None \<Rightarrow> None
      | Some i \<Rightarrow>
          let s = shards c ! i;
              exp = (if ttl > 0 then unix_nano (now + ttl) else 0)
          in Some (c\<lparr>shards := (shards c)
               [i := s\<lparr>items := (items s)(key \<mapsto> \<lparr>item_value = val, item_expiration = exp\<rparr>)\<rparr>]\<rparr>))"

definition Cache_Delete :: "'v ShardedCache \<Rightarrow> string \<Rightarrow> 'v ShardedCache option" where
  "Cache_Delete c key =
     (case getShard c key of
        None \<Rightarrow> None
      | Some i \<Rightarrow>
          let s = shards c ! i
          in Some (c\<lparr>shards := (shards c)[i := s\<lparr>items := (items s)(key := None)\<rparr>]\<rparr>))"

subsection \<open>The specification: one flat map with expiry times\<close>

definition live :: "gotime \<Rightarrow> 'v item option \<Rightarrow> 'v option" where
  "live now e =
     (case e of
        None \<Rightarrow> None
      | Some it \<Rightarrow>
          if 0 < item_expiration it \<and> item_expiration it < unix_nano now then None
          else Some (item_value it))"

definition new_item :: "gotime \<Rightarrow> 'v \<Rightarrow> duration \<Rightarrow> 'v item" where
  "new_item now val ttl =
     \<lparr>item_value = val, item_expiration = (if 0 < ttl then unix_nano (now + ttl) else 0)\<rparr>"

datatype 'v cache_op = OpSet gotime string 'v duration | OpDelete string

fun flat_run :: "'v cache_op list \<Rightarrow> (string \<rightharpoonup> 'v item) \<Rightarrow> (string \<rightharpoonup> 'v item)" where
  "flat_run [] m = m"
| "flat_run (OpSet now k v ttl # ops) m = flat_run ops (m(k \<mapsto> new_item now v ttl))"
| "flat_run (OpDelete k # ops) m = flat_run ops (m(k := None))"

fun cache_run :: "'v cache_op list \<Rightarrow> 'v ShardedCache \<Rightarrow> 'v ShardedCache option" where
  "cache_run [] c = Some c"
| "cache_run (OpSet now k v ttl # ops) c =
     (case Cache_Set now c k v ttl of None \<Rightarrow> None | Some c' \<Rightarrow> cache_run ops c')"
| "cache_run (OpDelete k # ops) c =
     (case Cache_Delete c k of None \<Rightarrow> None | Some c' \<Rightarrow> cache_run ops c')"

text \<open>A well-formed cache has 256 shards and keeps every key in the shard its hash names.\<close>

definition shard_of :: "string \<Rightarrow> nat" where
  "shard_of key = unat (fnv1a key mod 256)"

definition wf_cache :: "'v ShardedCache \<Rightarrow> bool" where
  "wf_cache c \<longleftrightarrow> length (shards c) = 256 \<and>
     (\<forall>i < 256. \<forall>k. items (shards c ! i) k \<noteq> None \<longrightarrow> shard_of k = i)"

definition cache_entries :: "'v ShardedCache \<Rightarrow> (string \<rightharpoonup> 'v item)" where
  "cache_entries c k = items (shards c ! shard_of k) k"

text \<open>The shard index computed on 8 bits: the multiplier and the offset basis modulo 256.\<close>

definition fnv1a_low :: "string \<Rightarrow> nat" where
  "fnv1a_low key = foldl (\<lambda>h c. ((h XOR of_char c) * 147) mod 256) 197 key"

section \<open>Lemmas\<close>

lemma shard_of_less [simp]: "shard_of k < 256"
proof -
  have "unat (fnv1a k mod 256) = unat (fnv1a k) mod 256"
    by (simp add: unat_mod)
  then show ?thesis by (simp add: shard_of_def)
qed

lemma getShard_wf [simp]: "wf_cache c \<Longrightarrow> getShard c k = Some (shard_of k)"
  using shard_of_less [of k] by (simp add: getShard_def wf_cache_def shard_of_def)

lemma wf_NewShardedCache [simp]: "wf_cache NewShardedCache"
  by (simp add: wf_cache_def NewShardedCache_def)

lemma entries_NewShardedCache [simp]: "cache_entries NewShardedCache = Map.empty"
  using shard_of_less by (auto simp: cache_entries_def NewShardedCache_def fun_eq_iff)

lemma wf_cacheD:
  "wf_cache c \<Longrightarrow> i < 256 \<Longrightarrow> items (shards c ! i) k = Some it \<Longrightarrow> shard_of k = i"
  "wf_cache c \<Longrightarrow> length (shards c) = 256"
  by (simp_all add: wf_cache_def)

lemma wf_cache_update:
  assumes "wf_cache c" and "\<And>k'. k' \<noteq> k \<Longrightarrow> m k' = items (shards c ! shard_of k) k'"
  shows "wf_cache (c\<lparr>shards := (shards c)[shard_of k := s\<lparr>items := m\<rparr>]\<rparr>)"
  unfolding wf_cache_def
proof (intro conjI allI impI)
  show "length (shards (c\<lparr>shards := (shards c)[shard_of k := s\<lparr>items := m\<rparr>]\<rparr>)) = 256"
    using assms(1) by (simp add: wf_cache_def)
next
  fix i k'
  assume i: "i < 256"
    and k': "items (shards (c\<lparr>shards := (shards c)[shard_of k := s\<lparr>items := m\<rparr>]\<rparr>) ! i) k' \<noteq> None"
  show "shard_of k' = i"
  proof (cases "i = shard_of k \<and> k' = k")
    case False
    with i k' assms have "items (shards c ! i) k' \<noteq> None"
      by (cases "i = shard_of k") (simp_all add: wf_cacheD(2))
    with assms(1) i show ?thesis by (auto dest: wf_cacheD(1))
  qed simp
qed

lemma entries_update:
  assumes "wf_cache c" and "\<And>k'. k' \<noteq> k \<Longrightarrow> m k' = items (shards c ! shard_of k) k'"
  shows "cache_entries (c\<lparr>shards := (shards c)[shard_of k := s\<lparr>items := m\<rparr>]\<rparr>)
           = (cache_entries c)(k := m k)"
proof
  fix k'
  show "cache_entries (c\<lparr>shards := (shards c)[shard_of k := s\<lparr>items := m\<rparr>]\<rparr>) k'
          = ((cache_entries c)(k := m k)) k'"
    using assms by (cases "k' = k"; cases "shard_of k' = shard_of k")
      (simp_all add: cache_entries_def wf_cacheD(2))
qed

lemma Cache_Get_wf [simp]: "wf_cache c \<Longrightarrow> Cache_Get now c k = Some (live now (cache_entries c k))"
  by (simp add: Cache_Get_def live_def cache_entries_def)

lemma Cache_Set_wf:
  assumes "wf_cache c"
  obtains c' where "Cache_Set now c k v ttl = Some c'" "wf_cache c'"
    "cache_entries c' = (cache_entries c)(k \<mapsto> new_item now v ttl)"
  using assms that by (simp add: Cache_Set_def Let_def wf_cache_update entries_update new_item_def)

lemma Cache_Delete_wf:
  assumes "wf_cache c"
  obtains c' where "Cache_Delete c k = Some c'" "wf_cache c'"
    "cache_entries c' = (cache_entries c)(k := None)"
  using assms that by (simp add: Cache_Delete_def Let_def wf_cache_update entries_update)

section \<open>The interface of a cache with expiry times\<close>

locale ttl_cache =
  fixes cget :: "gotime \<Rightarrow> 'c \<Rightarrow> string \<Rightarrow> 'v option option"
    and cset :: "gotime \<Rightarrow> 'c \<Rightarrow> string \<Rightarrow> 'v \<Rightarrow> duration \<Rightarrow> 'c option"
    and cdelete :: "'c \<Rightarrow> string \<Rightarrow> 'c option"
    and wf :: "'c \<Rightarrow> bool"
    and entries :: "'c \<Rightarrow> (string \<rightharpoonup> 'v item)"
  assumes get_law: "wf c \<Longrightarrow> cget now c k = Some (live now (entries c k))"
    and set_law: "wf c \<Longrightarrow> \<exists>c'. cset now c k v ttl = Some c' \<and> wf c' \<and>
                    entries c' = (entries c)(k \<mapsto> new_item now v ttl)"
    and delete_law: "wf c \<Longrightarrow> \<exists>c'. cdelete c k = Some c' \<and> wf c' \<and>
                    entries c' = (entries c)(k := None)"
begin

lemma get_after_set:
  assumes "wf c"
  shows "\<exists>c'. cset now c k v ttl = Some c' \<and> wf c' \<and>
    cget now' c' k' = (if k' = k then Some (live now' (Some (new_item now v ttl))) else cget now' c k')"
  using set_law [OF assms, of now k v ttl] assms by (auto simp: get_law)

lemma get_after_delete:
  assumes "wf c"
  shows "\<exists>c'. cdelete c k = Some c' \<and> wf c' \<and>
    cget now c' k' = (if k' = k then Some None else cget now c k')"
  using delete_law [OF assms, of k] assms by (auto simp: get_law live_def)

end

interpretation sharded: ttl_cache Cache_Get Cache_Set Cache_Delete wf_cache cache_entries
  by unfold_locales (auto elim: Cache_Set_wf Cache_Delete_wf)

lemma live_new_item:
  assumes "0 < ttl" and "0 < now + ttl" and "in_i64 (now + ttl)" and "in_i64 now'"
  shows "live now' (Some (new_item now v ttl)) = (if now' \<le> now + ttl then Some v else None)"
  using assms by (simp add: live_def new_item_def unix_nano_def i64_id)

lemma live_new_item_forever: "ttl \<le> 0 \<Longrightarrow> live now' (Some (new_item now v ttl)) = Some v"
  by (simp add: live_def new_item_def)

lemma cache_run_entries:
  "wf_cache c \<Longrightarrow> \<exists>c'. cache_run ops c = Some c' \<and> wf_cache c' \<and>
     cache_entries c' = flat_run ops (cache_entries c)"
proof (induction ops arbitrary: c)
  case Nil
  then show ?case by simp
next
  case (Cons op ops)
  show ?case
  proof (cases op)
    case (OpSet now k v ttl)
    from Cons.prems obtain c' where "Cache_Set now c k v ttl = Some c'" "wf_cache c'"
      "cache_entries c' = (cache_entries c)(k \<mapsto> new_item now v ttl)" by (rule Cache_Set_wf)
    with OpSet Cons.IH [of c'] show ?thesis by (simp del: fun_upd_apply)
  next
    case (OpDelete k)
    from Cons.prems obtain c' where "Cache_Delete c k = Some c'" "wf_cache c'"
      "cache_entries c' = (cache_entries c)(k := None)" by (rule Cache_Delete_wf)
    with OpDelete Cons.IH [of c'] show ?thesis by (simp del: fun_upd_apply)
  qed
qed

section \<open>The hash on eight bits\<close>

lemma xor_mod_256: "(m XOR n) mod 256 = (m mod 256 XOR n mod 256 :: nat)"
proof -
  have "take_bit 8 (m XOR n) = take_bit 8 m XOR take_bit 8 n" by (rule take_bit_xor)
  then show ?thesis by (simp add: take_bit_eq_mod)
qed

lemma unat_of_char: "unat (of_char c :: 32 word) = of_char c"
proof -
  have "of_char c < (256 :: nat)"
    using mod_less_divisor [of 256 "of_char c :: nat"] by simp
  then have "of_char c < (4294967296 :: nat)" by linarith
  then have "of_char c mod 4294967296 = (of_char c :: nat)" by (rule mod_less)
  then have "unat (of_nat (of_char c) :: 32 word) = of_char c"
    by (simp add: unat_of_nat)
  then show ?thesis by (simp add: of_nat_of_char)
qed

lemma fnv1a_step_low:
  "unat ((h XOR of_char c) * 16777619 :: 32 word) mod 256 = ((unat h mod 256 XOR of_char c) * 147) mod 256"
proof -
  have "unat ((h XOR of_char c) * 16777619 :: 32 word) mod 256
      = (unat (h XOR of_char c) * 16777619) mod 2 ^ 32 mod 256"
    by (simp add: unat_word_ariths)
  also have "\<dots> = (unat (h XOR of_char c) * 16777619) mod 256"
    by (rule mod_mod_cancel) simp
  also have "\<dots> = (unat (h XOR of_char c) mod 256 * (16777619 mod 256)) mod 256"
    by (rule mod_mult_eq [symmetric])
  also have "unat (h XOR of_char c) mod 256 = (unat h mod 256 XOR of_char c)"
    by (simp add: unsigned_xor_eq unat_of_char xor_mod_256)
  finally show ?thesis by simp
qed

lemma fnv1a_foldl_low:
  "unat (foldl (\<lambda>hash c. (hash XOR of_char c) * 16777619) h key :: 32 word) mod 256
     = foldl (\<lambda>h c. ((h XOR of_char c) * 147) mod 256) (unat h mod 256) key"
  by (induction key arbitrary: h) (simp_all add: fnv1a_step_low)

section \<open>Properties\<close>

text \<open>
  C38: The 256 shards cannot be observed. Whatever sequence of \<open>Set\<close> and \<open>Delete\<close>
  calls a new cache receives, no call panics, and afterwards every \<open>Get\<close> at every time
  answers exactly as a single map with expiry times that received the same calls.
\<close>

theorem cache_sharding_invisible:
  "\<exists>c. cache_run ops NewShardedCache = Some c \<and>
     (\<forall>now k. Cache_Get now c k = Some (live now (flat_run ops Map.empty k)))"
  using cache_run_entries [of NewShardedCache ops] by (auto simp: sharded.get_law)

text \<open>
  A value set with a positive time to live is found until that time has passed and
  not afterwards, and setting one key never changes what \<open>Get\<close> returns for another,
  whichever shards the two keys share.
\<close>

theorem cache_set_get:
  assumes "wf_cache c" and "0 < ttl" and "0 < now + ttl"
    and "in_i64 (now + ttl)" and "in_i64 now'"
  shows "\<exists>c'. Cache_Set now c k v ttl = Some c' \<and> wf_cache c' \<and>
     Cache_Get now' c' k' =
       (if k' = k then Some (if now' \<le> now + ttl then Some v else None)
        else Cache_Get now' c k')"
  using sharded.get_after_set [OF assms(1), of now k v ttl now' k']
  unfolding live_new_item [OF assms(2-5)] .

theorem cache_set_get_witness:
  "\<exists>c'. Cache_Set 1000 NewShardedCache ''foo'' True 10 = Some c' \<and> wf_cache c' \<and>
     Cache_Get 1011 c' ''foo'' = Some None"
  using cache_set_get [of NewShardedCache 10 1000 1011 "''foo''" True "''foo''"]
  by (simp add: in_i64_def)

text \<open>
  The shard index, taken from the 32-bit FNV-1a hash with its wrap-around, is the
  hash computed on eight bits (offset basis 197, multiplier 147), and so always below 256.
\<close>

theorem getShard_low_byte:
  "getShard NewShardedCache key = Some (fnv1a_low key) \<and> fnv1a_low key < 256"
proof -
  have "shard_of key = unat (fnv1a key) mod 256"
    by (simp add: shard_of_def unat_mod)
  also have "\<dots> = fnv1a_low key"
    by (simp add: fnv1a_def fnv1a_low_def fnv1a_foldl_low)
  finally show ?thesis using shard_of_less [of key] by simp
qed

end
