(* ===== verification/Json_Text.thy ===== *)
theory Json_Text
  imports Shield_Prelude
begin

text \<open>
  The string tokens of Go's package \<^verbatim>\<open>encoding/json\<close>, on bytes: UTF-8 and how malformed bytes
  are replaced, quoting (with HTML escaping, which is on by default) and unquoting, the units a
  token consists of and the scanner for them, and the escaping of a token that is copied.

  Shown: quoting gives a token that unquotes to the string with malformed bytes replaced, an
  unquoted token is well-formed UTF-8, and HTML escaping does not change what a token means.
\<close>

section \<open>Definitions\<close>

abbreviation DQ :: char where "DQ \<equiv> CHR 0x22"
abbreviation BS :: char where "BS \<equiv> CHR 0x5C"

definition byte :: "char \<Rightarrow> nat" where
  "byte c = of_char c"

subsection \<open>UTF-8\<close>

text \<open>The ranges of the bytes that may follow a leading byte.\<close>

definition utf8_follow :: "nat \<Rightarrow> (nat \<times> nat) list option" where
  "utf8_follow x =
     (if x < 0x80 then Some []
      else if 0xC2 \<le> x \<and> x \<le> 0xDF then Some [(0x80, 0xBF)]
      else if 0xE0 \<le> x \<and> x \<le> 0xEF then
        Some [(if x = 0xE0 then 0xA0 else 0x80, if x = 0xED then 0x9F else 0xBF), (0x80, 0xBF)]
      else if 0xF0 \<le> x \<and> x \<le> 0xF4 then
        Some [(if x = 0xF0 then 0x90 else 0x80, if x = 0xF4 then 0x8F else 0xBF), (0x80, 0xBF), (0x80, 0xBF)]
      else None)"

fun bytes_in :: "(nat \<times> nat) list \<Rightarrow> string \<Rightarrow> bool" where
  "bytes_in [] s = True"
| "bytes_in ((lo, hi) # rs) [] = False"
| "bytes_in ((lo, hi) # rs) (c # s) = (lo \<le> byte c \<and> byte c \<le> hi \<and> bytes_in rs s)"

text \<open>The length of the well-formed sequence at the head of a string, 0 when there is none.\<close>

fun utf8_size :: "string \<Rightarrow> nat" where
  "utf8_size [] = 0"
| "utf8_size (c # s) =
     (case utf8_follow (byte c) of
        None \<Rightarrow> 0
      | Some rs \<Rightarrow> if bytes_in rs s then Suc (length rs) else 0)"

definition replacement :: string where
  "replacement = [CHR 0xEF, CHR 0xBF, CHR 0xBD]"

text \<open>The string with every malformed byte replaced, as a conversion to runes and back does.\<close>

fun utf8_fix :: "string \<Rightarrow> string" where
  "utf8_fix [] = []"
| "utf8_fix (c # s) =
     (let n = utf8_size (c # s) in
      if n = 0 then replacement @ utf8_fix s
      else c # take (n - 1) s @ utf8_fix (drop (n - 1) s))"

fun utf8_valid :: "string \<Rightarrow> bool" where
  "utf8_valid [] = True"
| "utf8_valid (c # s) =
     (let n = utf8_size (c # s) in n \<noteq> 0 \<and> utf8_valid (drop (n - 1) s))"

text \<open>\<^verbatim>\<open>utf8.EncodeRune\<close>; a surrogate or a number beyond Unicode becomes the replacement character.\<close>

definition encode_rune :: "nat \<Rightarrow> string" where
  "encode_rune r =
     (if r < 0x80 then [char_of r]
      else if r < 0x800 then [char_of (0xC0 + r div 64), char_of (0x80 + r mod 64)]
      else if (0xD800 \<le> r \<and> r \<le> 0xDFFF) \<or> 0x10FFFF < r then replacement
      else if r < 0x10000 then
        [char_of (0xE0 + r div 4096), char_of (0x80 + r div 64 mod 64), char_of (0x80 + r mod 64)]
      else [char_of (0xF0 + r div 262144), char_of (0x80 + r div 4096 mod 64),
            char_of (0x80 + r div 64 mod 64), char_of (0x80 + r mod 64)])"

subsection \<open>Strings\<close>

definition hex_digit :: "nat \<Rightarrow> char" where
  "hex_digit d = ''0123456789abcdef'' ! d"

definition hex_val :: "char \<Rightarrow> nat" where
  "hex_val c = (let x = byte c in
     if x < 58 then x - 48 else if x < 71 then x - 55 else x - 87)"

definition is_digit :: "char \<Rightarrow> bool" where
  "is_digit c \<longleftrightarrow> 48 \<le> byte c \<and> byte c \<le> 57"

definition is_hex :: "char \<Rightarrow> bool" where
  "is_hex c \<longleftrightarrow> is_digit c \<or> 97 \<le> byte c \<and> byte c \<le> 102 \<or> 65 \<le> byte c \<and> byte c \<le> 70"

definition u_escape :: "nat \<Rightarrow> string" where
  "u_escape r = [BS, CHR ''u'', hex_digit (r div 4096 mod 16), hex_digit (r div 256 mod 16),
     hex_digit (r div 16 mod 16), hex_digit (r mod 16)]"

text \<open>The branch of \<^verbatim>\<open>appendString\<close> for an ASCII byte, with HTML escaping on, as it is by default.\<close>

definition quote_ascii :: "char \<Rightarrow> string" where
  "quote_ascii c =
     (let x = byte c in
      if c = BS \<or> c = DQ then [BS, c]
      else if x = 8 then [BS, CHR ''b''] else if x = 12 then [BS, CHR ''f'']
      else if x = 10 then [BS, CHR ''n''] else if x = 13 then [BS, CHR ''r'']
      else if x = 9 then [BS, CHR ''t'']
      else if x < 32 \<or> c = CHR ''<'' \<or> c = CHR ''>'' \<or> c = CHR ''&'' then u_escape x
      else [c])"

text \<open>The two line separators of Unicode are escaped too; \<open>line_sep\<close> is the rune at the head, if it is one.\<close>

definition line_sep :: "string \<Rightarrow> nat option" where
  "line_sep s =
     (if take 3 s = [CHR 0xE2, CHR 0x80, CHR 0xA8] then Some 0x2028
      else if take 3 s = [CHR 0xE2, CHR 0x80, CHR 0xA9] then Some 0x2029 else None)"

fun quote :: "string \<Rightarrow> string" where
  "quote [] = []"
| "quote (c # s) =
     (if byte c < 0x80 then quote_ascii c @ quote s
      else let n = utf8_size (c # s) in
        if n = 0 then u_escape 0xFFFD @ quote s
        else (case line_sep (c # s) of
            Some r \<Rightarrow> u_escape r
          | None \<Rightarrow> c # take (n - 1) s) @ quote (drop (n - 1) s))"

text \<open>\<^verbatim>\<open>getu4\<close>: the rune of an escape \<^verbatim>\<open>\uXXXX\<close> at the head.\<close>

definition getu4 :: "string \<Rightarrow> nat option" where
  "getu4 s =
     (if length s \<ge> 6 \<and> s ! 0 = BS \<and> s ! 1 = CHR ''u'' \<and> list_all is_hex (take 4 (drop 2 s))
      then Some (foldl (\<lambda>r c. 16 * r + hex_val c) 0 (take 4 (drop 2 s))) else None)"

definition is_surrogate :: "nat \<Rightarrow> bool" where
  "is_surrogate r \<longleftrightarrow> 0xD800 \<le> r \<and> r < 0xE000"

definition surrogate_pair :: "nat \<Rightarrow> nat option \<Rightarrow> nat option" where
  "surrogate_pair r1 next =
     (case next of
        None \<Rightarrow> None
      | Some r2 \<Rightarrow> if r1 < 0xDC00 \<and> 0xDC00 \<le> r2 \<and> r2 < 0xE000
                   then Some ((r1 - 0xD800) * 1024 + (r2 - 0xDC00) + 0x10000) else None)"

definition simple_escape :: "char \<Rightarrow> char" where
  "simple_escape e =
     (if e = CHR ''b'' then CHR 0x08 else if e = CHR ''f'' then CHR 0x0C
      else if e = CHR ''n'' then CHR 0x0A else if e = CHR ''r'' then CHR 0x0D
      else if e = CHR ''t'' then CHR 0x09 else e)"

text \<open>\<^verbatim>\<open>unquoteBytes\<close> on the inside of a string token the scanner has accepted.\<close>

function unquote :: "string \<Rightarrow> string" where
  "unquote [] = []"
| "unquote (c # s) =
     (if c = BS then
        (case getu4 (c # s) of
           Some r \<Rightarrow>
             (if is_surrogate r then
                (case surrogate_pair r (getu4 (drop 5 s)) of
                   Some r' \<Rightarrow> encode_rune r' @ unquote (drop 11 s)
                 | None \<Rightarrow> replacement @ unquote (drop 5 s))
              else encode_rune r @ unquote (drop 5 s))
         | None \<Rightarrow> (case s of [] \<Rightarrow> [] | e # t \<Rightarrow> simple_escape e # unquote t))
      else
        let n = utf8_size (c # s) in
        if n = 0 then replacement @ unquote s
        else c # take (n - 1) s @ unquote (drop (n - 1) s))"
  by pat_completeness auto
termination by (relation "measure length") auto

subsection \<open>Tokens\<close>

text \<open>The escapes of one character.\<close>

definition is_simple :: "char \<Rightarrow> bool" where
  "is_simple e \<longleftrightarrow> e \<in> set (BS # DQ # ''/bfnrt'')"

text \<open>The length of the unit at the head of a string's inside: a byte or an escape; 0 where the scanner stops.\<close>

definition unit_len :: "string \<Rightarrow> nat" where
  "unit_len s =
     (case s of
        [] \<Rightarrow> 0
      | c # t \<Rightarrow>
          if c = BS then
            (case t of
               [] \<Rightarrow> 0
             | e # u \<Rightarrow> if is_simple e then 2
                       else if e = CHR ''u'' \<and> length u \<ge> 4 \<and> list_all is_hex (take 4 u) then 6 else 0)
          else if byte c < 32 \<or> c = DQ then 0 else 1)"

function scan_str :: "string \<Rightarrow> (string \<times> string) option" where
  "scan_str s =
     (if s \<noteq> [] \<and> hd s = DQ then Some ([], tl s)
      else let n = unit_len s in
        if n = 0 then None
        else case scan_str (drop n s) of None \<Rightarrow> None | Some (raw, r) \<Rightarrow> Some (take n s @ raw, r))"
  by pat_completeness auto
termination
proof (relation "measure length")
  fix s :: string and n
  assume "n = unit_len s" "n \<noteq> 0"
  then have "s \<noteq> []" by (auto simp: unit_len_def)
  with \<open>n \<noteq> 0\<close> show "(drop n s, s) \<in> measure length" by simp
qed simp

declare scan_str.simps [simp del]

text \<open>\<^verbatim>\<open>appendCompact\<close> with HTML escaping, on the inside of a string token.\<close>

fun html_raw :: "string \<Rightarrow> string" where
  "html_raw [] = []"
| "html_raw (c # s) =
     (if c = CHR ''<'' \<or> c = CHR ''>'' \<or> c = CHR ''&'' then u_escape (byte c) @ html_raw s
      else case line_sep (c # s) of
        Some r \<Rightarrow> u_escape r @ html_raw (drop 2 s)
      | None \<Rightarrow> c # html_raw s)"

section \<open>Lemmas on strings\<close>

named_theorems json \<open>facts on tokens and their scanners\<close>

lemma byte_less [simp]: "byte c < 256"
  by (simp add: byte_def)

lemma char_of_byte [simp]: "char_of (byte c) = c"
  by (simp add: byte_def)

lemma byte_char_of [simp]: "n < 256 \<Longrightarrow> byte (char_of n) = n"
  by (simp add: byte_def)

lemma byte_inject: "byte c = byte d \<longleftrightarrow> c = d"
  by (metis char_of_byte)

lemma byte_marks [simp]:
  "byte DQ = 34" "byte BS = 92" "byte (CHR ''<'') = 60" "byte (CHR ''>'') = 62" "byte (CHR ''&'') = 38"
  by (simp_all add: byte_def)

lemma byte_specials:
  "c = BS \<longleftrightarrow> byte c = 92" "c = DQ \<longleftrightarrow> byte c = 34" "c = CHR ''u'' \<longleftrightarrow> byte c = 117"
  "c = CHR ''<'' \<longleftrightarrow> byte c = 60" "c = CHR ''>'' \<longleftrightarrow> byte c = 62" "c = CHR ''&'' \<longleftrightarrow> byte c = 38"
  using byte_inject [of c BS] byte_inject [of c DQ] byte_inject [of c "CHR ''u''"] byte_inject [of c "CHR ''<''"]
    byte_inject [of c "CHR ''>''"] byte_inject [of c "CHR ''&''"]
  by (simp_all add: byte_def)

subsection \<open>Units\<close>

lemma unit_len_Nil [simp]: "unit_len [] = 0"
  by (simp add: unit_len_def)

lemma unit_len_byte [simp]: "c \<noteq> BS \<Longrightarrow> unit_len (c # t) = (if byte c < 32 \<or> c = DQ then 0 else 1)"
  by (simp add: unit_len_def)

lemma unit_len_simple [simp]: "is_simple e \<Longrightarrow> unit_len (BS # e # t) = 2"
  by (simp add: unit_len_def)

lemma unit_len_u [simp]: "list_all is_hex [a, b, c, d] \<Longrightarrow> unit_len (BS # CHR ''u'' # a # b # c # d # t) = 6"
  by (simp add: unit_len_def is_simple_def)

lemma unit_len_cases:
  assumes "unit_len s \<noteq> 0"
  obtains (byte) c t where "s = c # t" "c \<noteq> BS" "c \<noteq> DQ" "32 \<le> byte c" "unit_len s = 1"
  | (simple) e t where "s = BS # e # t" "is_simple e" "unit_len s = 2"
  | (u) a b c d t where "s = BS # CHR ''u'' # a # b # c # d # t" "list_all is_hex [a, b, c, d]" "unit_len s = 6"
proof (cases s)
  case Nil
  with assms show ?thesis by simp
next
  case (Cons c t)
  show ?thesis
  proof (cases "c = BS")
    case False
    with assms Cons show ?thesis by (intro byte) (auto split: if_splits)
  next
    case True
    with assms Cons obtain e u where t: "t = e # u" by (cases t) (auto simp: unit_len_def)
    show ?thesis
    proof (cases "is_simple e")
      case True
      with Cons \<open>c = BS\<close> t show ?thesis by (intro simple) auto
    next
      case False
      with assms Cons \<open>c = BS\<close> t have u4: "e = CHR ''u''" "4 \<le> length u" "list_all is_hex (take 4 u)"
        by (auto simp: unit_len_def split: if_splits)
      then obtain h1 h2 h3 h4 v where "u = h1 # h2 # h3 # h4 # v"
        by (auto simp: Suc_le_length_iff numeral_eq_Suc)
      with u4 Cons \<open>c = BS\<close> t show ?thesis by (intro u) auto
    qed
  qed
qed

lemma unit_len_le: "unit_len s \<le> length s"
  by (cases "unit_len s = 0", simp, erule unit_len_cases) auto

lemma unit_len_append: "unit_len s \<noteq> 0 \<Longrightarrow> unit_len (s @ t) = unit_len s"
  by (erule unit_len_cases) auto

lemma unit_len_take: "unit_len s \<noteq> 0 \<Longrightarrow> unit_len (take (unit_len s) s) = unit_len s"
  by (erule unit_len_cases) auto

lemma unit_len_hd: "unit_len s \<noteq> 0 \<Longrightarrow> s \<noteq> [] \<and> hd s \<noteq> DQ"
  by (erule unit_len_cases) auto

text \<open>The inside of a string token: a sequence of complete units.\<close>

function raw_ok :: "string \<Rightarrow> bool" where
  "raw_ok s = (if s = [] then True else if unit_len s = 0 then False else raw_ok (drop (unit_len s) s))"
  by pat_completeness auto
termination
proof (relation "measure length")
  fix s :: string
  assume "unit_len s \<noteq> 0"
  with unit_len_hd [of s] show "(drop (unit_len s) s, s) \<in> measure length" by simp
qed simp

declare raw_ok.simps [simp del]

lemma raw_ok_iff: "raw_ok s \<longleftrightarrow> s = [] \<or> unit_len s \<noteq> 0 \<and> raw_ok (drop (unit_len s) s)"
  by (subst raw_ok.simps) simp

lemma raw_ok_Nil [simp]: "raw_ok []"
  by (simp add: raw_ok.simps)

lemma raw_ok_unit: "unit_len u = length u \<Longrightarrow> u \<noteq> [] \<Longrightarrow> raw_ok (u @ s) \<longleftrightarrow> raw_ok s"
  by (subst raw_ok.simps [of "u @ s"]) (simp add: unit_len_append)

lemma raw_ok_append: "raw_ok a \<Longrightarrow> raw_ok b \<Longrightarrow> raw_ok (a @ b)"
proof (induction a rule: raw_ok.induct)
  case (1 a)
  show ?case
  proof (cases "a = []")
    case False
    with 1 have "unit_len a \<noteq> 0" "raw_ok (drop (unit_len a) a @ b)"
      using raw_ok_iff [of a] by auto
    with False show ?thesis
      by (subst raw_ok.simps) (simp add: unit_len_append unit_len_le)
  qed (use 1 in simp)
qed

lemma scan_str_complete [json]: "raw_ok raw \<Longrightarrow> scan_str (raw @ DQ # r) = Some (raw, r)"
proof (induction raw rule: raw_ok.induct)
  case (1 raw)
  show ?case
  proof (cases "raw = []")
    case False
    with "1.prems" have u: "unit_len raw \<noteq> 0" "raw_ok (drop (unit_len raw) raw)"
      using raw_ok_iff [of raw] by auto
    with 1 False have "scan_str (drop (unit_len raw) raw @ DQ # r) = Some (drop (unit_len raw) raw, r)"
      by simp
    moreover have "hd (raw @ DQ # r) \<noteq> DQ" using unit_len_hd [OF u(1)] False by simp
    ultimately show ?thesis
      by (subst scan_str.simps) (simp add: u unit_len_append unit_len_le)
  qed (simp add: scan_str.simps)
qed

lemma scan_str_sound [json]: "scan_str s = Some (raw, r) \<Longrightarrow> s = raw @ DQ # r \<and> raw_ok raw"
proof (induction s arbitrary: raw rule: scan_str.induct)
  case (1 s)
  show ?case
  proof (cases "s \<noteq> [] \<and> hd s = DQ")
    case True
    with "1.prems" show ?thesis by (cases s) (auto simp: scan_str.simps)
  next
    case False
    with "1.prems" obtain raw' where n: "unit_len s \<noteq> 0" and s': "scan_str (drop (unit_len s) s) = Some (raw', r)"
      and raw: "raw = take (unit_len s) s @ raw'"
      by (subst (asm) scan_str.simps) (auto simp: Let_def split: if_splits option.splits)
    from "1.IH" [OF False refl n s'] have ih: "drop (unit_len s) s = raw' @ DQ # r" "raw_ok raw'" by auto
    have len: "length (take (unit_len s) s) = unit_len s" using unit_len_le [of s] by simp
    have "raw_ok raw"
      unfolding raw using ih(2) unit_len_take [OF n] len n by (subst raw_ok_unit) auto
    moreover have "s = raw @ DQ # r" using ih(1) by (metis append_assoc append_take_drop_id raw)
    ultimately show ?thesis by simp
  qed
qed

subsection \<open>Quoting\<close>

lemma hex_digit_facts:
  assumes "d < 16"
  shows "is_hex (hex_digit d)" "hex_val (hex_digit d) = d"
proof -
  have "\<forall>d \<in> {..<16}. is_hex (hex_digit d) \<and> hex_val (hex_digit d) = d"
    by code_simp
  with assms show "is_hex (hex_digit d)" "hex_val (hex_digit d) = d" by auto
qed

lemma unit_u_escape [simp]: "unit_len (u_escape r) = 6"
  by (simp add: u_escape_def hex_digit_facts)

lemma length_u_escape [simp]: "length (u_escape r) = 6"
  by (simp add: u_escape_def)

lemma hex_digits4: "r < 0x10000 \<Longrightarrow> 4096 * (r div 4096) + 256 * (r div 256 mod 16) + 16 * (r div 16 mod 16) + r mod 16 = (r :: nat)"
  using mult_div_mod_eq [of 16 r] mult_div_mod_eq [of 16 "r div 16"] mult_div_mod_eq [of 16 "r div 256"]
    div_mult2_eq [of r 16 16, simplified] div_mult2_eq [of r 256 16, simplified]
  by linarith

lemma getu4_u_escape [simp]: "r < 0x10000 \<Longrightarrow> getu4 (u_escape r @ t) = Some r"
  by (simp add: getu4_def u_escape_def hex_digit_facts hex_digits4)

lemma raw_ok_u_escape [simp]: "raw_ok (u_escape r)"
  using raw_ok_unit [of "u_escape r" "[]"] by (simp flip: length_0_conv)

lemma raw_ok_bytes: "\<forall>c \<in> set s. 32 \<le> byte c \<and> c \<noteq> DQ \<and> c \<noteq> BS \<Longrightarrow> raw_ok s"
proof (induction s)
  case (Cons c s)
  then have "raw_ok ([c] @ s) \<longleftrightarrow> raw_ok s" by (intro raw_ok_unit) auto
  with Cons show ?case by simp
qed simp

lemma raw_ok_quote_ascii: "raw_ok (quote_ascii c)"
proof -
  have esc: "raw_ok [BS, e]" if "is_simple e" for e
    using raw_ok_unit [of "[BS, e]" "[]"] that by simp
  have "raw_ok [c]" if "c \<noteq> BS" "c \<noteq> DQ" "\<not> byte c < 32" using that by (intro raw_ok_bytes) auto
  with esc show ?thesis by (simp add: quote_ascii_def is_simple_def Let_def)
qed

lemma bytes_in_length: "bytes_in rs s \<Longrightarrow> length rs \<le> length s"
  by (induction rs s rule: bytes_in.induct) auto

lemma bytes_in_append: "bytes_in rs s \<Longrightarrow> bytes_in rs (take (length rs) s @ t)"
  by (induction rs s rule: bytes_in.induct) auto

lemma utf8_follow_cont:
  "utf8_follow x = Some rs \<Longrightarrow> (lo, hi) \<in> set rs \<Longrightarrow> 0x80 \<le> lo \<and> hi \<le> 0xBF"
  by (auto simp: utf8_follow_def split: if_splits)

lemma utf8_follow_ascii [simp]: "x < 0x80 \<Longrightarrow> utf8_follow x = Some []"
  by (simp add: utf8_follow_def)

lemma utf8_size_le: "utf8_size s \<le> length s"
  by (cases s) (auto dest: bytes_in_length split: option.splits)

lemma utf8_size_take:
  "utf8_size (c # s) = Suc n \<Longrightarrow> utf8_size (c # take n s @ t) = Suc n"
  by (auto simp: bytes_in_append split: option.splits if_splits)

lemma bytes_in_cont: "bytes_in rs s \<Longrightarrow> \<forall>(lo, hi) \<in> set rs. l \<le> lo \<and> hi \<le> h \<Longrightarrow> c \<in> set (take (length rs) s) \<Longrightarrow> l \<le> byte c \<and> byte c \<le> h"
  by (induction rs s rule: bytes_in.induct) auto

lemma utf8_cont:
  assumes "utf8_size (c # s) = Suc n" and "b \<in> set (take n s)"
  shows "0x80 \<le> byte b \<and> byte b \<le> 0xBF"
proof -
  from assms(1) obtain rs where rs: "utf8_follow (byte c) = Some rs" "bytes_in rs s" "n = length rs"
    by (auto split: option.splits if_splits)
  with bytes_in_cont [of rs s 128 191 b] utf8_follow_cont [OF rs(1)] assms(2) show ?thesis by auto
qed

lemma raw_ok_quote: "raw_ok (quote s)"
proof (induction s rule: quote.induct)
  case (2 c s)
  show ?case
  proof (cases "byte c < 0x80")
    case True
    with 2 show ?thesis by (simp add: raw_ok_append raw_ok_quote_ascii)
  next
    case False
    let ?n = "utf8_size (c # s)"
    show ?thesis
    proof (cases ?n)
      case 0
      with 2 False show ?thesis by (simp add: raw_ok_append)
    next
      case (Suc n)
      have "raw_ok (c # take n s)"
      proof (rule raw_ok_bytes, rule ballI)
        fix b assume "b \<in> set (c # take n s)"
        with utf8_cont [OF Suc, of b] False have "0x80 \<le> byte b" by auto
        then show "32 \<le> byte b \<and> b \<noteq> DQ \<and> b \<noteq> BS" by auto
      qed
      with 2 False Suc show ?thesis
        by (auto simp: raw_ok_append simp del: utf8_size.simps append_Cons split: option.splits)
    qed
  qed
qed simp

lemma unquote_plain: "c \<noteq> BS \<Longrightarrow> byte c < 0x80 \<Longrightarrow> unquote (c # t) = c # unquote t"
  by simp

lemma getu4_simple: "e \<noteq> CHR ''u'' \<Longrightarrow> getu4 (BS # e # t) = None"
  by (simp add: getu4_def)

lemma unquote_simple: "e \<noteq> CHR ''u'' \<Longrightarrow> unquote (BS # e # t) = simple_escape e # unquote t"
  by (simp add: getu4_simple)

lemma unquote_u: "r < 0x10000 \<Longrightarrow> \<not> is_surrogate r \<Longrightarrow> unquote (u_escape r @ t) = encode_rune r @ unquote t"
  using getu4_u_escape [of r t] by (simp add: u_escape_def)

lemma simple_escape_codes:
  "c = CHR 0x08 \<longleftrightarrow> byte c = 8" "c = CHR 0x0C \<longleftrightarrow> byte c = 12" "c = CHR 0x0A \<longleftrightarrow> byte c = 10"
  "c = CHR 0x0D \<longleftrightarrow> byte c = 13" "c = CHR 0x09 \<longleftrightarrow> byte c = 9"
  using byte_inject [of c "CHR 0x08"] byte_inject [of c "CHR 0x0C"] byte_inject [of c "CHR 0x0A"]
    byte_inject [of c "CHR 0x0D"] byte_inject [of c "CHR 0x09"]
  by (simp_all add: byte_def)

lemma unquote_quote_ascii: "byte c < 0x80 \<Longrightarrow> unquote (quote_ascii c @ t) = c # unquote t"
proof -
  assume a: "byte c < 0x80"
  consider "c = BS \<or> c = DQ" | "c \<noteq> BS" "c \<noteq> DQ" "byte c \<in> {8, 9, 10, 12, 13}"
    | "c \<noteq> BS" "c \<noteq> DQ" "byte c \<notin> {8, 9, 10, 12, 13}" "byte c < 32 \<or> c = CHR ''<'' \<or> c = CHR ''>'' \<or> c = CHR ''&''"
    | "c \<noteq> BS" "c \<noteq> DQ" "byte c \<notin> {8, 9, 10, 12, 13}" "\<not> (byte c < 32 \<or> c = CHR ''<'' \<or> c = CHR ''>'' \<or> c = CHR ''&'')"
    by blast
  then show ?thesis
  proof cases
    case 1
    then show ?thesis by (auto simp: quote_ascii_def unquote_simple simple_escape_def simp del: unquote.simps)
  next
    case 2
    then show ?thesis
      by (auto simp: quote_ascii_def unquote_simple simple_escape_def simp_thms Let_def simple_escape_codes [symmetric]
          simp del: unquote.simps)
  next
    case 3
    then have q: "quote_ascii c = u_escape (byte c)" by (simp add: quote_ascii_def Let_def)
    show ?thesis unfolding q using a unquote_u [of "byte c" t]
      by (simp add: is_surrogate_def encode_rune_def del: unquote.simps)
  next
    case 4
    then have q: "quote_ascii c = [c]" by (simp add: quote_ascii_def Let_def)
    show ?thesis unfolding q using a 4 unquote_plain [of c t] by simp
  qed
qed

lemma encode_rune_marks [simp]:
  "encode_rune 0x2028 = [CHR 0xE2, CHR 0x80, CHR 0xA8]" "encode_rune 0x2029 = [CHR 0xE2, CHR 0x80, CHR 0xA9]"
  "encode_rune 0xFFFD = replacement"
  by (simp_all add: encode_rune_def replacement_def char_of_eq_iff)

lemma utf8_size_sep [simp]:
  "utf8_size (CHR 0xE2 # CHR 0x80 # CHR 0xA8 # t) = 3" "utf8_size (CHR 0xE2 # CHR 0x80 # CHR 0xA9 # t) = 3"
  by (simp_all add: utf8_follow_def byte_def)

lemma take_3: "take 3 (c # s) = [x, y, z] \<longleftrightarrow> c = x \<and> (\<exists>t. s = y # z # t)"
  by (cases s; cases "tl s") (auto simp: numeral_3_eq_3)

lemma line_sep_utf8:
  assumes "line_sep (c # s) = Some r"
  shows "utf8_size (c # s) = 3" "c # take 2 s = encode_rune r" "r < 0x10000" "\<not> is_surrogate r" "0x80 \<le> byte c" "2 \<le> length s"
proof -
  from assms obtain y t where "c = CHR 0xE2" "s = CHR 0x80 # y # t" "y = CHR 0xA8 \<and> r = 0x2028 \<or> y = CHR 0xA9 \<and> r = 0x2029"
    unfolding line_sep_def take_3 by (auto split: if_splits)
  then show "utf8_size (c # s) = 3" "c # take 2 s = encode_rune r" "r < 0x10000" "\<not> is_surrogate r" "0x80 \<le> byte c" "2 \<le> length s"
    by (auto simp: is_surrogate_def byte_def simp del: utf8_size.simps)
qed

lemma unquote_seq:
  assumes "utf8_size (c # s) = Suc n" and "c \<noteq> BS"
  shows "unquote (c # take n s @ t) = c # take n s @ unquote t"
proof -
  have "n \<le> length s" using utf8_size_le [of "c # s"] assms(1) by simp
  with utf8_size_take [OF assms(1), of t] assms(2) show ?thesis
    by (simp del: utf8_size.simps)
qed

lemma unquote_quote [json]: "unquote (quote s) = utf8_fix s"
proof (induction s rule: quote.induct)
  case (2 c s)
  let ?n = "utf8_size (c # s)"
  consider "byte c < 0x80" | "0x80 \<le> byte c" "?n = 0" | n where "0x80 \<le> byte c" "?n = Suc n" by (cases ?n) force+
  then show ?case
  proof cases
    case 1
    with 2 show ?thesis by (simp add: unquote_quote_ascii del: unquote.simps)
  next
    case 2
    have "unquote (u_escape 0xFFFD @ quote s) = replacement @ unquote (quote s)"
      by (subst unquote_u) (simp_all add: is_surrogate_def)
    with 2 \<open>\<lbrakk>\<not> byte c < 0x80; _ = _; _ = 0\<rbrakk> \<Longrightarrow> _\<close> show ?thesis by (simp del: utf8_size.simps unquote.simps)
  next
    case 3
    have bs: "c \<noteq> BS" using 3(1) by auto
    have ih: "unquote (quote (drop n s)) = utf8_fix (drop n s)" using 2(3) 3 by (simp del: utf8_size.simps)
    show ?thesis
    proof (cases "line_sep (c # s)")
      case None
      with 3 ih unquote_seq [OF 3(2) bs, of "quote (drop n s)"] show ?thesis
        by (simp del: utf8_size.simps unquote.simps)
    next
      case (Some r)
      note ls = line_sep_utf8 [OF Some]
      with 3 have n: "n = 2" by simp
      have "c # take 2 s @ x = encode_rune r @ x" for x using ls(2) by (metis append_Cons)
      with Some 3 ih n unquote_u [OF ls(3,4)] show ?thesis by (simp del: utf8_size.simps unquote.simps)
    qed
  qed
qed simp

lemma utf8_fix_valid: "utf8_valid s \<Longrightarrow> utf8_fix s = s"
  by (induction s rule: utf8_fix.induct) (auto simp: Let_def simp del: utf8_size.simps)

subsection \<open>HTML escaping\<close>

lemma line_sep_hd: "c \<noteq> CHR 0xE2 \<Longrightarrow> line_sep (c # s) = None"
  by (simp add: line_sep_def take_3)

lemma html_raw_plain: "c \<notin> {CHR ''<'', CHR ''>'', CHR ''&'', CHR 0xE2} \<Longrightarrow> html_raw (c # s) = c # html_raw s"
  by (simp add: line_sep_hd)

lemma html_raw_bytes: "\<forall>c \<in> set xs. c \<notin> {CHR ''<'', CHR ''>'', CHR ''&'', CHR 0xE2} \<Longrightarrow> html_raw (xs @ t) = xs @ html_raw t"
proof (induction xs)
  case (Cons c xs)
  with html_raw_plain [of c "xs @ t"] show ?case by simp
qed simp

lemma cont_plain: "0x80 \<le> byte c \<Longrightarrow> byte c \<le> 0xBF \<Longrightarrow> c \<notin> {CHR ''<'', CHR ''>'', CHR ''&'', CHR 0xE2}"
  by (auto simp: byte_def)

lemma hex_plain: "is_hex c \<Longrightarrow> c \<notin> {CHR ''<'', CHR ''>'', CHR ''&'', CHR 0xE2}"
  by (auto simp: is_hex_def is_digit_def byte_def)

lemma html_raw_escape: "is_simple e \<Longrightarrow> html_raw (BS # e # t) = BS # e # html_raw t"
  using html_raw_bytes [of "[BS, e]" t] by (auto simp: is_simple_def)

lemma html_raw_u: "list_all is_hex [a, b, c, d] \<Longrightarrow> html_raw (BS # CHR ''u'' # a # b # c # d # t) = BS # CHR ''u'' # a # b # c # d # html_raw t"
  using html_raw_bytes [of "BS # CHR ''u'' # [a, b, c, d]" t] hex_plain by auto

lemma bytes_in_html:
  assumes "bytes_in rs (html_raw s)" and "\<forall>(lo, hi) \<in> set rs. 0x80 \<le> lo \<and> hi \<le> 0xBF"
  shows "bytes_in rs s"
  using assms
proof (induction rs arbitrary: s)
  case (Cons r rs)
  obtain lo hi where r: "r = (lo, hi)" by (cases r)
  with Cons.prems(1) obtain b t where h: "html_raw s = b # t" "lo \<le> byte b" "byte b \<le> hi" "bytes_in rs t"
    by (cases "html_raw s") auto
  with Cons.prems(2) r have b: "0x80 \<le> byte b" "byte b \<le> 0xBF" by auto
  from h(1) obtain c u where s: "s = c # u" by (cases s) auto
  have "b = c" "t = html_raw u"
    using h(1) b s byte_marks(2) by (auto simp: u_escape_def split: if_splits option.splits)
  with Cons h r s show ?case by auto
qed simp

lemma utf8_size_html: "utf8_size (c # s) = 0 \<Longrightarrow> utf8_size (c # html_raw s) = 0"
  using bytes_in_html [of _ s] utf8_follow_cont [of "byte c"] by (auto split: option.splits if_splits)

lemma raw_ok_tl: "raw_ok (c # s) \<Longrightarrow> c \<noteq> BS \<Longrightarrow> raw_ok s"
  using raw_ok_iff [of "c # s"] by (auto split: if_splits)

lemma raw_ok_drop: "raw_ok s \<Longrightarrow> BS \<notin> set (take n s) \<Longrightarrow> raw_ok (drop n s)"
proof (induction n arbitrary: s)
  case (Suc n)
  then show ?case by (cases s) (auto dest: raw_ok_tl)
qed simp

lemma getu4_u: "list_all is_hex [a, b, c, d] \<Longrightarrow> \<exists>r. \<forall>t'. getu4 (BS # CHR ''u'' # a # b # c # d # t') = Some r"
  by (simp add: getu4_def)

lemma unquote_u_unit:
  assumes "list_all is_hex [a, b, c, d]"
  shows "\<exists>r. getu4 (BS # CHR ''u'' # a # b # c # d # t) = Some r \<and>
    unquote (BS # CHR ''u'' # a # b # c # d # t) =
      (if is_surrogate r then
         (case surrogate_pair r (getu4 t) of
            Some r' \<Rightarrow> encode_rune r' @ unquote (drop 6 t) | None \<Rightarrow> replacement @ unquote t)
       else encode_rune r @ unquote t) \<and> (\<forall>t'. getu4 (BS # CHR ''u'' # a # b # c # d # t') = Some r)"
proof -
  obtain r where r: "\<forall>t'. getu4 (BS # CHR ''u'' # a # b # c # d # t') = Some r" using getu4_u [OF assms] by blast
  then show ?thesis by (intro exI [of _ r]) (simp split: option.split)
qed

lemma surrogate_pair_html:
  assumes "raw_ok t"
  shows "surrogate_pair r (getu4 (html_raw t)) = surrogate_pair r (getu4 t) \<and>
    (surrogate_pair r (getu4 t) \<noteq> None \<longrightarrow> html_raw t = take 6 t @ html_raw (drop 6 t) \<and> 6 \<le> length t \<and> raw_ok (drop 6 t))"
proof (cases "t = []")
  case False
  with assms have u: "unit_len t \<noteq> 0" "raw_ok (drop (unit_len t) t)" using raw_ok_iff [of t] by auto
  from u(1) show ?thesis
  proof (cases rule: unit_len_cases)
    case (byte c t')
    then have n: "getu4 t = None" by (simp add: getu4_def)
    have "surrogate_pair r (getu4 (u_escape x @ s)) = None" if "x < 0x10000" "\<not> is_surrogate x" for x s
      using that by (simp add: surrogate_pair_def is_surrogate_def)
    moreover have "getu4 (c # s) = None" for s using byte by (simp add: getu4_def)
    ultimately have "surrogate_pair r (getu4 (html_raw t)) = None"
      using byte line_sep_utf8 [of c t'] by (auto simp: is_surrogate_def surrogate_pair_def split: option.splits)
    with n show ?thesis by (simp add: surrogate_pair_def)
  next
    case (simple e t')
    then have "e \<noteq> CHR ''u''" by (auto simp: is_simple_def)
    with simple show ?thesis by (simp add: html_raw_escape getu4_simple surrogate_pair_def del: html_raw.simps)
  next
    case (u a b c d t')
    obtain r0 where "\<forall>t'. getu4 (BS # CHR ''u'' # a # b # c # d # t') = Some r0" using getu4_u [OF u(2)] by blast
    with u html_raw_u [OF u(2), of t'] \<open>raw_ok (drop (unit_len t) t)\<close> show ?thesis by (auto simp del: html_raw.simps)
  qed
qed (simp add: getu4_def surrogate_pair_def)

text \<open>The three kinds of units, given the claim for what follows them.\<close>

lemma html_raw_sound_byte:
  assumes s: "s = c # t" "c \<noteq> BS" "c \<noteq> DQ" "32 \<le> byte c" "unit_len s = 1" and t: "raw_ok t"
    and IH: "\<And>t. raw_ok t \<Longrightarrow> length t < length s \<Longrightarrow> raw_ok (html_raw t) \<and> unquote (html_raw t) = unquote t"
  shows "raw_ok (html_raw s) \<and> unquote (html_raw s) = unquote s"
proof -
  consider (esc) "c \<in> {CHR ''<'', CHR ''>'', CHR ''&''}"
    | (sep) r where "c \<notin> {CHR ''<'', CHR ''>'', CHR ''&''}" "line_sep (c # t) = Some r"
    | (plain) "c \<notin> {CHR ''<'', CHR ''>'', CHR ''&''}" "line_sep (c # t) = None" by blast
  then show ?thesis
  proof cases
    case esc
    then have h: "html_raw s = u_escape (byte c) @ html_raw t" using s by auto
    have "byte c < 0x80" using esc by auto
    then have "unquote (u_escape (byte c) @ html_raw t) = [c] @ unquote (html_raw t)" "unquote s = c # unquote t"
      using s by (simp_all add: unquote_u is_surrogate_def encode_rune_def)
    with IH [OF t] s h show ?thesis by (simp add: raw_ok_append)
  next
    case sep
    note ls = line_sep_utf8 [OF sep(2)]
    have h: "html_raw s = u_escape r @ html_raw (drop 2 t)" using s sep by simp
    have sz: "utf8_size (c # t) = Suc 2" using ls(1) by simp
    have "BS \<notin> set (take 2 t)" using utf8_cont [OF sz] by fastforce
    then have d: "raw_ok (drop 2 t)" using raw_ok_drop [OF t] by blast
    have "unquote s = (c # take 2 t) @ unquote (drop 2 t)"
      using unquote_seq [OF sz, of "drop 2 t"] s by simp
    with IH [OF d] s h ls unquote_u [OF ls(3,4), of "html_raw (drop 2 t)"] show ?thesis
      by (simp add: raw_ok_append del: unquote.simps)
  next
    case plain
    then have h: "html_raw s = c # html_raw t" using s by simp
    have ok: "raw_ok (html_raw s)"
      using IH [OF t] s raw_ok_unit [of "[c]" "html_raw t"] h by simp
    show ?thesis
    proof (cases "utf8_size (c # t)")
      case 0
      with utf8_size_html [OF 0] IH [OF t] s ok show ?thesis unfolding h by (simp del: utf8_size.simps)
    next
      case (Suc n)
      have cont: "0x80 \<le> byte b \<and> byte b \<le> 0xBF" if "b \<in> set (take n t)" for b using utf8_cont [OF Suc that] .
      then have "BS \<notin> set (take n t)" by fastforce
      then have d: "raw_ok (drop n t)" using raw_ok_drop [OF t] by blast
      have "html_raw (take n t @ drop n t) = take n t @ html_raw (drop n t)"
        using cont cont_plain by (intro html_raw_bytes) blast
      then have ht: "html_raw s = c # take n t @ html_raw (drop n t)" using h by simp
      have "unquote s = c # take n t @ unquote (drop n t)"
        using unquote_seq [OF Suc, of "drop n t"] s by simp
      with ok IH [OF d] s ht unquote_seq [OF Suc, of "html_raw (drop n t)"] show ?thesis
        by (simp del: unquote.simps)
    qed
  qed
qed

lemma html_raw_sound_u:
  assumes s: "s = BS # CHR ''u'' # a # b # c # d # t" and hex: "list_all is_hex [a, b, c, d]" and n: "unit_len s = 6" and t: "raw_ok t"
    and IH: "\<And>t. raw_ok t \<Longrightarrow> length t < length s \<Longrightarrow> raw_ok (html_raw t) \<and> unquote (html_raw t) = unquote t"
  shows "raw_ok (html_raw s) \<and> unquote (html_raw s) = unquote s"
proof -
  have h: "html_raw s = BS # CHR ''u'' # a # b # c # d # html_raw t" using s html_raw_u [OF hex] by simp
  have ok: "raw_ok (html_raw s)"
    using IH [OF t] s hex n raw_ok_unit [of "BS # CHR ''u'' # [a, b, c, d]" "html_raw t"] h by simp
  obtain r where r: "unquote s = (if is_surrogate r then
     (case surrogate_pair r (getu4 t) of
        Some r' \<Rightarrow> encode_rune r' @ unquote (drop 6 t) | None \<Rightarrow> replacement @ unquote t)
   else encode_rune r @ unquote t)" "\<forall>t'. getu4 (BS # CHR ''u'' # a # b # c # d # t') = Some r"
    using unquote_u_unit [OF hex, of t] s by blast
  obtain r' where r': "unquote (html_raw s) = (if is_surrogate r' then
     (case surrogate_pair r' (getu4 (html_raw t)) of
        Some r'' \<Rightarrow> encode_rune r'' @ unquote (drop 6 (html_raw t)) | None \<Rightarrow> replacement @ unquote (html_raw t))
   else encode_rune r' @ unquote (html_raw t))" "\<forall>t'. getu4 (BS # CHR ''u'' # a # b # c # d # t') = Some r'"
    using unquote_u_unit [OF hex, of "html_raw t"] h by metis
  have "r' = r" using r(2) r'(2) by simp
  with surrogate_pair_html [OF t, of r] IH [of t] IH [of "drop 6 t"] t s ok r(1) r'(1) show ?thesis
    by (auto split: option.splits)
qed

lemma html_raw_sound: "raw_ok s \<Longrightarrow> raw_ok (html_raw s) \<and> unquote (html_raw s) = unquote s"
proof (induction s rule: length_induct)
  case (1 s)
  show ?case
  proof (cases "s = []")
    case False
    with "1.prems" have ul: "unit_len s \<noteq> 0" "raw_ok (drop (unit_len s) s)" using raw_ok_iff [of s] by auto
    have IH: "raw_ok (html_raw t) \<and> unquote (html_raw t) = unquote t" if "raw_ok t" "length t < length s" for t
      using "1.IH" that by blast
    from ul(1) show ?thesis
    proof (cases rule: unit_len_cases)
      case (byte c t)
      then have "raw_ok t" using ul(2) by simp
      from html_raw_sound_byte [OF byte this IH] show ?thesis .
    next
      case (simple e t)
      then have "e \<noteq> CHR ''u''" by (auto simp: is_simple_def)
      with simple ul(2) IH [of t] raw_ok_unit [of "[BS, e]" "html_raw t"] show ?thesis
        by (simp add: html_raw_escape unquote_simple del: html_raw.simps unquote.simps)
    next
      case (u a b c d t)
      then have "raw_ok t" using ul(2) by simp
      from html_raw_sound_u [OF u this IH] show ?thesis .
    qed
  qed simp
qed

subsection \<open>Decoded strings are well-formed\<close>

lemma bytes_in_more: "bytes_in rs s \<Longrightarrow> bytes_in rs (s @ t)"
  by (induction rs s rule: bytes_in.induct) auto

lemma utf8_size_more: "utf8_size (c # s) = Suc n \<Longrightarrow> utf8_size (c # s @ t) = Suc n"
  by (auto simp: bytes_in_more split: option.splits if_splits)

lemma utf8_valid_append: "utf8_valid a \<Longrightarrow> utf8_valid b \<Longrightarrow> utf8_valid (a @ b)"
proof (induction a rule: utf8_valid.induct)
  case (2 c s)
  then obtain n where n: "utf8_size (c # s) = Suc n" by (cases "utf8_size (c # s)") (auto simp: Let_def)
  have "n \<le> length s" using utf8_size_le [of "c # s"] n by simp
  with 2 n utf8_size_more [OF n, of b] show ?case by (simp add: Let_def del: utf8_size.simps)
qed simp

lemma utf8_valid_seq: "utf8_size (c # s) = Suc n \<Longrightarrow> utf8_valid (c # take n s)"
  using utf8_size_take [of c s n "[]"] by (simp add: Let_def del: utf8_size.simps)

lemma utf8_valid_replacement [simp]: "utf8_valid replacement"
  by code_simp

lemma div_mod_64: "(r :: nat) div 64 div 64 = r div 4096" "r div 4096 div 64 = r div 262144"
  by (simp_all flip: div_mult2_eq)

lemma encode_rune_3:
  fixes r :: nat
  assumes "0x800 \<le> r" "r < 0x10000" "\<not> (0xD800 \<le> r \<and> r \<le> 0xDFFF)"
  shows "utf8_valid [char_of (0xE0 + r div 4096), char_of (0x80 + r div 64 mod 64), char_of (0x80 + r mod 64)]"
proof -
  let ?a = "r div 4096" and ?b = "r div 64 mod 64"
  have eq: "r div 64 = 64 * ?a + ?b" using mult_div_mod_eq [of 64 "r div 64"] div_mod_64 by simp
  have a: "?a < 16" using assms(2) by (simp add: less_mult_imp_div_less)
  have lo: "?a = 0 \<Longrightarrow> 0x20 \<le> ?b" using eq div_le_mono [OF assms(1), of 64] by simp
  have "r < 0xD800" if "?a = 13" using that assms(3) div_le_mono [of 57344 r 4096] by (cases "r < 0xE000") auto
  then have "r div 64 < 864" if "?a = 13" using that by (simp add: less_mult_imp_div_less)
  then have hi: "?b < 0x20" if "?a = 13" using that eq by simp
  show ?thesis using a lo hi by (auto simp: utf8_follow_def Let_def)
qed

lemma encode_rune_4:
  fixes r :: nat
  assumes "0x10000 \<le> r" "r \<le> 0x10FFFF"
  shows "utf8_valid [char_of (0xF0 + r div 262144), char_of (0x80 + r div 4096 mod 64),
    char_of (0x80 + r div 64 mod 64), char_of (0x80 + r mod 64)]"
proof -
  let ?a = "r div 262144" and ?b = "r div 4096 mod 64"
  have eq: "r div 4096 = 64 * ?a + ?b" using mult_div_mod_eq [of 64 "r div 4096"] div_mod_64 by simp
  have l: "16 \<le> r div 4096" "r div 4096 \<le> 271" using div_le_mono [OF assms(1), of 4096] div_le_mono [OF assms(2), of 4096] by simp_all
  have a: "?a \<le> 4" and lo: "?a = 0 \<Longrightarrow> 0x10 \<le> ?b" and hi: "?a = 4 \<Longrightarrow> ?b < 0x10" using eq l by auto
  show ?thesis using a lo hi by (auto simp: utf8_follow_def Let_def)
qed

lemma utf8_valid_encode_rune [simp]: "utf8_valid (encode_rune r)"
proof -
  have "2 \<le> r div 64" "r div 64 < 32" if "0x80 \<le> r" "r < 0x800"
    using div_le_mono [OF that(1), of 64] that(2) by (simp_all add: less_mult_imp_div_less)
  then have two: "utf8_valid [char_of (0xC0 + r div 64), char_of (0x80 + r mod 64)]" if "0x80 \<le> r" "r < 0x800"
    using that by (auto simp: utf8_follow_def Let_def)
  with encode_rune_3 [of r] encode_rune_4 [of r] show ?thesis
    unfolding encode_rune_def by (auto simp: Let_def simp del: utf8_size.simps utf8_valid.simps) (simp add: utf8_follow_def)
qed

lemma utf8_valid_escape: "utf8_valid [c]" if "byte c < 0x80"
  using that by simp

lemma simple_escape_ascii: "is_simple e \<Longrightarrow> e \<noteq> CHR ''u'' \<and> byte (simple_escape e) < 0x80"
proof -
  have "list_all (\<lambda>e. e \<noteq> CHR ''u'' \<and> byte (simple_escape e) < 0x80) (BS # DQ # ''/bfnrt'')" by code_simp
  then show "is_simple e \<Longrightarrow> ?thesis" unfolding is_simple_def list_all_iff by blast
qed

lemma unquote_valid: "raw_ok s \<Longrightarrow> utf8_valid (unquote s)"
proof (induction s rule: length_induct)
  case (1 s)
  show ?case
  proof (cases "s = []")
    case False
    with "1.prems" have ul: "unit_len s \<noteq> 0" "raw_ok (drop (unit_len s) s)" using raw_ok_iff [of s] by auto
    have IH: "utf8_valid (unquote t)" if "raw_ok t" "length t < length s" for t using "1.IH" that by blast
    from ul(1) show ?thesis
    proof (cases rule: unit_len_cases)
      case (byte c t)
      then have t: "raw_ok t" using ul(2) by simp
      show ?thesis
      proof (cases "utf8_size (c # t)")
        case 0
        with byte IH [OF t] show ?thesis by (simp add: utf8_valid_append del: utf8_size.simps)
      next
        case (Suc n)
        have "BS \<notin> set (take n t)" using utf8_cont [OF Suc] by fastforce
        then have "raw_ok (drop n t)" using raw_ok_drop [OF t] by blast
        with byte IH [of "drop n t"] Suc utf8_valid_append [OF utf8_valid_seq [OF Suc], of "unquote (drop n t)"]
        show ?thesis by (simp del: utf8_size.simps utf8_valid.simps)
      qed
    next
      case (simple e t)
      then have e: "e \<noteq> CHR ''u''" "byte (simple_escape e) < 0x80"
        using simple_escape_ascii by blast+
      with simple ul(2) IH [of t] utf8_valid_append [OF utf8_valid_escape [OF e(2)], of "unquote t"] show ?thesis
        by (simp add: unquote_simple del: unquote.simps utf8_valid.simps)
    next
      case (u a b c d t)
      then have t: "raw_ok t" using ul(2) by simp
      obtain r where "unquote s = (if is_surrogate r then
         (case surrogate_pair r (getu4 t) of
            Some r' \<Rightarrow> encode_rune r' @ unquote (drop 6 t) | None \<Rightarrow> replacement @ unquote t)
       else encode_rune r @ unquote t)"
        using unquote_u_unit [OF u(2), of t] u(1) by blast
      with surrogate_pair_html [OF t, of r] IH [of t] IH [of "drop 6 t"] t u(1) show ?thesis
        by (auto simp: utf8_valid_append split: option.splits)
    qed
  qed simp
qed

declare utf8_fix.simps(2) [simp del] utf8_valid.simps(2) [simp del] quote.simps(2) [simp del] unquote.simps(2) [simp del]
  html_raw.simps(2) [simp del]

end
