(* ===== verification/Go_Json.thy ===== *)
theory Go_Json
  imports Json_Text
begin

text \<open>
  What the sources use of Go's package \<^verbatim>\<open>encoding/json\<close>: values, printing, the grammar as a
  parser that returns the rest of its input, the two decoders, and the compact form of a raw
  message.

  A value keeps its string and number tokens as they are written (between the quotes), so that
  printing and compacting need not know what they mean; \<open>json_string\<close> and \<open>unquote\<close> go
  between Go strings and tokens. The parser is bounded by a fuel of twice the length of the text,
  which is always enough (\<open>parse_val_fuel\<close>). Shown: what is printed is parsed back, a parsed
  value is made of well-formed tokens, and compacting keeps the meaning.
\<close>

section \<open>Definitions\<close>

subsection \<open>Values and their text\<close>

datatype json = JNull | JBool bool | JNum string | JStr string | JArr "json list" | JObj "(string \<times> json) list"

definition json_string :: "string \<Rightarrow> json" where
  "json_string s = JStr (quote s)"

definition json_int :: "int \<Rightarrow> json" where
  "json_int i = JNum (show_int i)"

fun join_comma :: "string list \<Rightarrow> string" where
  "join_comma [] = []"
| "join_comma [s] = s"
| "join_comma (s # t # ss) = s @ CHR '','' # join_comma (t # ss)"

fun print_json :: "json \<Rightarrow> string" where
  "print_json JNull = ''null''"
| "print_json (JBool b) = (if b then ''true'' else ''false'')"
| "print_json (JNum tok) = tok"
| "print_json (JStr raw) = DQ # raw @ [DQ]"
| "print_json (JArr vs) = CHR ''['' # join_comma (map print_json vs) @ '']''"
| "print_json (JObj ms) = CHR ''{'' # join_comma (map (\<lambda>(k, v). (DQ # k @ [DQ]) @ CHR '':'' # print_json v) ms) @ ''}''"

subsection \<open>The grammar\<close>

definition is_space :: "char \<Rightarrow> bool" where
  "is_space c \<longleftrightarrow> c = CHR '' '' \<or> c = CHR 0x09 \<or> c = CHR 0x0A \<or> c = CHR 0x0D"

definition skip_ws :: "string \<Rightarrow> string" where
  "skip_ws s = dropWhile is_space s"

definition scan_digits :: "string \<Rightarrow> (string \<times> string) option" where
  "scan_digits s = (let ds = takeWhile is_digit s in if ds = [] then None else Some (ds, dropWhile is_digit s))"

definition scan_int :: "string \<Rightarrow> (string \<times> string) option" where
  "scan_int s =
     (case s of
        [] \<Rightarrow> None
      | c # t \<Rightarrow> if c = CHR ''0'' then Some ([c], t) else scan_digits s)"

definition scan_frac :: "string \<Rightarrow> (string \<times> string) option" where
  "scan_frac s =
     (case s of
        [] \<Rightarrow> Some ([], s)
      | c # t \<Rightarrow> if c = CHR ''.'' then map_option (apfst ((#) c)) (scan_digits t) else Some ([], s))"

definition scan_exp :: "string \<Rightarrow> (string \<times> string) option" where
  "scan_exp s =
     (case s of
        [] \<Rightarrow> Some ([], s)
      | c # t \<Rightarrow>
          if c = CHR ''e'' \<or> c = CHR ''E'' then
            (case t of
               [] \<Rightarrow> None
             | d # u \<Rightarrow> if d = CHR ''+'' \<or> d = CHR ''-'' then map_option (apfst (\<lambda>ds. c # d # ds)) (scan_digits u)
                       else map_option (apfst ((#) c)) (scan_digits t))
          else Some ([], s))"

definition scan_sign :: "string \<Rightarrow> string \<times> string" where
  "scan_sign s = (case s of [] \<Rightarrow> ([], s) | c # t \<Rightarrow> if c = CHR ''-'' then ([c], t) else ([], s))"

definition scan_num :: "string \<Rightarrow> (string \<times> string) option" where
  "scan_num s =
     (case scan_sign s of (sg, s1) \<Rightarrow>
        (case scan_int s1 of
           None \<Rightarrow> None
         | Some (i, s2) \<Rightarrow>
             (case scan_frac s2 of
                None \<Rightarrow> None
              | Some (f, s3) \<Rightarrow>
                  (case scan_exp s3 of
                     None \<Rightarrow> None
                   | Some (e, s4) \<Rightarrow> Some (sg @ i @ f @ e, s4)))))"

definition literal :: "string \<Rightarrow> json \<Rightarrow> string \<Rightarrow> (json \<times> string) option" where
  "literal word v s = (if has_prefix s word then Some (v, drop (length word) s) else None)"

text \<open>
  A member is returned with the text of its value as it stands in the input, which is what a raw
  message receives.
\<close>

fun parse_val :: "nat \<Rightarrow> string \<Rightarrow> (json \<times> string) option"
  and parse_elems :: "nat \<Rightarrow> string \<Rightarrow> (json list \<times> string) option"
  and parse_members :: "nat \<Rightarrow> string \<Rightarrow> ((string \<times> json \<times> string) list \<times> string) option" where
  "parse_val 0 s = None"
| "parse_val (Suc n) s =
     (case skip_ws s of
        [] \<Rightarrow> None
      | c # t \<Rightarrow>
          if c = CHR ''{'' then
            (case skip_ws t of
               [] \<Rightarrow> None
             | d # u \<Rightarrow> if d = CHR ''}'' then Some (JObj [], u)
                       else map_option (apfst (\<lambda>ms. JObj (map (\<lambda>(k, v, raw). (k, v)) ms))) (parse_members n t))
          else if c = CHR ''['' then
            (case skip_ws t of
               [] \<Rightarrow> None
             | d # u \<Rightarrow> if d = CHR '']'' then Some (JArr [], u) else map_option (apfst JArr) (parse_elems n t))
          else if c = DQ then map_option (apfst JStr) (scan_str t)
          else if c = CHR ''n'' then literal ''null'' JNull (c # t)
          else if c = CHR ''t'' then literal ''true'' (JBool True) (c # t)
          else if c = CHR ''f'' then literal ''false'' (JBool False) (c # t)
          else map_option (apfst JNum) (scan_num (c # t)))"
| "parse_elems 0 s = None"
| "parse_elems (Suc n) s =
     (case parse_val n s of
        None \<Rightarrow> None
      | Some (v, r) \<Rightarrow>
          (case skip_ws r of
             [] \<Rightarrow> None
           | c # u \<Rightarrow> if c = CHR '','' then map_option (apfst ((#) v)) (parse_elems n u)
                     else if c = CHR '']'' then Some ([v], u) else None))"
| "parse_members 0 s = None"
| "parse_members (Suc n) s =
     (case skip_ws s of
        [] \<Rightarrow> None
      | q # t \<Rightarrow>
          if q \<noteq> DQ then None
          else (case scan_str t of
             None \<Rightarrow> None
           | Some (k, r1) \<Rightarrow>
               (case skip_ws r1 of
                  [] \<Rightarrow> None
                | c # r2 \<Rightarrow>
                    if c \<noteq> CHR '':'' then None
                    else (case parse_val n r2 of
                       None \<Rightarrow> None
                     | Some (v, r3) \<Rightarrow>
                         (let m = (k, v, take (length (skip_ws r2) - length r3) (skip_ws r2)) in
                          case skip_ws r3 of
                            [] \<Rightarrow> None
                          | d # u \<Rightarrow> if d = CHR '','' then map_option (apfst ((#) m)) (parse_members n u)
                                    else if d = CHR ''}'' then Some ([m], u) else None)))))"

fun depth :: "json \<Rightarrow> nat" where
  "depth (JArr vs) = Suc (foldr (\<lambda>v d. max (depth v) d) vs 0)"
| "depth (JObj ms) = Suc (foldr (\<lambda>(k, v) d. max (depth v) d) ms 0)"
| "depth v = 0"

text \<open>
  The decoders refuse values nested deeper than 10000. \<open>decode_first\<close> is \<^verbatim>\<open>Decoder.Decode\<close>,
  which reads the first value of the stream and ignores what follows; \<open>decode_all\<close> is
  \<^verbatim>\<open>json.Unmarshal\<close>, which allows only white space after the value.
\<close>

definition parse_doc :: "string \<Rightarrow> (json \<times> string) option" where
  "parse_doc s =
     (case parse_val (2 * length s + 2) s of
        None \<Rightarrow> None
      | Some (v, r) \<Rightarrow> if depth v \<le> 10000 then Some (v, r) else None)"

definition decode_first :: "string \<Rightarrow> json option" where
  "decode_first s = map_option fst (parse_doc s)"

definition decode_all :: "string \<Rightarrow> json option" where
  "decode_all s = (case parse_doc s of None \<Rightarrow> None | Some (v, r) \<Rightarrow> if skip_ws r = [] then Some v else None)"

text \<open>The members of the object a text starts with, with the texts of their values.\<close>

definition object_members :: "string \<Rightarrow> (string \<times> json \<times> string) list" where
  "object_members s =
     (case skip_ws s of
        [] \<Rightarrow> []
      | c # t \<Rightarrow> if c \<noteq> CHR ''{'' then []
                else case parse_members (2 * length s + 1) t of None \<Rightarrow> [] | Some (ms, r) \<Rightarrow> ms)"

subsection \<open>Compact form\<close>

fun html_escape :: "json \<Rightarrow> json" where
  "html_escape (JStr raw) = JStr (html_raw raw)"
| "html_escape (JArr vs) = JArr (map html_escape vs)"
| "html_escape (JObj ms) = JObj (map (\<lambda>(k, v). (html_raw k, html_escape v)) ms)"
| "html_escape v = v"

definition compact :: "string \<Rightarrow> string option" where
  "compact s = map_option (\<lambda>v. print_json (html_escape v)) (decode_all s)"


section \<open>Lemmas on the grammar\<close>

subsection \<open>Numbers\<close>

definition num_stop :: "string \<Rightarrow> bool" where
  "num_stop r \<longleftrightarrow> r = [] \<or> \<not> is_digit (hd r) \<and> hd r \<noteq> CHR ''.'' \<and> hd r \<noteq> CHR ''e'' \<and> hd r \<noteq> CHR ''E''"

definition num_ok :: "string \<Rightarrow> bool" where
  "num_ok tok \<longleftrightarrow> scan_num tok = Some (tok, [])"

lemma digit_neq [simp]:
  "is_digit c \<Longrightarrow> c \<noteq> CHR ''.''" "is_digit c \<Longrightarrow> c \<noteq> CHR ''e''" "is_digit c \<Longrightarrow> c \<noteq> CHR ''E''" "is_digit c \<Longrightarrow> c \<noteq> CHR ''-''"
  "is_digit c \<Longrightarrow> c \<noteq> CHR ''+''"
  by (auto simp: is_digit_def byte_def)

lemma scan_digits_iff:
  "scan_digits s = Some (ds, r) \<longleftrightarrow> s = ds @ r \<and> ds \<noteq> [] \<and> list_all is_digit ds \<and> (r \<noteq> [] \<longrightarrow> \<not> is_digit (hd r))"
proof
  assume "scan_digits s = Some (ds, r)"
  then have "ds = takeWhile is_digit s" "r = dropWhile is_digit s" "ds \<noteq> []"
    by (auto simp: scan_digits_def Let_def split: if_splits)
  then show "s = ds @ r \<and> ds \<noteq> [] \<and> list_all is_digit ds \<and> (r \<noteq> [] \<longrightarrow> \<not> is_digit (hd r))"
    using hd_dropWhile [of is_digit s] by (auto simp: list_all_iff dest: set_takeWhileD)
next
  assume a: "s = ds @ r \<and> ds \<noteq> [] \<and> list_all is_digit ds \<and> (r \<noteq> [] \<longrightarrow> \<not> is_digit (hd r))"
  then have "takeWhile is_digit r = []" "dropWhile is_digit r = r" by (cases r; simp)+
  with a show "scan_digits s = Some (ds, r)"
    by (simp add: scan_digits_def Let_def list_all_iff takeWhile_append dropWhile_append)
qed

lemma scan_intD:
  assumes "scan_int s = Some (i, r)"
  shows "s = i @ r" "i \<noteq> []" "is_digit (hd i)" "r' = [] \<or> \<not> is_digit (hd r') \<Longrightarrow> scan_int (i @ r') = Some (i, r')"
proof -
  from assms obtain c t where s: "s = c # t" by (auto simp: scan_int_def split: list.splits)
  have "is_digit (CHR ''0'')" by (simp add: is_digit_def byte_def)
  with assms s show "s = i @ r" "i \<noteq> []" "is_digit (hd i)"
    by (auto simp: scan_int_def scan_digits_iff neq_Nil_conv split: if_splits)
  show "scan_int (i @ r') = Some (i, r')" if "r' = [] \<or> \<not> is_digit (hd r')"
    using assms s that by (auto simp: scan_int_def scan_digits_iff neq_Nil_conv split: if_splits)
qed

lemma scan_fracD:
  assumes "scan_frac s = Some (f, r)"
  shows "s = f @ r" "f = [] \<or> hd f = CHR ''.''" "num_stop r' \<or> r' \<noteq> [] \<and> \<not> is_digit (hd r') \<and> hd r' \<noteq> CHR ''.'' \<Longrightarrow> scan_frac (f @ r') = Some (f, r')"
  using assms by (auto simp: scan_frac_def scan_digits_iff num_stop_def split: list.splits if_splits)

lemma scan_expD:
  assumes "scan_exp s = Some (e, r)"
  shows "s = e @ r" "e = [] \<or> hd e = CHR ''e'' \<or> hd e = CHR ''E''" "num_stop r' \<Longrightarrow> scan_exp (e @ r') = Some (e, r')"
proof -
  consider "s = []" "e = []" "r = []" | c where "s = c # tl s" "c \<noteq> CHR ''e''" "c \<noteq> CHR ''E''" "e = []" "r = s"
    | c ds where "s = c # ds @ r" "e = c # ds" "c = CHR ''e'' \<or> c = CHR ''E''" "scan_digits (ds @ r) = Some (ds, r)" "ds \<noteq> []" "is_digit (hd ds)"
    | c d ds where "s = c # d # ds @ r" "e = c # d # ds" "c = CHR ''e'' \<or> c = CHR ''E''" "d = CHR ''+'' \<or> d = CHR ''-''" "scan_digits (ds @ r) = Some (ds, r)"
    using assms by (auto simp: scan_exp_def scan_digits_iff neq_Nil_conv split: list.splits if_splits)
  note c = this
  from c show "s = e @ r" by cases auto
  from c show "e = [] \<or> hd e = CHR ''e'' \<or> hd e = CHR ''E''" by cases auto
  assume r': "num_stop r'"
  have dig: "scan_digits (ds @ r') = Some (ds, r')" if "scan_digits (ds @ r) = Some (ds, r)" for ds
    using that r' by (auto simp: scan_digits_iff num_stop_def)
  from c show "scan_exp (e @ r') = Some (e, r')"
  proof cases
    case 3
    then obtain d ds' where "ds = d # ds'" "is_digit d" by (cases ds) auto
    with 3 dig [of ds] show ?thesis by (auto simp: scan_exp_def)
  next
    case 4
    with dig [of ds] show ?thesis by (auto simp: scan_exp_def)
  qed (use r' in \<open>auto simp: scan_exp_def num_stop_def split: list.splits\<close>)
qed

lemma scan_numD:
  assumes "scan_num s = Some (tok, r)"
  shows "s = tok @ r" "tok \<noteq> []" "hd tok = CHR ''-'' \<or> is_digit (hd tok)" "num_stop r' \<Longrightarrow> scan_num (tok @ r') = Some (tok, r')"
proof -
  obtain sg s1 where sg: "scan_sign s = (sg, s1)" by (metis surj_pair)
  from assms sg obtain i s2 f s3 e where i: "scan_int s1 = Some (i, s2)" and f: "scan_frac s2 = Some (f, s3)"
    and e: "scan_exp s3 = Some (e, r)" and tok: "tok = sg @ i @ f @ e"
    by (auto simp: scan_num_def split: option.splits)
  note iD = scan_intD [OF i] and fD = scan_fracD [OF f] and eD = scan_expD [OF e]
  have sgD: "s = sg @ s1" "sg = [] \<or> sg = ''-''" using sg by (auto simp: scan_sign_def split: list.splits if_splits)
  from iD(1) fD(1) eD(1) sgD(1) show "s = tok @ r" by (simp add: tok)
  show "tok \<noteq> []" using iD(2) by (simp add: tok)
  show "hd tok = CHR ''-'' \<or> is_digit (hd tok)" using iD(2,3) sgD(2) by (auto simp: tok)
  assume r': "num_stop r'"
  have e': "scan_exp (e @ r') = Some (e, r')" using eD(3) r' by blast
  have "num_stop (e @ r') \<or> e @ r' \<noteq> [] \<and> \<not> is_digit (hd (e @ r')) \<and> hd (e @ r') \<noteq> CHR ''.''"
    using eD(2) r' by (cases "e = []") (auto simp: is_digit_def byte_def)
  then have f': "scan_frac (f @ e @ r') = Some (f, e @ r')" by (rule fD(3))
  have "f @ e @ r' = [] \<or> \<not> is_digit (hd (f @ e @ r'))"
    using eD(2) fD(2) r' by (cases "f = []"; cases "e = []") (auto simp: is_digit_def byte_def num_stop_def)
  then have i': "scan_int (i @ f @ e @ r') = Some (i, f @ e @ r')" by (rule iD(4))
  have "scan_sign (tok @ r') = (sg, i @ f @ e @ r')"
    using sgD(2) iD(2,3) by (cases i) (auto simp: scan_sign_def tok)
  with i' f' e' show "scan_num (tok @ r') = Some (tok, r')" by (simp add: scan_num_def tok)
qed

lemma scan_num_ok: "scan_num s = Some (tok, r) \<Longrightarrow> num_ok tok"
  using scan_numD(4) [of s tok r "[]"] by (simp add: num_ok_def num_stop_def)

subsection \<open>White space\<close>

lemma skip_ws_idem [simp]: "skip_ws (skip_ws s) = skip_ws s"
  by (simp add: skip_ws_def)

lemma skip_ws_split: "\<exists>w. s = w @ skip_ws s \<and> (\<forall>t. skip_ws (w @ t) = skip_ws t)"
  by (rule exI [of _ "takeWhile is_space s"]) (simp add: skip_ws_def, metis dropWhile_append2 set_takeWhileD)

lemma skip_ws_append [simp]: "skip_ws p \<noteq> [] \<Longrightarrow> skip_ws (p @ r) = skip_ws p @ r"
  by (auto simp: skip_ws_def dropWhile_append)

lemma skip_ws_id: "s = [] \<or> \<not> is_space (hd s) \<Longrightarrow> skip_ws s = s"
  by (cases s) (auto simp: skip_ws_def)

lemma skip_ws_hd: "skip_ws s = c # t \<Longrightarrow> \<not> is_space c"
  using hd_dropWhile [of is_space s] by (auto simp: skip_ws_def)

lemma length_skip_ws: "length (skip_ws s) \<le> length s"
  by (simp add: skip_ws_def length_dropWhile_le)

lemma not_space [simp]:
  "\<not> is_space (CHR ''{'')" "\<not> is_space (CHR ''}'')" "\<not> is_space (CHR ''['')" "\<not> is_space (CHR '']'')"
  "\<not> is_space (CHR '','')" "\<not> is_space (CHR '':'')" "\<not> is_space DQ"
  by (simp_all add: is_space_def)

subsection \<open>What the parser returns\<close>

fun wf_json :: "json \<Rightarrow> bool" where
  "wf_json (JNum tok) = num_ok tok"
| "wf_json (JStr raw) = raw_ok raw"
| "wf_json (JArr vs) = list_all wf_json vs"
| "wf_json (JObj ms) = list_all (\<lambda>(k, v). raw_ok k \<and> wf_json v) ms"
| "wf_json v = True"

text \<open>
  A parsed text is a prefix of the input that parses to the same value before any other rest
  (for a number, before any rest that does not continue it).
\<close>

definition val_spec :: "nat \<Rightarrow> string \<Rightarrow> json \<Rightarrow> string \<Rightarrow> bool" where
  "val_spec n s v r \<longleftrightarrow> wf_json v \<and>
     (\<exists>p. s = p @ r \<and> skip_ws p \<noteq> [] \<and> (\<forall>r'. num_stop r' \<longrightarrow> parse_val n (p @ r') = Some (v, r')))"

definition elems_spec :: "nat \<Rightarrow> string \<Rightarrow> json list \<Rightarrow> string \<Rightarrow> bool" where
  "elems_spec n s vs r \<longleftrightarrow> list_all wf_json vs \<and>
     (\<exists>p. s = p @ r \<and> p \<noteq> [] \<and> (\<forall>r'. parse_elems n (p @ r') = Some (vs, r')))"

definition member_ok :: "string \<times> json \<times> string \<Rightarrow> bool" where
  "member_ok m \<longleftrightarrow> (case m of (k, v, raw) \<Rightarrow>
     raw_ok k \<and> wf_json v \<and> skip_ws raw = raw \<and> raw \<noteq> [] \<and> (\<exists>n. parse_val n raw = Some (v, [])))"

definition members_spec :: "nat \<Rightarrow> string \<Rightarrow> (string \<times> json \<times> string) list \<Rightarrow> string \<Rightarrow> bool" where
  "members_spec n s ms r \<longleftrightarrow> list_all member_ok ms \<and>
     (\<exists>p. s = p @ r \<and> p \<noteq> [] \<and> (\<forall>r'. parse_members n (p @ r') = Some (ms, r')))"

lemma literalD:
  assumes "literal word v s = Some (v', r)"
  shows "v' = v" "s = word @ r" "literal word v (word @ r') = Some (v, r')"
  using assms by (auto simp: literal_def has_prefix_def split: if_splits) (metis append_take_drop_id)

lemma num_start: "hd tok = CHR ''-'' \<or> is_digit (hd tok) \<Longrightarrow> tok \<noteq> [] \<Longrightarrow>
  \<exists>c t. tok = c # t \<and> \<not> is_space c \<and> c \<notin> set ''{[ntf'' \<and> c \<noteq> DQ"
  by (cases tok) (auto simp: is_digit_def is_space_def byte_def)

text \<open>The value at the head of a text, after white space.\<close>

lemma parse_val_skip: "parse_val n (skip_ws s) = parse_val n s"
  by (cases n) simp_all

lemma val_specI:
  assumes "wf_json v" and "skip_ws s = p @ r" and "p \<noteq> []"
    and "\<And>r'. num_stop r' \<Longrightarrow> parse_val n (p @ r') = Some (v, r')"
  shows "val_spec n s v r"
proof -
  obtain w where w: "s = w @ skip_ws s" "\<And>t. skip_ws (w @ t) = skip_ws t" using skip_ws_split by blast
  have "skip_ws p = p" using assms(2,3) skip_ws_hd [of s] by (cases p) (auto simp: skip_ws_id)
  then have "skip_ws (w @ p) \<noteq> []" "s = (w @ p) @ r" using w assms(2,3) by simp_all
  moreover have "parse_val n ((w @ p) @ r') = Some (v, r')" if "num_stop r'" for r'
    using assms(4) [OF that] parse_val_skip [of n "w @ p @ r'"] parse_val_skip [of n "p @ r'"] w(2) by simp
  ultimately show ?thesis unfolding val_spec_def using assms(1) by blast
qed

lemma stop_after [simp]:
  "num_stop (CHR '','' # r)" "num_stop (CHR '']'' # r)" "num_stop (CHR ''}'' # r)" "num_stop []"
  by (simp_all add: num_stop_def is_digit_def byte_def)

lemma num_stop_ws: "w @ c # u = r \<Longrightarrow> \<forall>t. skip_ws (w @ t) = skip_ws t \<Longrightarrow> num_stop (c # u') \<Longrightarrow> num_stop (w @ c # u')"
proof (cases w)
  case (Cons d w')
  assume "\<forall>t. skip_ws (w @ t) = skip_ws t"
  then have "skip_ws w = []" by (metis append_Nil2 dropWhile.simps(1) skip_ws_def)
  with Cons have "is_space d" by (auto simp: skip_ws_def split: if_splits)
  with Cons show ?thesis by (auto simp: num_stop_def is_digit_def is_space_def byte_def)
qed simp

lemma skip_ws_cons:
  assumes "skip_ws s = c # t"
  obtains w where "s = w @ c # t" "\<forall>t'. skip_ws (w @ c # t') = c # t'" "\<forall>u. num_stop (c # u) \<longrightarrow> num_stop (w @ c # u)"
proof -
  obtain w where w: "s = w @ skip_ws s" "\<forall>t. skip_ws (w @ t) = skip_ws t" using skip_ws_split by blast
  have "skip_ws (c # t') = c # t'" for t' using skip_ws_hd [OF assms] by (simp add: skip_ws_id)
  with w assms num_stop_ws [of w c t s] show ?thesis by (intro that [of w]) auto
qed

lemma parse_elems_sound:
  assumes v: "val_spec n s v r" and r: "skip_ws r = c # u"
  shows "c = CHR '']'' \<Longrightarrow> elems_spec (Suc n) s [v] u"
    and "c = CHR '','' \<Longrightarrow> elems_spec n u vs r2 \<Longrightarrow> elems_spec (Suc n) s (v # vs) r2"
proof -
  from v obtain p where p: "wf_json v" "s = p @ r" "skip_ws p \<noteq> []" "\<And>r'. num_stop r' \<Longrightarrow> parse_val n (p @ r') = Some (v, r')"
    by (auto simp: val_spec_def)
  obtain w where w: "r = w @ c # u" "\<forall>t'. skip_ws (w @ c # t') = c # t'" "\<forall>u. num_stop (c # u) \<longrightarrow> num_stop (w @ c # u)"
    using skip_ws_cons [OF r] .
  { assume "c = CHR '']''"
    with p w show "elems_spec (Suc n) s [v] u" unfolding elems_spec_def
      by (auto intro!: exI [of _ "p @ w @ [c]"]) }
  { assume c: "c = CHR '',''" and "elems_spec n u vs r2"
    then obtain p2 where "list_all wf_json vs" "u = p2 @ r2" "\<And>r'. parse_elems n (p2 @ r') = Some (vs, r')"
      by (auto simp: elems_spec_def)
    with p w c show "elems_spec (Suc n) s (v # vs) r2" unfolding elems_spec_def
      by (auto intro!: exI [of _ "p @ w @ c # p2"]) }
qed

lemma parse_members_sound:
  assumes s: "skip_ws s = DQ # t" and k: "scan_str t = Some (k, r1)" and c: "skip_ws r1 = CHR '':'' # r2"
    and v: "val_spec n r2 v r3" and r: "skip_ws r3 = d # u"
    and m: "m = (k, v, take (length (skip_ws r2) - length r3) (skip_ws r2))"
  shows "d = CHR ''}'' \<Longrightarrow> members_spec (Suc n) s [m] u"
    and "d = CHR '','' \<Longrightarrow> members_spec n u ms r4 \<Longrightarrow> members_spec (Suc n) s (m # ms) r4"
proof -
  from v obtain p where p: "wf_json v" "r2 = p @ r3" "skip_ws p \<noteq> []" "\<And>r'. num_stop r' \<Longrightarrow> parse_val n (p @ r') = Some (v, r')"
    by (auto simp: val_spec_def)
  note kD = scan_str_sound [OF k]
  obtain w1 where w1: "s = w1 @ DQ # t" "\<And>t'. skip_ws (w1 @ DQ # t') = DQ # t'" using skip_ws_cons [OF s] by metis
  obtain w2 where w2: "r1 = w2 @ CHR '':'' # r2" "\<And>t'. skip_ws (w2 @ CHR '':'' # t') = CHR '':'' # t'"
    using skip_ws_cons [OF c] by metis
  obtain w where w: "r3 = w @ d # u" "\<forall>t'. skip_ws (w @ d # t') = d # t'" "\<forall>u. num_stop (d # u) \<longrightarrow> num_stop (w @ d # u)"
    using skip_ws_cons [OF r] .
  have raw: "take (length (skip_ws (p @ r')) - length r') (skip_ws (p @ r')) = skip_ws p" for r' using p(3) by simp
  have m': "m = (k, v, skip_ws p)" using m raw p(2) by simp
  have ok: "member_ok m"
    using p(1,3) p(4) [of "[]"] kD parse_val_skip [of n p] by (auto simp: member_ok_def m')
  let ?q = "w1 @ DQ # k @ DQ # w2 @ CHR '':'' # p @ w @ [d]"
  have sq: "s = ?q @ u" using w1(1) kD w2(1) p(2) w(1) by simp
  have str: "scan_str (k @ DQ # x) = Some (k, x)" for x using kD by (simp add: json)
  have run: "parse_members (Suc n) (?q @ r') =
      (if d = CHR '','' then map_option (apfst ((#) m)) (parse_members n r') else if d = CHR ''}'' then Some ([m], r') else None)"
    if "num_stop (d # r')" for r'
    using p(4) [OF w(3) [rule_format, OF that]] by (simp add: w1 w2 w str raw m' p(3) Let_def)
  { assume d: "d = CHR ''}''"
    with run sq ok show "members_spec (Suc n) s [m] u" unfolding members_spec_def
      by (auto intro!: exI [of _ ?q]) }
  { assume d: "d = CHR '',''" and "members_spec n u ms r4"
    then obtain p2 where "list_all member_ok ms" "u = p2 @ r4" "\<And>r'. parse_members n (p2 @ r') = Some (ms, r')"
      by (auto simp: members_spec_def)
    with run [of "p2 @ _"] sq ok d show "members_spec (Suc n) s (m # ms) r4" unfolding members_spec_def
      by (auto intro!: exI [of _ "?q @ p2"]) }
qed

lemma parse_members_start: "parse_members n s = Some x \<Longrightarrow> \<exists>t. skip_ws s = DQ # t"
  by (cases n) (auto split: list.splits if_splits)

lemma parse_elems_start: "parse_elems n s = Some x \<Longrightarrow> \<exists>d u. skip_ws s = d # u \<and> d \<noteq> CHR '']''"
proof -
  assume a: "parse_elems n s = Some x"
  then obtain m v r where "parse_val m s = Some (v, r)" by (cases n) (auto split: option.splits)
  then obtain k d u where k: "skip_ws s = d # u" "parse_val (Suc k) s = Some (v, r)"
    by (cases m) (auto split: list.splits)
  have "scan_num (CHR '']'' # u) = None"
    by (simp add: scan_num_def scan_sign_def scan_int_def scan_digits_def is_digit_def byte_def)
  with k show ?thesis by (cases "d = CHR '']''") auto
qed

lemma parse_object_sound:
  assumes s: "skip_ws s = CHR ''{'' # t"
  shows "skip_ws t = CHR ''}'' # u \<Longrightarrow> val_spec (Suc n) s (JObj []) u"
    and "members_spec n t ms r \<Longrightarrow> val_spec (Suc n) s (JObj (map (\<lambda>(k, v, raw). (k, v)) ms)) r"
proof -
  { assume "skip_ws t = CHR ''}'' # u"
    then obtain w where "t = w @ CHR ''}'' # u" "\<forall>t'. skip_ws (w @ CHR ''}'' # t') = CHR ''}'' # t'"
      by (rule skip_ws_cons)
    with s show "val_spec (Suc n) s (JObj []) u"
      by (intro val_specI [of _ _ "CHR ''{'' # w @ ''}''"]) (auto simp: skip_ws_id) }
  { assume "members_spec n t ms r"
    then obtain p where p: "list_all member_ok ms" "t = p @ r" "\<forall>r'. parse_members n (p @ r') = Some (ms, r')"
      by (auto simp: members_spec_def)
    have start: "\<exists>t'. skip_ws (p @ r') = DQ # t'" for r' using p(3) parse_members_start by blast
    have run: "parse_val (Suc n) ((CHR ''{'' # p) @ r') = Some (JObj (map (\<lambda>(k, v, raw). (k, v)) ms), r')" for r'
      using start [of r'] p(3) by (auto simp: skip_ws_id)
    have "wf_json (JObj (map (\<lambda>(k, v, raw). (k, v)) ms))" using p(1)
      by (auto simp: list_all_iff member_ok_def split: prod.splits)
    with run s p(2) show "val_spec (Suc n) s (JObj (map (\<lambda>(k, v, raw). (k, v)) ms)) r"
      by (intro val_specI [of _ _ "CHR ''{'' # p"]) (simp_all del: parse_val.simps) }
qed

lemma parse_array_sound:
  assumes s: "skip_ws s = CHR ''['' # t"
  shows "skip_ws t = CHR '']'' # u \<Longrightarrow> val_spec (Suc n) s (JArr []) u"
    and "elems_spec n t vs r \<Longrightarrow> val_spec (Suc n) s (JArr vs) r"
proof -
  { assume "skip_ws t = CHR '']'' # u"
    then obtain w where "t = w @ CHR '']'' # u" "\<forall>t'. skip_ws (w @ CHR '']'' # t') = CHR '']'' # t'"
      by (rule skip_ws_cons)
    with s show "val_spec (Suc n) s (JArr []) u"
      by (intro val_specI [of _ _ "CHR ''['' # w @ '']''"]) (auto simp: skip_ws_id) }
  { assume "elems_spec n t vs r"
    then obtain p where p: "list_all wf_json vs" "t = p @ r" "\<forall>r'. parse_elems n (p @ r') = Some (vs, r')"
      by (auto simp: elems_spec_def)
    have start: "\<exists>d u. skip_ws (p @ r') = d # u \<and> d \<noteq> CHR '']''" for r' using p(3) parse_elems_start by blast
    have run: "parse_val (Suc n) ((CHR ''['' # p) @ r') = Some (JArr vs, r')" for r'
      using start [of r'] p(3) by (auto simp: skip_ws_id)
    with s p show "val_spec (Suc n) s (JArr vs) r"
      by (intro val_specI [of _ _ "CHR ''['' # p"]) (simp_all del: parse_val.simps) }
qed

lemma parse_scalar_sound:
  assumes s: "skip_ws s = c # t" and c: "c \<noteq> CHR ''{''" "c \<noteq> CHR ''[''" and p: "parse_val (Suc n) s = Some (v, r)"
  shows "val_spec (Suc n) s v r"
proof -
  consider "c = DQ" | "c \<in> set ''ntf''" | "c \<noteq> DQ" "c \<notin> set ''ntf''" by blast
  then show ?thesis
  proof cases
    case 1
    with s p obtain raw where "scan_str t = Some (raw, r)" "v = JStr raw" by auto
    with scan_str_sound [of t raw r] scan_str_complete [of raw] s 1 show ?thesis
      by (intro val_specI [of _ _ "DQ # raw @ [DQ]"]) (auto simp: skip_ws_id)
  next
    case 2
    have lit: ?thesis if h: "c = hd word" "\<not> is_space (hd word)" "word \<noteq> []" "wf_json v0"
      "\<And>x t. parse_val (Suc n) (word @ x) = literal word v0 (word @ x)" "literal word v0 (c # t) = Some (v, r)" for word v0
      using literalD [OF h(6)] h(1-5) s by (intro val_specI [of _ _ word]) auto
    from 2 consider "c = CHR ''n''" | "c = CHR ''t''" | "c = CHR ''f''" by auto
    then show ?thesis
    proof cases
      case 1
      with s p show ?thesis by (intro lit [of "''null''" JNull]) (auto simp: skip_ws_id is_space_def)
    next
      case 2
      with s p show ?thesis by (intro lit [of "''true''" "JBool True"]) (auto simp: skip_ws_id is_space_def)
    next
      case 3
      with s p show ?thesis by (intro lit [of "''false''" "JBool False"]) (auto simp: skip_ws_id is_space_def)
    qed
  next
    case 3
    with s p c obtain tok where tok: "scan_num (c # t) = Some (tok, r)" "v = JNum tok" by auto
    note D = scan_numD [OF tok(1)]
    obtain d u where d: "tok = d # u" "\<not> is_space d" "d \<notin> set ''{[ntf''" "d \<noteq> DQ" using num_start [OF D(3,2)] by blast
    have "parse_val (Suc n) (tok @ r') = Some (v, r')" if "num_stop r'" for r'
      using D(4) [OF that] d tok(2) by (auto simp: skip_ws_id)
    with D(1,2) s tok scan_num_ok [OF tok(1)] show ?thesis
      by (intro val_specI [of _ _ tok]) (auto simp del: parse_val.simps)
  qed
qed

text \<open>One step of each of the three parsers.\<close>

lemma parse_val_step:
  assumes elems: "\<And>s vs r. parse_elems n s = Some (vs, r) \<Longrightarrow> elems_spec n s vs r"
    and members: "\<And>s ms r. parse_members n s = Some (ms, r) \<Longrightarrow> members_spec n s ms r"
    and h: "parse_val (Suc n) s = Some (v, r)"
  shows "val_spec (Suc n) s v r"
proof -
  from h obtain c t where s: "skip_ws s = c # t" by (auto split: list.splits)
  consider (obj) "c = CHR ''{''" | (arr) "c = CHR ''[''" | (scalar) "c \<noteq> CHR ''{''" "c \<noteq> CHR ''[''" by blast
  then show ?thesis
  proof cases
    case obj
    with h s obtain d u where t: "skip_ws t = d # u" by (auto split: list.splits if_splits)
    note O = parse_object_sound [OF s [unfolded obj]]
    show ?thesis
    proof (cases "d = CHR ''}''")
      case False
      with obj h s t obtain ms where "parse_members n t = Some (ms, r)" "v = JObj (map (\<lambda>(k, v, raw). (k, v)) ms)" by auto
      with O(2) members show ?thesis by blast
    qed (use obj h s t O(1) in auto)
  next
    case arr
    with h s obtain d u where t: "skip_ws t = d # u" by (auto split: list.splits if_splits)
    note A = parse_array_sound [OF s [unfolded arr]]
    show ?thesis
    proof (cases "d = CHR '']''")
      case False
      with arr h s t obtain vs where "parse_elems n t = Some (vs, r)" "v = JArr vs" by auto
      with A(2) elems show ?thesis by blast
    qed (use arr h s t A(1) in auto)
  next
    case scalar
    with parse_scalar_sound [OF s _ _ h] show ?thesis by blast
  qed
qed

lemma parse_elems_step:
  assumes val: "\<And>s v r. parse_val n s = Some (v, r) \<Longrightarrow> val_spec n s v r"
    and elems: "\<And>s vs r. parse_elems n s = Some (vs, r) \<Longrightarrow> elems_spec n s vs r"
    and h: "parse_elems (Suc n) s = Some (vs, r)"
  shows "elems_spec (Suc n) s vs r"
proof -
  from h obtain v r1 c u where v: "parse_val n s = Some (v, r1)" and c: "skip_ws r1 = c # u"
    by (auto split: option.splits list.splits)
  note E = parse_elems_sound [OF val [OF v] c]
  show ?thesis
  proof (cases "c = CHR '',''")
    case True
    with h v c obtain vs' where "parse_elems n u = Some (vs', r)" "vs = v # vs'" by auto
    with E(2) [OF True] elems show ?thesis by blast
  next
    case False
    with h v c have "c = CHR '']''" "vs = [v]" "r = u" by (auto split: if_splits)
    with E(1) show ?thesis by blast
  qed
qed

lemma parse_members_step:
  assumes val: "\<And>s v r. parse_val n s = Some (v, r) \<Longrightarrow> val_spec n s v r"
    and members: "\<And>s ms r. parse_members n s = Some (ms, r) \<Longrightarrow> members_spec n s ms r"
    and h: "parse_members (Suc n) s = Some (ms, r)"
  shows "members_spec (Suc n) s ms r"
proof -
  from h obtain t where s: "skip_ws s = DQ # t" using parse_members_start by blast
  with h obtain k r1 where k: "scan_str t = Some (k, r1)" by (auto split: option.splits)
  with h s obtain r2 where c: "skip_ws r1 = CHR '':'' # r2" by (auto split: list.splits if_splits)
  with h s k obtain v r3 d u where v: "parse_val n r2 = Some (v, r3)" and d: "skip_ws r3 = d # u"
    by (auto simp: Let_def split: option.splits list.splits)
  note M = parse_members_sound [OF s k c val [OF v] d refl]
  show ?thesis
  proof (cases "d = CHR '',''")
    case True
    with h s k c v d obtain ms' where "parse_members n u = Some (ms', r)"
      "ms = (k, v, take (length (skip_ws r2) - length r3) (skip_ws r2)) # ms'" by auto
    with M(2) [OF True] members show ?thesis by blast
  next
    case False
    with h s k c v d have "d = CHR ''}''" "ms = [(k, v, take (length (skip_ws r2) - length r3) (skip_ws r2))]" "r = u"
      by (auto split: if_splits)
    with M(1) show ?thesis by blast
  qed
qed

lemma parse_sound [json]:
  "(parse_val n s = Some (v, r) \<longrightarrow> val_spec n s v r) \<and>
   (parse_elems n s = Some (vs, r) \<longrightarrow> elems_spec n s vs r) \<and>
   (parse_members n s = Some (ms, r) \<longrightarrow> members_spec n s ms r)"
proof (induction n arbitrary: s v vs ms r)
  case (Suc n)
  note IH = Suc [THEN conjunct1, rule_format] Suc [THEN conjunct2, THEN conjunct1, rule_format]
    Suc [THEN conjunct2, THEN conjunct2, rule_format]
  show ?case
    by (intro conjI impI parse_val_step [OF IH(2,3)] parse_elems_step [OF IH(1,2)] parse_members_step [OF IH(1,3)])
qed simp

lemma parse_val_sound: "parse_val n s = Some (v, r) \<Longrightarrow> val_spec n s v r"
  and parse_elems_sound': "parse_elems n s = Some (vs, r) \<Longrightarrow> elems_spec n s vs r"
  and parse_members_sound': "parse_members n s = Some (ms, r) \<Longrightarrow> members_spec n s ms r"
  using parse_sound by blast+

lemma parse_val_shorter: "parse_val n s = Some (v, r) \<Longrightarrow> length r < length s"
  using parse_val_sound [of n s v r] by (auto simp: val_spec_def skip_ws_def)

text \<open>Fuel: a parse that succeeds with some fuel succeeds with every fuel above twice the length.\<close>

lemma parse_enough:
  "(parse_val n s = Some (v, r) \<longrightarrow> 2 * length s + 1 \<le> m \<longrightarrow> parse_val m s = Some (v, r)) \<and>
   (parse_elems n s = Some (vs, r) \<longrightarrow> 2 * length s + 2 \<le> m \<longrightarrow> parse_elems m s = Some (vs, r)) \<and>
   (parse_members n s = Some (ms, r) \<longrightarrow> 2 * length s + 2 \<le> m \<longrightarrow> parse_members m s = Some (ms, r))"
proof (induction n arbitrary: s v vs ms r m)
  case (Suc n)
  note IH = Suc [THEN conjunct1, rule_format] Suc [THEN conjunct2, THEN conjunct1, rule_format]
    Suc [THEN conjunct2, THEN conjunct2, rule_format]
  have "parse_val m s = Some (v, r)" if h: "parse_val (Suc n) s = Some (v, r)" "2 * length s + 1 \<le> m"
  proof -
    from h obtain m' where m: "m = Suc m'" by (cases m) auto
    from h(1) obtain c t where s: "skip_ws s = c # t" by (auto split: list.splits)
    with length_skip_ws [of s] h(2) m have "2 * length t + 2 \<le> m'" by simp
    with h(1) s IH(2) [of t _ r m'] IH(3) [of t _ r m'] show ?thesis
      unfolding m by (auto split: list.splits if_splits)
  qed
  moreover have "parse_elems m s = Some (vs, r)" if h: "parse_elems (Suc n) s = Some (vs, r)" "2 * length s + 2 \<le> m"
  proof -
    from h obtain m' where m: "m = Suc m'" by (cases m) auto
    from h(1) obtain v r1 c u where v: "parse_val n s = Some (v, r1)" and c: "skip_ws r1 = c # u"
      by (auto split: option.splits list.splits)
    have "length u < length s" using length_skip_ws [of r1] parse_val_shorter [OF v] c by simp
    then have "parse_val m' s = Some (v, r1)" "2 * length u + 2 \<le> m'" using IH(1) [OF v] h(2) m by simp_all
    with h(1) v c IH(2) [of u _ r m'] show ?thesis unfolding m by (auto split: if_splits)
  qed
  moreover have "parse_members m s = Some (ms, r)" if h: "parse_members (Suc n) s = Some (ms, r)" "2 * length s + 2 \<le> m"
  proof -
    from h obtain m' where m: "m = Suc m'" by (cases m) auto
    from h(1) obtain t where s: "skip_ws s = DQ # t" using parse_members_start by blast
    with h(1) obtain k r1 where k: "scan_str t = Some (k, r1)" by (auto split: option.splits)
    with h(1) s obtain r2 where c: "skip_ws r1 = CHR '':'' # r2" by (auto split: list.splits if_splits)
    with h(1) s k obtain v r3 d u where v: "parse_val n r2 = Some (v, r3)" and d: "skip_ws r3 = d # u"
      by (auto simp: Let_def split: option.splits list.splits)
    have "length r2 < length s" "length u < length r2"
      using length_skip_ws [of s] length_skip_ws [of r1] length_skip_ws [of r3] scan_str_sound [OF k] parse_val_shorter [OF v] s c d
      by simp_all
    then have "parse_val m' r2 = Some (v, r3)" "2 * length u + 2 \<le> m'" using IH(1) [OF v] h(2) m by simp_all
    with h(1) s k c v d IH(3) [of u _ r m'] show ?thesis unfolding m by (auto simp: Let_def split: if_splits)
  qed
  ultimately show ?case by blast
qed simp

lemma parse_val_enough: "parse_val n s = Some (v, r) \<Longrightarrow> 2 * length s + 1 \<le> m \<Longrightarrow> parse_val m s = Some (v, r)"
  using parse_enough by blast

lemma parse_val_fuel: "parse_val n s = Some (v, r) \<Longrightarrow> parse_val (2 * length s + 2) s = Some (v, r)"
  by (rule parse_val_enough) simp_all

lemma parse_members_fuel: "parse_members n s = Some (ms, r) \<Longrightarrow> 2 * length s + 2 \<le> m \<Longrightarrow> parse_members m s = Some (ms, r)"
  using parse_enough by blast

subsection \<open>Printing and parsing\<close>

lemma print_head: "wf_json v \<Longrightarrow> print_json v \<noteq> [] \<and> \<not> is_space (hd (print_json v))"
proof (cases v)
  case (JNum tok)
  assume "wf_json v"
  with JNum have "scan_num tok = Some (tok, [])" by (simp add: num_ok_def)
  from num_start [OF scan_numD(3,2) [OF this]] show ?thesis using JNum by auto
qed (auto simp: is_space_def)

lemma skip_ws_print: "wf_json v \<Longrightarrow> skip_ws (print_json v @ r) = print_json v @ r"
  using print_head [of v] by (simp add: skip_ws_id)

definition reads_back :: "json \<Rightarrow> bool" where
  "reads_back v \<longleftrightarrow> (\<forall>m r. num_stop r \<longrightarrow> 2 * length (print_json v @ r) + 1 \<le> m \<longrightarrow>
     parse_val m (print_json v @ r) = Some (v, r))"

lemma elems_read_back:
  assumes "\<forall>v \<in> set vs. reads_back v" and "vs \<noteq> []"
    and "2 * length (join_comma (map print_json vs) @ CHR '']'' # r) + 2 \<le> m"
  shows "parse_elems m (join_comma (map print_json vs) @ CHR '']'' # r) = Some (vs, r)"
  using assms
proof (induction vs arbitrary: m)
  case (Cons v vs)
  from Cons.prems(3) obtain m' where m: "m = Suc m'" by (cases m) auto
  show ?case
  proof (cases vs)
    case Nil
    have "parse_val m' (print_json v @ CHR '']'' # r) = Some (v, CHR '']'' # r)"
      using Cons.prems m Nil by (auto simp: reads_back_def)
    with m Nil show ?thesis by (simp add: skip_ws_id)
  next
    case (Cons v' vs')
    let ?t = "join_comma (map print_json vs) @ CHR '']'' # r"
    have eq: "join_comma (map print_json (v # vs)) @ CHR '']'' # r = print_json v @ CHR '','' # ?t" using Cons by simp
    have "parse_val m' (print_json v @ CHR '','' # ?t) = Some (v, CHR '','' # ?t)"
      using Cons.prems m unfolding eq by (auto simp: reads_back_def)
    moreover have "parse_elems m' ?t = Some (vs, r)"
      using Cons.prems m Cons unfolding eq by (intro Cons.IH) auto
    ultimately show ?thesis unfolding eq m by (simp add: skip_ws_id)
  qed
qed simp

definition print_member :: "string \<times> json \<Rightarrow> string" where
  "print_member m = (case m of (k, v) \<Rightarrow> (DQ # k @ [DQ]) @ CHR '':'' # print_json v)"

lemma members_read_back:
  assumes "\<forall>(k, v) \<in> set ms. raw_ok k \<and> wf_json v \<and> reads_back v" and "ms \<noteq> []"
    and "2 * length (join_comma (map print_member ms) @ CHR ''}'' # r) + 2 \<le> m"
  shows "parse_members m (join_comma (map print_member ms) @ CHR ''}'' # r) =
    Some (map (\<lambda>(k, v). (k, v, print_json v)) ms, r)"
  using assms
proof (induction ms arbitrary: m)
  case (Cons kv ms)
  obtain k v where kv: "kv = (k, v)" by (cases kv)
  with Cons.prems have ok: "raw_ok k" "wf_json v" "reads_back v" by auto
  from Cons.prems(3) obtain m' where m: "m = Suc m'" by (cases m) auto
  define d t where "d = (if ms = [] then CHR ''}'' else CHR '','')"
    and "t = (if ms = [] then r else join_comma (map print_member ms) @ CHR ''}'' # r)"
  have eq: "join_comma (map print_member (kv # ms)) @ CHR ''}'' # r = DQ # k @ DQ # CHR '':'' # print_json v @ d # t"
    by (cases ms) (simp_all add: kv d_def t_def print_member_def)
  have d: "num_stop (d # t)" "skip_ws (d # t) = d # t" by (auto simp: d_def skip_ws_id)
  have "parse_val m' (print_json v @ d # t) = Some (v, d # t)"
    using ok(3) d(1) Cons.prems(3) unfolding eq m by (auto simp: reads_back_def)
  then have run: "parse_members m (DQ # k @ DQ # CHR '':'' # print_json v @ d # t) =
      (if d = CHR '','' then map_option (apfst ((#) (k, v, print_json v))) (parse_members m' t)
       else if d = CHR ''}'' then Some ([(k, v, print_json v)], t) else None)"
    using skip_ws_print [OF ok(2), of "d # t"] d scan_str_complete [OF ok(1)] by (simp add: m skip_ws_id)
  show ?case
  proof (cases "ms = []")
    case True
    with run show ?thesis unfolding eq by (simp add: d_def t_def kv)
  next
    case False
    have "parse_members m' t = Some (map (\<lambda>(k, v). (k, v, print_json v)) ms, r)"
      using Cons.prems False m unfolding eq by (simp add: t_def) (rule Cons.IH; auto simp: t_def)
    with run False show ?thesis unfolding eq by (simp add: d_def kv)
  qed
qed simp

declare parse_val.simps [simp del] parse_elems.simps [simp del] parse_members.simps [simp del]

lemmas parse_simps = parse_val.simps parse_elems.simps parse_members.simps

lemma print_json_obj: "print_json (JObj ms) = CHR ''{'' # join_comma (map print_member ms) @ ''}''"
proof -
  have "(\<lambda>(k, v). (DQ # k @ [DQ]) @ CHR '':'' # print_json v) = print_member" by (auto simp: print_member_def)
  then show ?thesis by simp
qed

lemma num_reads_back: "num_ok tok \<Longrightarrow> reads_back (JNum tok)"
proof -
  assume "num_ok tok"
  then have n: "scan_num tok = Some (tok, [])" by (simp add: num_ok_def)
  obtain d u where d: "tok = d # u" "\<not> is_space d" "d \<notin> set ''{[ntf''" "d \<noteq> DQ"
    using num_start [OF scan_numD(3,2) [OF n]] by blast
  have "parse_val (Suc m) (tok @ r) = Some (JNum tok, r)" if "num_stop r" for m r
    using scan_numD(4) [OF n that] d by (auto simp: parse_simps skip_ws_id)
  then show ?thesis by (auto simp: reads_back_def dest!: Suc_le_D)
qed

lemma object_reads_back:
  assumes "\<forall>(k, v) \<in> set ms. raw_ok k \<and> wf_json v \<and> reads_back v"
  shows "reads_back (JObj ms)"
  unfolding reads_back_def
proof (intro allI impI)
  fix m r assume m: "2 * length (print_json (JObj ms) @ r) + 1 \<le> m"
  then obtain m' where m': "m = Suc m'" by (cases m) auto
  have comp: "map ((\<lambda>(k, v, raw). (k, v)) \<circ> (\<lambda>(k, v). (k, v, print_json v))) ms = ms"
    by (rule map_idI) auto
  show "parse_val m (print_json (JObj ms) @ r) = Some (JObj ms, r)"
  proof (cases "ms = []")
    case False
    have p: "parse_members m' (join_comma (map print_member ms) @ CHR ''}'' # r) = Some (map (\<lambda>(k, v). (k, v, print_json v)) ms, r)"
      using m unfolding m' print_json_obj by (intro members_read_back [OF assms False]) simp
    from parse_members_start [OF p] p comp show ?thesis
      unfolding print_json_obj m' by (auto simp: parse_simps skip_ws_id)
  qed (simp add: m' parse_simps skip_ws_id)
qed

lemma array_reads_back:
  assumes "\<forall>v \<in> set vs. reads_back v"
  shows "reads_back (JArr vs)"
  unfolding reads_back_def
proof (intro allI impI)
  fix m r assume m: "2 * length (print_json (JArr vs) @ r) + 1 \<le> m"
  then obtain m' where m': "m = Suc m'" by (cases m) auto
  show "parse_val m (print_json (JArr vs) @ r) = Some (JArr vs, r)"
  proof (cases "vs = []")
    case False
    have p: "parse_elems m' (join_comma (map print_json vs) @ CHR '']'' # r) = Some (vs, r)"
      using m unfolding m' by (intro elems_read_back [OF assms False]) simp
    from parse_elems_start [OF p] p show ?thesis unfolding m' by (auto simp: parse_simps skip_ws_id)
  qed (simp add: m' parse_simps skip_ws_id)
qed

lemma literal_reads_back: "reads_back JNull" "reads_back (JBool b)"
proof -
  have lit: "parse_val m (word @ r) = Some (v, r)"
    if "0 < m" "(word, v) \<in> {(''null'', JNull), (''true'', JBool True), (''false'', JBool False)}" for m r word v
    using that by (cases m) (auto simp: parse_simps literal_def skip_ws_id is_space_def has_prefix_def)
  show "reads_back JNull" "reads_back (JBool b)"
    using lit [of _ "''null''" JNull] lit [of _ "''true''" "JBool True"] lit [of _ "''false''" "JBool False"]
    by (simp_all add: reads_back_def)
qed

lemma print_reads_back: "wf_json v \<Longrightarrow> reads_back v"
proof (induction v)
  case (JStr raw)
  then show ?case
    by (auto simp: reads_back_def parse_simps skip_ws_id scan_str_complete dest!: Suc_le_D)
next
  case (JArr vs)
  then show ?case by (intro array_reads_back) (auto simp: list_all_iff)
next
  case (JObj ms)
  then show ?case by (intro object_reads_back) (fastforce simp: list_all_iff)
qed (simp_all add: num_reads_back literal_reads_back)

text \<open>The decoder reads back what the printer wrote; an object's members come with their texts.\<close>

lemma decode_all_print: "wf_json v \<Longrightarrow> depth v \<le> 10000 \<Longrightarrow> decode_all (print_json v) = Some v"
proof -
  assume "wf_json v" "depth v \<le> 10000"
  moreover from print_reads_back [OF this(1)] have "parse_val (2 * length (print_json v) + 2) (print_json v) = Some (v, [])"
    unfolding reads_back_def by (metis append_Nil2 num_stop_def add_le_cancel_left one_le_numeral)
  ultimately show ?thesis by (simp add: decode_all_def parse_doc_def skip_ws_def)
qed

lemma object_members_print:
  assumes "wf_json (JObj ms)"
  shows "object_members (print_json (JObj ms)) = map (\<lambda>(k, v). (k, v, print_json v)) ms"
proof (cases "ms = []")
  case False
  have "parse_members (2 * length (print_json (JObj ms)) + 1) (join_comma (map print_member ms) @ CHR ''}'' # []) =
      Some (map (\<lambda>(k, v). (k, v, print_json v)) ms, [])"
    using assms print_reads_back unfolding print_json_obj
    by (intro members_read_back [OF _ False]) (auto simp: list_all_iff)
  then show ?thesis unfolding object_members_def print_json_obj by (simp add: skip_ws_id)
qed (simp add: object_members_def skip_ws_id parse_simps eval_nat_numeral)

lemma decode_all_wf: "decode_all s = Some v \<Longrightarrow> wf_json v \<and> depth v \<le> 10000"
  using parse_val_sound [of "2 * length s + 2" s]
  by (auto simp: decode_all_def parse_doc_def val_spec_def split: option.splits if_splits)

lemma object_members_ok: "m \<in> set (object_members s) \<Longrightarrow> member_ok m"
proof -
  assume "m \<in> set (object_members s)"
  then obtain t ms r where "parse_members (2 * length s + 1) t = Some (ms, r)" "m \<in> set ms"
    by (cases "skip_ws s"; cases "parse_members (2 * length s + 1) (tl (skip_ws s))")
      (auto simp: object_members_def split: if_splits)
  with parse_members_sound' show ?thesis by (fastforce simp: members_spec_def list_all_iff)
qed

subsection \<open>Integers\<close>

fun digits_val :: "int \<Rightarrow> string \<Rightarrow> int" where
  "digits_val acc [] = acc"
| "digits_val acc (c # s) = digits_val (10 * acc + int (byte c - 48)) s"

lemma digits_val_append: "digits_val acc (s @ t) = digits_val (digits_val acc s) t"
  by (induction s arbitrary: acc) auto

lemma byte_digit_char [simp]: "d < 10 \<Longrightarrow> byte (digit_char d) = 48 + d"
  by (simp add: digit_char_def)

lemma show_nat_digits: "list_all is_digit (show_nat n) \<and> show_nat n \<noteq> [] \<and> digits_val 0 (show_nat n) = int n"
proof (induction n rule: show_nat.induct)
  case (1 n)
  show ?case
  proof (cases "n < 10")
    case True
    then show ?thesis by (simp add: show_nat.simps [of n] is_digit_def)
  next
    case False
    have "n mod 10 \<le> 9" "10 * int (n div 10) + int (n mod 10) = int n" by presburger+
    with 1 False show ?thesis by (simp add: show_nat.simps [of n] is_digit_def digits_val_append)
  qed
qed

lemma show_nat_zero: "hd (show_nat n) = CHR ''0'' \<Longrightarrow> n = 0"
proof (induction n rule: show_nat.induct)
  case (1 n)
  have z: "digit_char d = CHR ''0'' \<longleftrightarrow> d = 0" if "d < 10" for d
    using byte_inject [of "digit_char d" "CHR ''0''"] that by (simp add: byte_def [of "CHR ''0''"])
  show ?case
  proof (cases "n < 10")
    case True
    with "1.prems" z [of n] show ?thesis by (simp add: show_nat.simps [of n])
  next
    case False
    then have "hd (show_nat (n div 10)) = CHR ''0''"
      using "1.prems" show_nat_digits [of "n div 10"] by (simp add: show_nat.simps [of n])
    with 1 False show ?thesis by simp
  qed
qed

lemma show_nat_0 [simp]: "show_nat 0 = ''0''"
  by (simp add: show_nat.simps digit_char_def char_of_eq_iff)

lemma scan_int_show: "scan_int (show_nat n) = Some (show_nat n, [])"
proof (cases "n = 0")
  case False
  with show_nat_zero [of n] show_nat_digits [of n] show ?thesis
    by (cases "show_nat n") (auto simp: scan_int_def scan_digits_iff)
qed (simp add: scan_int_def)

lemma scan_sign_show [simp]: "scan_sign (show_nat n) = ([], show_nat n)" "scan_sign (CHR ''-'' # s) = (''-'', s)"
  using show_nat_digits [of n] by (cases "show_nat n") (auto simp: scan_sign_def)

lemma num_ok_show_int [json]: "num_ok (show_int i)"
  by (simp add: num_ok_def show_int_def scan_num_def scan_int_show scan_frac_def scan_exp_def)

text \<open>\<^verbatim>\<open>strconv.ParseInt(s, 10, 64)\<close> on a number token: no fraction, no exponent, in range.\<close>

definition parse_int64 :: "string \<Rightarrow> int option" where
  "parse_int64 tok =
     (case scan_sign tok of (sg, ds) \<Rightarrow>
        if ds = [] \<or> \<not> list_all is_digit ds then None
        else let n = digits_val 0 ds; i = (if sg = [] then n else - n) in
          if in_i64 i then Some i else None)"

lemma parse_int64_show: "in_i64 i \<Longrightarrow> parse_int64 (show_int i) = Some i"
  using show_nat_digits by (cases "i < 0") (auto simp: parse_int64_def show_int_def)

lemma wf_json_int [simp]: "wf_json (json_int i)"
  by (simp add: json_int_def num_ok_show_int)

lemma wf_json_string [simp]: "wf_json (json_string s)"
  by (simp add: json_string_def raw_ok_quote)

lemma depth_scalar [simp]: "depth (json_int i) = 0" "depth (json_string s) = 0"
  by (simp_all add: json_int_def json_string_def)

subsection \<open>Compact form\<close>

text \<open>What a text means: string tokens stand for the bytes they unquote to.\<close>

fun meaning :: "json \<Rightarrow> json" where
  "meaning (JStr raw) = JStr (unquote raw)"
| "meaning (JArr vs) = JArr (map meaning vs)"
| "meaning (JObj ms) = JObj (map (\<lambda>(k, v). (unquote k, meaning v)) ms)"
| "meaning v = v"

lemma html_escape_sound: "wf_json v \<Longrightarrow> wf_json (html_escape v) \<and> meaning (html_escape v) = meaning v \<and> depth (html_escape v) = depth v"
proof (induction v)
  case (JArr vs)
  then have "\<forall>v \<in> set vs. wf_json (html_escape v) \<and> meaning (html_escape v) = meaning v \<and> depth (html_escape v) = depth v"
    by (auto simp: list_all_iff)
  moreover from this have "foldr (\<lambda>v d. max (depth v) d) (map html_escape vs) 0 = foldr (\<lambda>v d. max (depth v) d) vs 0"
    by (induction vs) auto
  ultimately show ?case by (auto simp: list_all_iff)
next
  case (JObj ms)
  then have m: "\<forall>(k, v) \<in> set ms. raw_ok k \<and> wf_json (html_escape v) \<and> meaning (html_escape v) = meaning v \<and> depth (html_escape v) = depth v"
    by (fastforce simp: list_all_iff)
  moreover from this have "foldr (\<lambda>(k, v) d. max (depth v) d) (map (\<lambda>(k, v). (html_raw k, html_escape v)) ms) 0 =
      foldr (\<lambda>(k, v) d. max (depth v) d) ms 0"
    by (induction ms) auto
  ultimately show ?case using html_raw_sound by (fastforce simp: list_all_iff)
qed (auto simp: html_raw_sound)

lemma compact_sound:
  assumes "compact s = Some c"
  shows "\<exists>v. decode_all s = Some v \<and> decode_all c = Some (html_escape v) \<and> meaning (html_escape v) = meaning v \<and>
    c = print_json (html_escape v) \<and> wf_json (html_escape v) \<and> depth (html_escape v) \<le> 10000"
proof -
  from assms obtain v where v: "decode_all s = Some v" "c = print_json (html_escape v)" by (auto simp: compact_def)
  with html_escape_sound [of v] decode_all_wf [OF v(1)] decode_all_print [of "html_escape v"] show ?thesis by auto
qed

end
