(* ===== verification/Go_Float.thy ===== *)
theory Go_Float
  imports Go_Json
begin

text \<open>
  Go's \<^verbatim>\<open>float64\<close> as far as the sources compute with it: non-negative finite numbers, each a
  fraction \<open>m / 2 ^ k\<close> written as the pair \<open>(m, k)\<close>. \<open>fl_round p q\<close> is the number nearest to
  \<open>p / q\<close> with 53 significant bits (fewer below \<open>2 ^ -1022\<close>), ties to even; products and quotients
  are rounded once. \<open>show_float\<close> is the shortest decimal that is read back as the same number, in
  the form \<^verbatim>\<open>encoding/json\<close> writes it, and \<open>parse_float\<close> reads a number token.

  Shown: integers up to \<open>2 ^ 53\<close> are exact, rounding does not cross an integer of that range, and
  what is written is a number token.
\<close>

section \<open>Definitions\<close>

type_synonym float64 = "nat \<times> nat"

text \<open>The largest \<open>j\<close> with \<open>q * b ^ j \<le> p\<close>, and the least \<open>j\<close> with \<open>q \<le> p * b ^ j\<close>.\<close>

function pos_exp :: "nat \<Rightarrow> nat \<Rightarrow> nat \<Rightarrow> nat" where
  "pos_exp b p q = (if b < 2 \<or> q = 0 \<or> p < b * q then 0 else Suc (pos_exp b p (b * q)))"
  by pat_completeness auto
termination
proof (relation "measure (\<lambda>(b, p, q). p - q)")
  fix b p q :: nat
  assume "\<not> (b < 2 \<or> q = 0 \<or> p < b * q)"
  then have "2 * q \<le> b * q" "0 < q" "b * q \<le> p" by auto
  then have "p - b * q < p - q" by linarith
  then show "((b, p, b * q), b, p, q) \<in> measure (\<lambda>(b, p, q). p - q)" by simp
qed simp

function neg_exp :: "nat \<Rightarrow> nat \<Rightarrow> nat \<Rightarrow> nat" where
  "neg_exp b p q = (if b < 2 \<or> p = 0 \<or> q \<le> p then 0 else Suc (neg_exp b (b * p) q))"
  by pat_completeness auto
termination
proof (relation "measure (\<lambda>(b, p, q). q - p)")
  fix b p q :: nat
  assume "\<not> (b < 2 \<or> p = 0 \<or> q \<le> p)"
  then have "2 * p \<le> b * p" "0 < p" "p < q" by auto
  then have "q - b * p < q - p" by linarith
  then show "((b, b * p, q), b, p, q) \<in> measure (\<lambda>(b, p, q). q - p)" by simp
qed simp

declare pos_exp.simps [simp del] neg_exp.simps [simp del]

text \<open>The exponent of \<open>p / q\<close> in base \<open>b\<close>.\<close>

definition exponent :: "nat \<Rightarrow> nat \<Rightarrow> nat \<Rightarrow> int" where
  "exponent b p q = (if q \<le> p then int (pos_exp b p q) else - int (neg_exp b p q))"

definition round_even :: "nat \<Rightarrow> nat \<Rightarrow> nat" where
  "round_even a b =
     (let d = a div b; r = a mod b in if 2 * r < b \<or> 2 * r = b \<and> even d then d else d + 1)"

definition fl_round :: "nat \<Rightarrow> nat \<Rightarrow> float64" where
  "fl_round p q =
     (if p = 0 then (0, 0)
      else let s = min (52 - exponent 2 p q) 1074 in
        if 0 \<le> s then (round_even (p * 2 ^ nat s) q, nat s)
        else (round_even p (q * 2 ^ nat (- s)) * 2 ^ nat (- s), 0))"

definition fl_nat :: "nat \<Rightarrow> float64" where
  "fl_nat n = fl_round n 1"

definition fl_mul :: "float64 \<Rightarrow> float64 \<Rightarrow> float64" where
  "fl_mul x y = (case (x, y) of ((m, k), (n, l)) \<Rightarrow> fl_round (m * n) (2 ^ (k + l)))"

definition fl_div :: "float64 \<Rightarrow> float64 \<Rightarrow> float64" where
  "fl_div x y = (case (x, y) of ((m, k), (n, l)) \<Rightarrow> fl_round (m * 2 ^ l) (n * 2 ^ k))"

definition fl_eq :: "float64 \<Rightarrow> float64 \<Rightarrow> bool" where
  "fl_eq x y \<longleftrightarrow> (case (x, y) of ((m, k), (n, l)) \<Rightarrow> m * 2 ^ l = n * 2 ^ k)"

definition fl_less :: "float64 \<Rightarrow> float64 \<Rightarrow> bool" where
  "fl_less x y \<longleftrightarrow> (case (x, y) of ((m, k), (n, l)) \<Rightarrow> m * 2 ^ l < n * 2 ^ k)"

text \<open>\<^verbatim>\<open>uint64(x)\<close>: the integer part.\<close>

definition fl_trunc :: "float64 \<Rightarrow> nat" where
  "fl_trunc x = (case x of (m, k) \<Rightarrow> m div 2 ^ k)"

subsection \<open>Shortest decimals\<close>

text \<open>
  With \<open>n\<close> digits and decimal exponent \<open>t\<close>: the decimals next to the number, \<open>d\<close> below and
  \<open>d + 1\<close> above, in units of \<open>10 ^ (t - n + 1)\<close>; the nearer of those that are read back as
  the number. \<open>scaled\<close> is a fraction times a power of ten.
\<close>

definition scaled :: "nat \<Rightarrow> nat \<Rightarrow> int \<Rightarrow> nat \<times> nat" where
  "scaled p q e = (if 0 \<le> e then (p * 10 ^ nat e, q) else (p, q * 10 ^ nat (- e)))"

definition read_back :: "float64 \<Rightarrow> nat \<Rightarrow> int \<Rightarrow> bool" where
  "read_back x d e = (case scaled d 1 e of (p, q) \<Rightarrow> fl_eq (fl_round p q) x)"

definition near_decimal :: "float64 \<Rightarrow> int \<Rightarrow> nat \<Rightarrow> nat option" where
  "near_decimal x t n =
     (case x of (m, k) \<Rightarrow>
        let e = int n - 1 - t; (p, q) = scaled m (2 ^ k) e; d = p div q; lo = read_back x d (- e); hi = read_back x (d + 1) (- e)
        in if lo \<and> (\<not> hi \<or> 2 * (p mod q) \<le> q) then Some d else if hi then Some (d + 1) else None)"

fun shortest_from :: "nat \<Rightarrow> float64 \<Rightarrow> int \<Rightarrow> nat \<Rightarrow> nat \<times> nat" where
  "shortest_from 0 x t n = (case near_decimal x t n of Some d \<Rightarrow> (d, n) | None \<Rightarrow> (0, n))"
| "shortest_from (Suc f) x t n =
     (case near_decimal x t n of Some d \<Rightarrow> (d, n) | None \<Rightarrow> shortest_from f x t (Suc n))"

text \<open>Seventeen digits always suffice; the result \<open>(d, e)\<close> stands for \<open>d * 10 ^ e\<close>.\<close>

definition shortest :: "float64 \<Rightarrow> nat \<times> int" where
  "shortest x =
     (case x of (m, k) \<Rightarrow>
        let t = exponent 10 m (2 ^ k) in
        case shortest_from 16 x t 1 of (d, n) \<Rightarrow>
          if d = 10 ^ n then (1, t + 1) else (d, t - int n + 1))"

definition show_fixed :: "nat \<Rightarrow> int \<Rightarrow> string" where
  "show_fixed d e =
     (if 0 \<le> e then show_nat (d * 10 ^ nat e)
      else let p = nat (- e) in
        show_nat (d div 10 ^ p) @ ''.'' @
        (let ds = show_nat (d mod 10 ^ p) in replicate (p - length ds) (CHR ''0'') @ ds))"

definition show_exp :: "nat \<Rightarrow> int \<Rightarrow> string" where
  "show_exp d e =
     (let ds = show_nat d; x = e + int (length ds) - 1; mant = (case ds of [] \<Rightarrow> [] | [c] \<Rightarrow> [c] | c # cs \<Rightarrow> c # CHR ''.'' # cs)
      in mant @ ''e'' @ (if x < 0 then ''-'' else ''+'') @ show_nat (nat (abs x)))"

definition show_float :: "float64 \<Rightarrow> string" where
  "show_float x =
     (if fst x = 0 then ''0''
      else case shortest x of (d, e) \<Rightarrow>
        if fl_less x (fl_round 1 1000000) \<or> \<not> fl_less x (fl_round (10 ^ 21) 1) then show_exp d e else show_fixed d e)"

subsection \<open>Number tokens\<close>

fun exp_val :: "nat \<Rightarrow> string \<Rightarrow> nat" where
  "exp_val acc [] = acc"
| "exp_val acc (c # s) = exp_val (if acc < 10000 then 10 * acc + (byte c - 48) else acc) s"

text \<open>
  \<^verbatim>\<open>strconv.ParseFloat\<close> on a number token: the sign and the rounded value, None when it
  overflows.
\<close>

definition token_parts :: "string \<Rightarrow> bool \<times> nat \<times> int" where
  "token_parts tok =
     (let (sg, s1) = scan_sign tok;
          i = takeWhile is_digit s1; s2 = dropWhile is_digit s1;
          f = (if s2 \<noteq> [] \<and> hd s2 = CHR ''.'' then takeWhile is_digit (tl s2) else []);
          s3 = (if s2 \<noteq> [] \<and> hd s2 = CHR ''.'' then dropWhile is_digit (tl s2) else s2);
          s4 = drop 1 s3;
          neg = (s4 \<noteq> [] \<and> hd s4 = CHR ''-'');
          ds = (if s4 \<noteq> [] \<and> (hd s4 = CHR ''-'' \<or> hd s4 = CHR ''+'') then tl s4 else s4);
          x = int (exp_val 0 ds)
      in (sg \<noteq> [], nat (digits_val 0 (i @ f)), (if neg then - x else x) - int (length f)))"

definition parse_float :: "string \<Rightarrow> (bool \<times> float64) option" where
  "parse_float tok =
     (case token_parts tok of (neg, d, e) \<Rightarrow>
        (case scaled d 1 e of (p, q) \<Rightarrow>
           if p \<ge> q * (2 ^ 1024 - 2 ^ 970) then None else Some (neg, fl_round p q)))"

definition json_float :: "bool \<Rightarrow> float64 \<Rightarrow> json" where
  "json_float neg x = JNum ((if neg then ''-'' else '''') @ show_float x)"

section \<open>Lemmas\<close>

subsection \<open>Rounding\<close>

lemma pos_exp_bounds:
  "2 \<le> b \<Longrightarrow> 0 < q \<Longrightarrow> q \<le> p \<Longrightarrow> q * b ^ pos_exp b p q \<le> p \<and> p < q * b ^ Suc (pos_exp b p q)"
proof (induction b p q rule: pos_exp.induct)
  case (1 b p q)
  show ?case
  proof (cases "p < b * q")
    case True
    with "1.prems" show ?thesis by (simp add: pos_exp.simps [of b p q] mult.commute)
  next
    case False
    with "1.prems" have "\<not> (b < 2 \<or> q = 0 \<or> p < b * q)" "b * q \<le> p" "0 < b * q" by auto
    from "1.IH" [OF this(1) "1.prems"(1) this(3,2)] False "1.prems" show ?thesis
      by (simp add: pos_exp.simps [of b p q] mult_ac)
  qed
qed

lemma neg_exp_bounds:
  "2 \<le> b \<Longrightarrow> 0 < p \<Longrightarrow> p < q \<Longrightarrow> q \<le> p * b ^ neg_exp b p q \<and> p * b ^ neg_exp b p q < b * q \<and> 0 < neg_exp b p q"
proof (induction b p q rule: neg_exp.induct)
  case (1 b p q)
  have step: "neg_exp b p q = Suc (neg_exp b (b * p) q)" using "1.prems" by (simp add: neg_exp.simps [of b p q])
  show ?case
  proof (cases "b * p < q")
    case True
    with 1 step show ?thesis by (simp add: mult_ac)
  next
    case False
    then have "neg_exp b (b * p) q = 0" by (simp add: neg_exp.simps [of b "b * p" q])
    with False "1.prems" step show ?thesis by (simp add: mult.commute)
  qed
qed

lemma round_even_le: "a \<le> c * b \<Longrightarrow> 0 < b \<Longrightarrow> round_even a b \<le> c"
proof -
  assume a: "a \<le> c * b" "0 < b"
  then have d: "a div b \<le> c" using div_le_mono [of a "c * b" b] by simp
  show ?thesis
  proof (cases "a div b = c")
    case True
    with a have "a mod b = 0" using div_mult_mod_eq [of a b] by simp
    with True a(2) show ?thesis by (simp add: round_even_def)
  next
    case False
    with d show ?thesis by (simp add: round_even_def Let_def)
  qed
qed

lemma round_even_less: "2 * a + b < 2 * (c * b) \<Longrightarrow> 0 < b \<Longrightarrow> round_even a b < c"
proof -
  assume a: "2 * a + b < 2 * (c * b)" "0 < b"
  then have d: "a div b < c" by (simp add: less_mult_imp_div_less)
  show ?thesis
  proof (cases "Suc (a div b) = c")
    case True
    have "2 * (c * b) = 2 * (a div b * b) + 2 * b" unfolding True [symmetric] by simp
    with a(1) have "2 * (a mod b) < b" using div_mult_mod_eq [of a b] by linarith
    with d show ?thesis by (simp add: round_even_def)
  next
    case False
    with d show ?thesis by (simp add: round_even_def Let_def)
  qed
qed

lemma round_even_exact [simp]: "0 < b \<Longrightarrow> round_even (c * b) b = c"
  by (simp add: round_even_def)

text \<open>Below \<open>2 ^ 53\<close> the shift is not negative.\<close>

lemma exponent_le:
  assumes "p < 2 ^ Suc n * q" and "0 < p" and "0 < q"
  shows "exponent 2 p q \<le> int n"
proof (cases "q \<le> p")
  case True
  then have "q * 2 ^ pos_exp 2 p q \<le> p" using pos_exp_bounds [of 2 q p] assms by simp
  then have "q * 2 ^ pos_exp 2 p q < 2 ^ Suc n * q" using assms(1) by (rule le_less_trans)
  then have "(2 :: nat) ^ pos_exp 2 p q < 2 ^ Suc n" using assms(3) by (metis mult.commute nat_mult_less_cancel1)
  then have "pos_exp 2 p q < Suc n" by (rule power_less_imp_less_exp [rotated]) simp
  with True show ?thesis by (simp add: exponent_def)
qed (simp add: exponent_def)

definition shift :: "nat \<Rightarrow> nat \<Rightarrow> nat" where
  "shift p q = nat (min (52 - exponent 2 p q) 1074)"

lemma fl_round_small:
  assumes "p < 2 ^ 53 * q" and "0 < q"
  shows "fl_round p q = (if p = 0 then (0, 0) else (round_even (p * 2 ^ shift p q) q, shift p q))"
  using assms exponent_le [of p 52 q] by (auto simp: fl_round_def shift_def Let_def)

lemma fl_round_le:
  assumes "p \<le> c * q" and "c < 2 ^ 53" and "0 < q" and "fl_round p q = (m, k)"
  shows "m \<le> c * 2 ^ k"
proof -
  have "c * q < 2 ^ 53 * q" using assms(2,3) by simp
  with assms(1) have "p < 2 ^ 53 * q" by (rule le_less_trans)
  note eq = fl_round_small [OF this assms(3)]
  have "p * 2 ^ shift p q \<le> c * 2 ^ shift p q * q" using assms(1) by (simp add: mult_ac)
  from round_even_le [OF this assms(3)] eq assms(4) show ?thesis by (auto split: if_splits)
qed

lemma fl_nat_exact: "n < 2 ^ 53 \<Longrightarrow> \<exists>k. fl_nat n = (n * 2 ^ k, k)"
  using fl_round_small [of n 1] round_even_exact [of 1] by (auto simp: fl_nat_def split: if_splits)

subsection \<open>Percentages\<close>

definition percentage :: "nat \<Rightarrow> nat \<Rightarrow> float64" where
  "percentage a b = fl_mul (fl_div (fl_nat a) (fl_nat b)) (100, 0)"

lemma ratio_round:
  assumes "a < 2 ^ 53" and "b < 2 ^ 53"
  shows "\<exists>k. fl_div (fl_nat a) (fl_nat b) = fl_round (a * 2 ^ k) (b * 2 ^ k)"
proof -
  obtain i j where "fl_nat a = (a * 2 ^ i, i)" "fl_nat b = (b * 2 ^ j, j)" using fl_nat_exact assms by blast
  then have "fl_div (fl_nat a) (fl_nat b) = fl_round (a * 2 ^ (i + j)) (b * 2 ^ (i + j))"
    by (simp add: fl_div_def power_add mult_ac)
  then show ?thesis by blast
qed

lemma percentage_le:
  assumes "a \<le> b" and "0 < b" and "b < 2 ^ 53" and "percentage a b = (m, k)"
  shows "m \<le> 100 * 2 ^ k"
proof -
  obtain l where l: "fl_div (fl_nat a) (fl_nat b) = fl_round (a * 2 ^ l) (b * 2 ^ l)" using ratio_round assms by force
  obtain n j where n: "fl_round (a * 2 ^ l) (b * 2 ^ l) = (n, j)" by (metis surj_pair)
  have "n \<le> 1 * 2 ^ j" by (rule fl_round_le [OF _ _ _ n]) (use assms in auto)
  moreover have "fl_round (n * 100) (2 ^ j) = (m, k)" using assms(4) by (simp add: percentage_def l n fl_mul_def)
  ultimately show ?thesis by (intro fl_round_le [of "n * 100"]) auto
qed

lemma fl_round_exact: "0 < q \<Longrightarrow> c < 2 ^ 53 \<Longrightarrow> \<exists>k. fl_round (c * q) q = (c * 2 ^ k, k)"
proof -
  assume q: "0 < q" "c < 2 ^ 53"
  then have "c * q < 2 ^ 53 * q" by simp
  note eq = fl_round_small [OF this q(1)]
  have "round_even (c * q * 2 ^ k) q = c * 2 ^ k" for k
    using round_even_exact [OF q(1), of "c * 2 ^ k"] by (simp add: mult_ac)
  with eq q(1) show ?thesis by (cases "c = 0") auto
qed

lemma percentage_full: "0 < b \<Longrightarrow> b < 2 ^ 53 \<Longrightarrow> \<exists>k. percentage b b = (100 * 2 ^ k, k)"
proof -
  assume b: "0 < b" "b < 2 ^ 53"
  obtain l where l: "fl_div (fl_nat b) (fl_nat b) = fl_round (b * 2 ^ l) (b * 2 ^ l)" using ratio_round b by blast
  obtain j where j: "fl_round (1 * (b * 2 ^ l)) (b * 2 ^ l) = (1 * 2 ^ j, j)" using fl_round_exact [of "b * 2 ^ l" 1] b by auto
  obtain k where "fl_round (100 * 2 ^ j) (2 ^ j) = (100 * 2 ^ k, k)" using fl_round_exact [of "2 ^ j" 100] by auto
  with l j show ?thesis by (auto simp: percentage_def fl_mul_def mult_ac)
qed

lemma fl_round_below_one:
  assumes pq: "p + d \<le> q" "0 < d" and q: "q < 2 ^ 53 * d" and r: "fl_round p q = (m, k)"
  shows "m * 2 ^ 53 \<le> (2 ^ 53 - 1) * 2 ^ k"
proof (cases "p = 0")
  case True
  with r show ?thesis by (simp add: fl_round_def)
next
  case False
  let ?n = "neg_exp 2 p q" and ?k = "shift p q"
  have lt: "p < q" "0 < q" using pq by auto
  have b: "p * 2 ^ ?n < 2 * q" "0 < ?n" using neg_exp_bounds [of 2 p q] lt False by auto
  have sh: "?k = nat (min (52 + int ?n) 1074)" using lt by (simp add: shift_def exponent_def)
  have "p < 2 ^ 53 * q" using lt by simp
  with fl_round_small [of p q] r False lt have mk: "m = round_even (p * 2 ^ ?k) q" "k = ?k" by auto
  show ?thesis
  proof (cases "?n = 1")
    case True
    then have k: "?k = 53" using sh by simp
    have "2 * (p * 2 ^ 53) + q < 2 * (2 ^ 53 * q)" using pq q by simp
    then have "m < 2 ^ 53" unfolding mk(1) k using lt(2) by (rule round_even_less)
    with mk(2) k show ?thesis by simp
  next
    case False
    with b(2) have n2: "2 \<le> ?n" by simp
    then have "(2 :: nat) ^ 2 \<le> 2 ^ ?n" by (rule power_increasing) simp
    then have "p * 4 \<le> p * 2 ^ ?n" by simp
    with b(1) have "2 * p \<le> q" by linarith
    have "?k \<noteq> 0" using sh n2 by simp
    then obtain i where i: "?k = Suc i" using not0_implies_Suc by blast
    have "p * 2 ^ ?k \<le> 2 ^ i * q" unfolding i using \<open>2 * p \<le> q\<close> by simp
    then have "m \<le> 2 ^ i" unfolding mk(1) using lt(2) by (rule round_even_le)
    with mk(2) i show ?thesis by simp
  qed
qed

lemma scale_hundred:
  fixes n c X S :: nat
  assumes "n * Suc c \<le> c * X" and "Suc c * X < 200 * S * X"
  shows "2 * (n * 100 * S) + X < 2 * (100 * S * X)"
proof -
  have "Suc c * (2 * (n * 100 * S) + X) = 200 * S * (n * Suc c) + Suc c * X" by (simp add: algebra_simps)
  also have "\<dots> < 200 * S * (c * X) + 200 * S * X" using mult_le_mono2 [OF assms(1)] assms(2) by (rule add_le_less_mono)
  also have "\<dots> = Suc c * (2 * (100 * S * X))" by (simp add: algebra_simps)
  finally show ?thesis by (metis nat_mult_less_cancel_disj)
qed

lemma percentage_less:
  assumes ab: "a < b" and b: "b < 2 ^ 53" and r: "percentage a b = (m, k)"
  shows "m < 100 * 2 ^ k"
proof -
  obtain l where l: "fl_div (fl_nat a) (fl_nat b) = fl_round (a * 2 ^ l) (b * 2 ^ l)" using ratio_round ab b by force
  obtain n j where n: "fl_round (a * 2 ^ l) (b * 2 ^ l) = (n, j)" by (metis surj_pair)
  have "Suc a * 2 ^ l \<le> b * 2 ^ l" by (rule mult_le_mono1) (use ab in simp)
  then have n1: "n * 2 ^ 53 \<le> (2 ^ 53 - 1) * 2 ^ j"
    by (intro fl_round_below_one [OF _ _ _ n, of "2 ^ l"]) (use b in auto)
  have mk: "fl_round (n * 100) (2 ^ j) = (m, k)" using r by (simp add: percentage_def l n fl_mul_def)
  show ?thesis
  proof (cases "n = 0")
    case True
    with mk show ?thesis by (simp add: fl_round_def)
  next
    case False
    let ?s = "shift (n * 100) (2 ^ j)"
    have "n \<le> 2 ^ j" using n1 by simp
    moreover have "0 < (2 :: nat) ^ j" by simp
    ultimately have "n * 100 < 128 * 2 ^ j" by linarith
    then have small: "n * 100 < 2 ^ Suc 6 * 2 ^ j" by simp
    have "exponent 2 (n * 100) (2 ^ j) \<le> 6" using exponent_le [OF small] False by simp
    then have s: "46 \<le> ?s" by (simp add: shift_def)
    have "n * 100 < 2 ^ 53 * 2 ^ j" using small by simp
    with fl_round_small [of "n * 100" "2 ^ j"] mk False
    have m: "m = round_even (n * 100 * 2 ^ ?s) (2 ^ j)" "k = ?s" by auto
    have "(2 :: nat) ^ 46 \<le> 2 ^ ?s" using s by (intro power_increasing) auto
    then have "2 ^ 53 < 200 * (2 :: nat) ^ ?s" by simp
    then have "2 ^ 53 * 2 ^ j < 200 * 2 ^ ?s * (2 :: nat) ^ j" by simp
    with scale_hundred [of n "2 ^ 53 - 1" "2 ^ j" "2 ^ ?s"] n1
    have "2 * (n * 100 * 2 ^ ?s) + 2 ^ j < 2 * (100 * 2 ^ ?s * 2 ^ j)" by simp
    then show ?thesis unfolding m by (intro round_even_less) simp_all
  qed
qed

subsection \<open>What is written is a number\<close>

lemma scan_frac_digits: "ds \<noteq> [] \<Longrightarrow> list_all is_digit ds \<Longrightarrow> r = [] \<or> \<not> is_digit (hd r) \<Longrightarrow>
  scan_frac (CHR ''.'' # ds @ r) = Some (CHR ''.'' # ds, r)"
  using scan_digits_iff [of "ds @ r" ds r] by (auto simp: scan_frac_def)

lemma scan_int_digits: "scan_int (show_nat n @ CHR ''.'' # r) = Some (show_nat n, CHR ''.'' # r)"
  using scan_intD(4) [OF scan_int_show, of "CHR ''.'' # r"] by (auto simp: is_digit_def byte_def)

lemma scan_sign_digit: "ds \<noteq> [] \<Longrightarrow> list_all is_digit ds \<Longrightarrow> scan_sign (ds @ r) = ([], ds @ r)"
  by (cases ds) (auto simp: scan_sign_def)

lemma num_ok_show_nat: "num_ok (show_nat n)"
  using num_ok_show_int [of "int n"] by (simp add: show_int_def)

lemma num_ok_fixed: "num_ok (show_fixed d e)"
proof (cases "0 \<le> e")
  case True
  then show ?thesis by (simp add: show_fixed_def num_ok_show_nat)
next
  case False
  define fr where "fr = (let ds = show_nat (d mod 10 ^ nat (- e)) in replicate (nat (- e) - length ds) (CHR ''0'') @ ds)"
  have "is_digit (CHR ''0'')" by (simp add: is_digit_def byte_def)
  then have fr: "fr \<noteq> []" "list_all is_digit fr"
    using show_nat_digits [of "d mod 10 ^ nat (- e)"] by (auto simp: fr_def Let_def list_all_iff)
  have s: "show_fixed d e = show_nat (d div 10 ^ nat (- e)) @ CHR ''.'' # fr" using False by (simp add: show_fixed_def fr_def Let_def)
  show ?thesis unfolding s num_ok_def scan_num_def
    using scan_sign_digit [of "show_nat (d div 10 ^ nat (- e))"] show_nat_digits scan_frac_digits [OF fr, of "[]"]
    by (simp add: scan_int_digits scan_exp_def)
qed

lemma scan_exp_digits:
  assumes "ds \<noteq> []" "list_all is_digit ds" "sg = CHR ''-'' \<or> sg = CHR ''+''"
  shows "scan_exp (CHR ''e'' # sg # ds) = Some (CHR ''e'' # sg # ds, [])"
  using assms scan_digits_iff [of ds ds "[]"] by (auto simp: scan_exp_def)

lemma num_ok_exp: "num_ok (show_exp d e)"
proof -
  obtain c cs where ds: "show_nat d = c # cs" "is_digit c" "list_all is_digit cs"
    using show_nat_digits [of d] by (cases "show_nat d") auto
  define x where "x = e + int (length (show_nat d)) - 1"
  define tl where "tl = CHR ''e'' # (if x < 0 then CHR ''-'' else CHR ''+'') # show_nat (nat (abs x))"
  have tl: "scan_exp tl = Some (tl, [])" "tl = CHR ''e'' # List.tl tl"
    unfolding tl_def using scan_exp_digits show_nat_digits by auto
  have s: "show_exp d e = [c] @ (if cs = [] then [] else CHR ''.'' # cs) @ tl"
    by (cases cs) (auto simp: show_exp_def x_def tl_def ds(1) Let_def)
  have fr: "scan_frac ((if cs = [] then [] else CHR ''.'' # cs) @ tl) = Some (if cs = [] then [] else CHR ''.'' # cs, tl)"
    using scan_frac_digits [of cs tl] ds(3) tl(2) by (cases cs) (auto simp: scan_frac_def is_digit_def byte_def tl_def)
  have "\<not> is_digit (hd ((if cs = [] then [] else CHR ''.'' # cs) @ tl))" by (auto simp: tl_def is_digit_def byte_def)
  then have i: "scan_int ([c] @ (if cs = [] then [] else CHR ''.'' # cs) @ tl) = Some ([c], (if cs = [] then [] else CHR ''.'' # cs) @ tl)"
    using ds(2) scan_digits_iff [of "[c] @ (if cs = [] then [] else CHR ''.'' # cs) @ tl" "[c]"]
    by (auto simp: scan_int_def)
  show ?thesis unfolding num_ok_def s scan_num_def
    using scan_sign_digit [of "[c]"] ds(2) i fr tl(1) by auto
qed

lemma num_ok_float: "num_ok (show_float x)"
  using num_ok_show_nat [of 0] by (auto simp: show_float_def num_ok_fixed num_ok_exp split: prod.splits)

lemma num_ok_neg: "num_ok (show_float x) \<Longrightarrow> hd (show_float x) \<noteq> CHR ''-'' \<Longrightarrow> num_ok (CHR ''-'' # show_float x)"
  by (cases "show_float x") (auto simp: num_ok_def scan_num_def scan_sign_def split: option.splits)

lemma show_float_hd: "hd (show_float x) \<noteq> CHR ''-''"
proof -
  have d: "hd (show_nat n @ r) \<noteq> CHR ''-''" for n r using show_nat_digits [of n] by (cases "show_nat n") auto
  have "hd (show_fixed d' e) \<noteq> CHR ''-''" for d' e
    using d [of "d' * 10 ^ nat e" "[]"] d by (simp add: show_fixed_def Let_def)
  moreover have "hd (show_exp d' e) \<noteq> CHR ''-''" for d' e
    using d [of d' "[]"] show_nat_digits [of d'] by (auto simp: show_exp_def Let_def split: list.splits)
  ultimately show ?thesis by (auto simp: show_float_def split: prod.splits)
qed

lemma wf_json_float [simp]: "wf_json (json_float neg x)" "depth (json_float neg x) = 0"
  using num_ok_float [of x] num_ok_neg [of x] show_float_hd [of x] by (auto simp: json_float_def)

subsection \<open>Integers as floats\<close>

lemma token_parts_int: "token_parts (show_int i) = (i < 0, nat (abs i), 0)"
proof -
  have ds: "takeWhile is_digit (show_nat n) = show_nat n" "dropWhile is_digit (show_nat n) = []" for n
    using show_nat_digits [of n] by (simp_all add: list_all_iff takeWhile_eq_all_conv dropWhile_eq_Nil_conv)
  show ?thesis
    using show_nat_digits by (simp add: token_parts_def show_int_def ds)
qed

lemma parse_float_int: "in_i64 i \<Longrightarrow> parse_float (show_int i) \<noteq> None"
proof -
  assume "in_i64 i"
  then have "nat (abs i) \<le> 2 ^ 63" by (auto simp: in_i64_def nat_le_iff abs_le_iff)
  also have "(2 :: nat) ^ 63 < 2 ^ 1024 - 2 ^ 970" by simp
  finally show ?thesis by (simp add: parse_float_def token_parts_int scaled_def)
qed

end
