(* ===== verification/Go_Duration.thy ===== *)
theory Go_Duration
  imports Go_Float
begin

text \<open>
  Go's \<^verbatim>\<open>time.ParseDuration\<close>, which the policy file's windows go through: a sign, and one or more
  decimals with a unit each. Numbers are \<^verbatim>\<open>uint64\<close> with the overflow checks of the library; the
  sum of the parts wraps. A fraction goes through two \<^verbatim>\<open>float64\<close> operations (theory
  \<open>Go_Float\<close>). Errors are the library's messages.

  Shown: a sequence of whole numbers with units is read as the exact sum, as long as it fits, and
  a result is always in the range of \<^verbatim>\<open>time.Duration\<close>.
\<close>

section \<open>Definitions\<close>

text \<open>\<open>leading_int\<close> is None on overflow; \<open>leading_fraction\<close> drops the digits that do not fit.\<close>

fun leading_int :: "int \<Rightarrow> string \<Rightarrow> (int \<times> string) option" where
  "leading_int x [] = Some (x, [])"
| "leading_int x (c # s) =
     (if \<not> is_digit c then Some (x, c # s)
      else if x > 2 ^ 63 div 10 then None
      else let y = x * 10 + int (byte c - 48) in if y > 2 ^ 63 then None else leading_int y s)"

fun leading_fraction :: "int \<Rightarrow> float64 \<Rightarrow> bool \<Rightarrow> string \<Rightarrow> int \<times> float64 \<times> string" where
  "leading_fraction x scale over [] = (x, scale, [])"
| "leading_fraction x scale over (c # s) =
     (if \<not> is_digit c then (x, scale, c # s)
      else if over \<or> x > (2 ^ 63 - 1) div 10 then leading_fraction x scale True s
      else let y = x * 10 + int (byte c - 48) in
        if y > 2 ^ 63 then leading_fraction x scale True s
        else leading_fraction y (fl_mul scale (10, 0)) False s)"

definition unitMap :: "(string \<times> int) list" where
  "unitMap =
     [(''ns'', 1), (''us'', 1000), ([CHR 0xC2, CHR 0xB5, CHR ''s''], 1000), ([CHR 0xCE, CHR 0xBC, CHR ''s''], 1000),
      (''ms'', 1000000), (''s'', 1000000000), (''m'', 60000000000), (''h'', 3600000000000)]"

definition num_byte :: "char \<Rightarrow> bool" where
  "num_byte c \<longleftrightarrow> c = CHR ''.'' \<or> is_digit c"

text \<open>The library's own quoting of the text in an error message.\<close>

definition time_quote :: "string \<Rightarrow> string" where
  "time_quote s =
     [DQ] @ concat (map (\<lambda>c. if byte c \<ge> 0x80 \<or> byte c < 0x20 then [BS, CHR ''x'', hex_digit (byte c div 16), hex_digit (byte c mod 16)]
       else if c = DQ \<or> c = BS then [BS, c] else [c]) s) @ [DQ]"

definition invalid_duration :: "string \<Rightarrow> string" where
  "invalid_duration orig = ''time: invalid duration '' @ time_quote orig"

text \<open>One number with its unit: its nanoseconds and the rest of the text.\<close>

definition duration_part :: "string \<Rightarrow> string \<Rightarrow> string + int \<times> string" where
  "duration_part orig s =
     (if \<not> num_byte (hd s) then Inl (invalid_duration orig)
      else case leading_int 0 s of
        None \<Rightarrow> Inl (invalid_duration orig)
      | Some (v, s1) \<Rightarrow>
          let pre = (length s \<noteq> length s1);
              dot = (s1 \<noteq> [] \<and> hd s1 = CHR ''.'');
              (f, scale, s2) = (if dot then leading_fraction 0 (1, 0) False (tl s1) else (0, (1, 0), s1));
              post = (dot \<and> length (tl s1) \<noteq> length s2);
              u = takeWhile (\<lambda>c. \<not> num_byte c) s2; s3 = dropWhile (\<lambda>c. \<not> num_byte c) s2
          in if \<not> pre \<and> \<not> post then Inl (invalid_duration orig)
             else if u = [] then Inl (''time: missing unit in duration '' @ time_quote orig)
             else case map_of unitMap u of
               None \<Rightarrow> Inl (''time: unknown unit '' @ time_quote u @ '' in duration '' @ time_quote orig)
             | Some unit \<Rightarrow>
                 if v > 2 ^ 63 div unit then Inl (invalid_duration orig)
                 else
                   let v1 = v * unit;
                       v2 = (if f > 0 then v1 + int (fl_trunc (fl_mul (fl_nat (nat f)) (fl_div (fl_nat (nat unit)) scale))) else v1)
                   in if v2 > 2 ^ 63 then Inl (invalid_duration orig) else Inr (v2, s3))"

lemma leading_int_length: "leading_int x s = Some (v, r) \<Longrightarrow> length r \<le> length s"
  by (induction x s rule: leading_int.induct) (auto simp: Let_def split: if_splits)

lemma leading_fraction_length: "leading_fraction x scale over s = (f, sc, r) \<Longrightarrow> length r \<le> length s"
proof (induction s arbitrary: x scale over)
  case (Cons c s)
  then show ?case by (auto simp: Let_def split: if_splits dest!: Cons.IH)
qed simp

lemma duration_part_shorter:
  assumes "duration_part orig s = Inr (v, r)"
  shows "length r < length s"
proof -
  obtain v1 s1 where 1: "leading_int 0 s = Some (v1, s1)"
    using assms by (cases "leading_int 0 s") (auto simp: duration_part_def split: if_splits)
  obtain f sc s2 where 2: "(if s1 \<noteq> [] \<and> hd s1 = CHR ''.'' then leading_fraction 0 (1, 0) False (tl s1) else (0, (1, 0), s1)) = (f, sc, s2)"
    by (metis prod_cases3)
  have "length s2 \<le> length s1"
    using 2 leading_fraction_length [of 0 "(1, 0)" False "tl s1" f sc s2] by (auto split: if_splits)
  moreover have "takeWhile (\<lambda>c. \<not> num_byte c) s2 \<noteq> []" "r = dropWhile (\<lambda>c. \<not> num_byte c) s2"
    using assms 1 2 by (auto simp: duration_part_def Let_def split: if_splits option.splits)
  moreover have "length s2 = length (takeWhile (\<lambda>c. \<not> num_byte c) s2) + length (dropWhile (\<lambda>c. \<not> num_byte c) s2)"
    by (metis length_append takeWhile_dropWhile_id)
  ultimately show ?thesis using leading_int_length [OF 1] by (cases "takeWhile (\<lambda>c. \<not> num_byte c) s2") auto
qed

function duration_loop :: "string \<Rightarrow> int \<Rightarrow> string \<Rightarrow> string + int" where
  "duration_loop orig d s =
     (if s = [] then Inr d
      else case duration_part orig s of
        Inl err \<Rightarrow> Inl err
      | Inr (v, r) \<Rightarrow>
          let d' = (d + v) mod 2 ^ 64 in
          if d' > 2 ^ 63 then Inl (invalid_duration orig) else duration_loop orig d' r)"
  by pat_completeness auto
termination
  by (relation "measure (\<lambda>(orig, d, s). length s)") (auto dest: duration_part_shorter)

declare duration_loop.simps [simp del]

definition ParseDuration :: "string \<Rightarrow> string + duration" where
  "ParseDuration orig =
     (let neg = (orig \<noteq> [] \<and> hd orig = CHR ''-'');
          s = (if orig \<noteq> [] \<and> (hd orig = CHR ''-'' \<or> hd orig = CHR ''+'') then tl orig else orig)
      in if s = ''0'' then Inr 0
         else if s = [] then Inl (invalid_duration orig)
         else case duration_loop orig 0 s of
           Inl err \<Rightarrow> Inl err
         | Inr d \<Rightarrow>
             if neg then Inr (i64 (- (i64 d)))
             else if d > 2 ^ 63 - 1 then Inl (invalid_duration orig) else Inr (i64 d))"

section \<open>Lemmas\<close>

lemma digits_val_mono: "0 \<le> x \<Longrightarrow> list_all is_digit ds \<Longrightarrow> x \<le> digits_val x ds"
proof (induction ds arbitrary: x)
  case (Cons c ds)
  have "x \<le> x * 10 + int (byte c - 48)" using Cons.prems(1) by simp
  also have "\<dots> \<le> digits_val (x * 10 + int (byte c - 48)) ds" using Cons by simp
  finally show ?case by (simp add: mult.commute)
qed simp

lemma leading_int_digits:
  assumes "list_all is_digit ds" and "0 \<le> x" "x \<le> 2 ^ 63" and "r = [] \<or> \<not> is_digit (hd r)"
  shows "leading_int x (ds @ r) = (if digits_val x ds \<le> 2 ^ 63 then Some (digits_val x ds, r) else None)"
  using assms
proof (induction ds arbitrary: x)
  case Nil
  then show ?case by (cases r) auto
next
  case (Cons c ds)
  let ?y = "x * 10 + int (byte c - 48)"
  have eq: "digits_val x (c # ds) = digits_val ?y ds" by (simp add: mult.commute)
  have y: "0 \<le> ?y" "?y \<le> digits_val ?y ds" using digits_val_mono [of ?y ds] Cons.prems by auto
  have "?y \<le> 2 ^ 63 \<Longrightarrow> x \<le> 2 ^ 63 div 10" by auto
  with y Cons.IH [of ?y] Cons.prems eq show ?case by (auto simp: Let_def)
qed

lemma leading_int_nat:
  "r = [] \<or> \<not> is_digit (hd r) \<Longrightarrow> leading_int 0 (show_nat n @ r) = (if int n \<le> 2 ^ 63 then Some (int n, r) else None)"
  using leading_int_digits [of "show_nat n" 0 r] show_nat_digits [of n] by simp

text \<open>A whole number with its unit.\<close>

definition whole :: "nat \<times> string \<Rightarrow> string" where
  "whole p = show_nat (fst p) @ snd p"

definition unit_of :: "string \<Rightarrow> int" where
  "unit_of u = (case map_of unitMap u of None \<Rightarrow> 0 | Some n \<Rightarrow> n)"

definition part_ok :: "nat \<times> string \<Rightarrow> bool" where
  "part_ok p \<longleftrightarrow> snd p \<in> fst ` set unitMap"

definition total_of :: "(nat \<times> string) list \<Rightarrow> int" where
  "total_of ps = sum_list (map (\<lambda>(n, u). int n * unit_of u) ps)"

lemma unit_facts:
  assumes "u \<in> fst ` set unitMap"
  shows "map_of unitMap u = Some (unit_of u)" "0 < unit_of u" "u \<noteq> []" "list_all (\<lambda>c. \<not> num_byte c) u"
proof -
  have "list_all (\<lambda>u. map_of unitMap u = Some (unit_of u) \<and> 0 < unit_of u \<and> u \<noteq> [] \<and> list_all (\<lambda>c. \<not> num_byte c) u) (map fst unitMap)"
    by code_simp
  with assms show "map_of unitMap u = Some (unit_of u)" "0 < unit_of u" "u \<noteq> []" "list_all (\<lambda>c. \<not> num_byte c) u"
    by (auto simp: list_all_iff)
qed

lemma duration_part_whole:
  assumes p: "part_ok (n, u)" and fits: "int n * unit_of u \<le> 2 ^ 63" and r: "r = [] \<or> num_byte (hd r)"
  shows "duration_part orig (whole (n, u) @ r) = Inr (int n * unit_of u, r)"
proof -
  note u = unit_facts [OF p [unfolded part_ok_def snd_conv]]
  have pos: "1 \<le> unit_of u" using u(2) by simp
  then have "int n \<le> int n * unit_of u" by (simp add: mult_le_cancel_left1)
  then have n: "int n \<le> 2 ^ 63" using fits by simp
  have hd_u: "\<not> num_byte (hd u)" using u(3,4) by (cases u) auto
  have digits: "list_all is_digit (show_nat n)" "show_nat n \<noteq> []" "digits_val 0 (show_nat n) = int n"
    using show_nat_digits [of n] by auto
  have int: "leading_int 0 (show_nat n @ u @ r) = Some (int n, u @ r)"
    using leading_int_nat [of "u @ r" n] n hd_u u(3) by (auto simp: num_byte_def)
  have hd: "num_byte (hd (show_nat n @ u @ r))" using digits by (cases "show_nat n") (auto simp: num_byte_def)
  have un: "takeWhile (\<lambda>c. \<not> num_byte c) (u @ r) = u" "dropWhile (\<lambda>c. \<not> num_byte c) (u @ r) = r"
    using u(4) r by (cases r; auto simp: takeWhile_append dropWhile_append list_all_iff)+
  have "\<not> int n > 2 ^ 63 div unit_of u"
    using zdiv_mono1 [OF fits, of "unit_of u"] pos by simp
  moreover have "hd (u @ r) \<noteq> CHR ''.''" using hd_u u(3) by (cases u) (auto simp: num_byte_def)
  ultimately show ?thesis
    using int hd un u digits(2) fits by (simp add: duration_part_def whole_def Let_def)
qed

lemma whole_start: "whole p \<noteq> [] \<and> is_digit (hd (whole p))"
  using show_nat_digits [of "fst p"] by (cases "show_nat (fst p)") (auto simp: whole_def)

lemma total_of_nonneg: "list_all part_ok ps \<Longrightarrow> 0 \<le> total_of ps"
proof (induction ps)
  case (Cons p ps)
  with unit_facts(2) [of "snd p"] show ?case by (cases p) (simp add: total_of_def part_ok_def)
qed (simp add: total_of_def)

lemma duration_loop_whole:
  "list_all part_ok ps \<Longrightarrow> 0 \<le> d \<Longrightarrow> d + total_of ps \<le> 2 ^ 63 \<Longrightarrow>
     duration_loop orig d (concat (map whole ps)) = Inr (d + total_of ps)"
proof (induction ps arbitrary: d)
  case Nil
  then show ?case by (simp add: duration_loop.simps total_of_def)
next
  case (Cons p ps)
  obtain n u where p: "p = (n, u)" by fastforce
  let ?v = "int n * unit_of u" and ?r = "concat (map whole ps)"
  have tot: "total_of (p # ps) = ?v + total_of ps" by (simp add: total_of_def p)
  have "0 \<le> ?v" using unit_facts(2) [of u] Cons.prems(1) by (simp add: p part_ok_def)
  then have v: "0 \<le> ?v" "?v \<le> 2 ^ 63" "0 \<le> d + ?v" "d + ?v \<le> 2 ^ 63"
    using total_of_nonneg [of ps] Cons.prems tot by auto
  have "?r = [] \<or> num_byte (hd ?r)" using whole_start by (cases ps) (auto simp: num_byte_def hd_append)
  then have part: "duration_part orig (whole p @ ?r) = Inr (?v, ?r)"
    using duration_part_whole [of n u ?r] Cons.prems(1) v(2) p by simp
  have "(d + ?v) mod 2 ^ 64 = d + ?v" using v by simp
  with part whole_start [of p] v Cons.IH [of "d + ?v"] Cons.prems tot show ?case
    by (subst duration_loop.simps) (simp add: Let_def add.assoc)
qed

lemma ParseDuration_loop:
  assumes "s \<noteq> []" "is_digit (hd s)" "s \<noteq> ''0''" and "\<And>orig. duration_loop orig 0 s = Inr t" and "0 \<le> t" "t < 2 ^ 63"
  shows "ParseDuration s = Inr t" and "ParseDuration (CHR ''-'' # s) = Inr (- t)"
proof -
  have t: "in_i64 t" "in_i64 (- t)" using assms(5,6) by (auto simp: in_i64_def)
  have "hd s \<noteq> CHR ''-''" "hd s \<noteq> CHR ''+''" using assms(2) by auto
  with assms t show "ParseDuration s = Inr t" by (simp add: ParseDuration_def i64_id Let_def)
  from assms t show "ParseDuration (CHR ''-'' # s) = Inr (- t)" by (simp add: ParseDuration_def i64_id)
qed

lemma ParseDuration_whole:
  assumes "ps \<noteq> []" and "list_all part_ok ps" and "total_of ps < 2 ^ 63"
  shows "ParseDuration (concat (map whole ps)) = Inr (total_of ps)"
    and "ParseDuration (CHR ''-'' # concat (map whole ps)) = Inr (- total_of ps)"
proof -
  let ?s = "concat (map whole ps)"
  obtain p qs where ps: "ps = p # qs" using assms(1) by (cases ps) auto
  have s: "?s \<noteq> []" "is_digit (hd ?s)" using whole_start [of p] ps by (auto simp: hd_append)
  have "2 \<le> length (whole p)"
  proof -
    have "snd p \<noteq> []" using unit_facts(3) [of "snd p"] assms(2) ps by (auto simp: part_ok_def)
    with show_nat_digits [of "fst p"] show ?thesis
      by (cases "show_nat (fst p)"; cases "snd p") (auto simp: whole_def)
  qed
  then have "length ?s \<noteq> length ''0''" using ps by simp
  then have zero: "?s \<noteq> ''0''" by metis
  have loop: "duration_loop orig 0 ?s = Inr (total_of ps)" for orig
    using duration_loop_whole [OF assms(2), of 0] assms(3) by simp
  have t: "0 \<le> total_of ps" using total_of_nonneg [OF assms(2)] .
  show "ParseDuration ?s = Inr (total_of ps)" by (rule ParseDuration_loop [OF s zero loop t assms(3)])
  show "ParseDuration (CHR ''-'' # ?s) = Inr (- total_of ps)" by (rule ParseDuration_loop [OF s zero loop t assms(3)])
qed

text \<open>A number without a unit, and one whose nanoseconds do not fit.\<close>

lemma ParseDuration_no_unit: "0 < n \<Longrightarrow> \<exists>err. ParseDuration (show_nat n) = Inl err"
proof -
  assume n: "0 < n"
  have d: "show_nat n \<noteq> []" "is_digit (hd (show_nat n))" "hd (show_nat n) \<noteq> CHR ''-''" "hd (show_nat n) \<noteq> CHR ''+''"
    using show_nat_digits [of n] by (cases "show_nat n"; auto)+
  have "show_nat n \<noteq> ''0''" using show_nat_zero [of n] n by auto
  moreover have "\<exists>err. duration_part orig (show_nat n) = Inl err" for orig
    using leading_int_nat [of "[]" n] d by (simp add: duration_part_def Let_def num_byte_def)
  then obtain err where "duration_part (show_nat n) (show_nat n) = Inl err" by blast
  then have "duration_loop (show_nat n) 0 (show_nat n) = Inl err"
    using d(1) by (subst duration_loop.simps) simp
  ultimately show ?thesis using d by (simp add: ParseDuration_def Let_def)
qed

end
