(* ===== verification/Rate_Policy.thy ===== *)
theory Rate_Policy
  imports Go_Duration
begin

text \<open>
  Rate limit policies (\<^verbatim>\<open>src/internal/policy/policy.go\<close>, \<^verbatim>\<open>loader.go\<close>): the
  configuration's data, its loading and the choice of the limit for a tier and a route.
  The YAML decoder and the file system are arguments of the loading functions; the windows'
  syntax is \<^verbatim>\<open>time.ParseDuration\<close> (theory \<open>Go_Duration\<close>). \<open>shipped_policy\<close> is the repository's \<^verbatim>\<open>src/config.yaml\<close>.
\<close>

section \<open>Definitions\<close>

record Limit =
  Algorithm :: string
  Requests :: int
  Window :: duration

record RouteRule =
  Route :: string
  RuleLimit :: Limit

record TierRules =
  Limits :: "RouteRule list"

record Config =
  Tiers :: "string \<rightharpoonup> TierRules"

definition zeroLimit :: Limit where
  "zeroLimit = \<lparr>Algorithm = '''', Requests = 0, Window = 0\<rparr>"

text \<open>\<^verbatim>\<open>UnmarshalText\<close> replaces the duration only when its text parses.\<close>

definition UnmarshalText :: "duration \<Rightarrow> string \<Rightarrow> string option \<times> duration" where
  "UnmarshalText d text =
     (case ParseDuration text of
        Inl err \<Rightarrow> (Some err, d)
      | Inr dur \<Rightarrow> (None, dur))"

definition LoadConfigFromReader :: "(string \<Rightarrow> string + Config) \<Rightarrow> string \<Rightarrow> string + Config" where
  "LoadConfigFromReader decode r =
     (case decode r of
        Inl err \<Rightarrow> Inl (''failed to decode policy config: '' @ err)
      | Inr cfg \<Rightarrow> Inr cfg)"

definition LoadConfig ::
  "(string \<Rightarrow> string + string) \<Rightarrow> (string \<Rightarrow> string + Config) \<Rightarrow> string \<Rightarrow> string + Config" where
  "LoadConfig open_file decode path =
     (case open_file path of
        Inl err \<Rightarrow> Inl (''failed to open policy config file: '' @ err)
      | Inr file \<Rightarrow> LoadConfigFromReader decode file)"

text \<open>The two loops of \<^verbatim>\<open>GetLimit\<close>: first the rule for exactly this route, then a wildcard.\<close>

fun exact_rule :: "string \<Rightarrow> RouteRule list \<Rightarrow> Limit option" where
  "exact_rule route [] = None"
| "exact_rule route (rule # rules) =
     (if Route rule = route then Some (RuleLimit rule) else exact_rule route rules)"

definition is_wildcard :: "RouteRule \<Rightarrow> bool" where
  "is_wildcard rule \<longleftrightarrow> Route rule = ''/*'' \<or> Route rule = ''*''"

fun wildcard_rule :: "RouteRule list \<Rightarrow> Limit option" where
  "wildcard_rule [] = None"
| "wildcard_rule (rule # rules) =
     (if is_wildcard rule then Some (RuleLimit rule) else wildcard_rule rules)"

definition GetLimit :: "Config \<Rightarrow> string \<Rightarrow> string \<Rightarrow> Limit \<times> bool" where
  "GetLimit c tier route =
     (case Tiers c tier of
        None \<Rightarrow> (zeroLimit, False)
      | Some tierRules \<Rightarrow>
          (case exact_rule route (Limits tierRules) of
             Some l \<Rightarrow> (l, True)
           | None \<Rightarrow>
               (case wildcard_rule (Limits tierRules) of
                  Some l \<Rightarrow> (l, True)
                | None \<Rightarrow> (zeroLimit, False))))"

definition tier_rules :: "string \<Rightarrow> int \<Rightarrow> int \<Rightarrow> TierRules" where
  "tier_rules payments_algorithm payments others =
     \<lparr>Limits =
       [\<lparr>Route = ''/api/v1/payments'',
         RuleLimit = \<lparr>Algorithm = payments_algorithm, Requests = payments, Window = 60 * Second\<rparr>\<rparr>,
        \<lparr>Route = ''/*'',
         RuleLimit = \<lparr>Algorithm = ''sliding_window'', Requests = others, Window = 60 * Second\<rparr>\<rparr>]\<rparr>"

definition shipped_policy :: Config where
  "shipped_policy =
     \<lparr>Tiers = [''Enterprise'' \<mapsto> tier_rules ''sliding_window'' 1000 5000,
               ''Pro'' \<mapsto> tier_rules ''sliding_window'' 100 500,
               ''Free'' \<mapsto> tier_rules ''token_bucket'' 10 50]\<rparr>"

section \<open>Lemmas\<close>

lemma exact_rule_find: "exact_rule route rules = map_option RuleLimit (find (\<lambda>r. Route r = route) rules)"
  by (induction rules) auto

lemma wildcard_rule_find: "wildcard_rule rules = map_option RuleLimit (find is_wildcard rules)"
  by (induction rules) auto

lemma exact_rule_None_iff: "exact_rule route rules = None \<longleftrightarrow> (\<forall>r \<in> set rules. Route r \<noteq> route)"
  by (auto simp: exact_rule_find find_None_iff)

lemma exact_rule_Some_iff:
  "exact_rule route rules = Some l \<longleftrightarrow>
     (\<exists>us r vs. rules = us @ r # vs \<and> Route r = route \<and> RuleLimit r = l \<and> (\<forall>u \<in> set us. Route u \<noteq> route))"
  by (auto simp: exact_rule_find dest!: find_SomeD)

lemma wildcard_rule_Some_iff:
  "wildcard_rule rules = Some l \<longleftrightarrow>
     (\<exists>us r vs. rules = us @ r # vs \<and> is_wildcard r \<and> RuleLimit r = l \<and> (\<forall>u \<in> set us. \<not> is_wildcard u))"
  by (auto simp: wildcard_rule_find dest!: find_SomeD)

section \<open>Properties\<close>

text \<open>
  \<^verbatim>\<open>GetLimit\<close> reports a limit exactly when the tier exists and has a rule for the
  route: the first rule whose route is exactly the request's path, wherever it stands in
  the list, and only when there is no such rule the first wildcard rule (\<^verbatim>\<open>/*\<close> or \<^verbatim>\<open>*\<close>).
\<close>

theorem GetLimit_spec:
  "GetLimit c tier route = (l, True) \<longleftrightarrow>
     (\<exists>tr us r vs. Tiers c tier = Some tr \<and> Limits tr = us @ r # vs \<and> RuleLimit r = l \<and>
        ((Route r = route \<and> (\<forall>u \<in> set us. Route u \<noteq> route)) \<or>
         (is_wildcard r \<and> (\<forall>u \<in> set us. \<not> is_wildcard u) \<and> (\<forall>u \<in> set (Limits tr). Route u \<noteq> route))))"
  (is "_ \<longleftrightarrow> ?rhs")
proof (cases "Tiers c tier")
  case None
  then show ?thesis by (simp add: GetLimit_def)
next
  case (Some tr)
  show ?thesis
  proof (cases "exact_rule route (Limits tr)")
    case None
    then have none: "\<forall>u \<in> set (Limits tr). Route u \<noteq> route"
      by (simp add: exact_rule_None_iff)
    then have "?rhs \<longleftrightarrow> wildcard_rule (Limits tr) = Some l"
      using Some by (auto simp: wildcard_rule_Some_iff)
    then show ?thesis
      using Some None by (auto simp: GetLimit_def split: option.splits)
  next
    case (Some l')
    with \<open>Tiers c tier = Some tr\<close> have "GetLimit c tier route = (l, True) \<longleftrightarrow> exact_rule route (Limits tr) = Some l"
      by (auto simp: GetLimit_def)
    moreover have "\<not> (\<forall>u \<in> set (Limits tr). Route u \<noteq> route)"
      using Some exact_rule_None_iff [of route "Limits tr"] by simp
    ultimately show ?thesis
      using \<open>Tiers c tier = Some tr\<close> by (auto simp: exact_rule_Some_iff)
  qed
qed

theorem GetLimit_spec_witness:
  "GetLimit shipped_policy ''Free'' ''/api/v1/payments'' =
     (\<lparr>Algorithm = ''token_bucket'', Requests = 10, Window = 60 * Second\<rparr>, True)"
  by (subst GetLimit_spec) (simp add: shipped_policy_def tier_rules_def, rule exI [of _ "[]"], simp)

text \<open>
  The configuration shipped with the repository gives every route of each of the
  three tiers a positive one-minute limit, and no limit to any other tier name.
\<close>

theorem shipped_policy_total:
  "snd (GetLimit shipped_policy tier route) = (tier \<in> {''Enterprise'', ''Pro'', ''Free''}) \<and>
   (let l = fst (GetLimit shipped_policy tier route)
    in if tier \<in> {''Enterprise'', ''Pro'', ''Free''}
       then 0 < Requests l \<and> Window l = 60 * Second else l = zeroLimit)"
  by (auto simp: GetLimit_def shipped_policy_def tier_rules_def is_wildcard_def)



end
