(* ===== verification/Redis_Service.thy ===== *)
theory Redis_Service
  imports Shield_Prelude "HOL-Library.Finite_Map"
begin

text \<open>
  What the rate limiter relies on of Redis. The server is not part of the repository: its
  sorted-set commands are the fields of a record that the definitions take as an argument,
  and the locale \<open>redis_zset\<close> states the documented behaviour of the four commands that
  the rate limit script calls. The state of the server is the type variable \<open>'r\<close>;
  \<open>zview srv r key\<close> is the sorted set stored under \<open>key\<close> at server time \<open>srv\<close>
  (milliseconds), \<open>zttl r key\<close> its expiry time. A key may be gone once its expiry time is
  reached, and never earlier.

  The store \<open>ref_cmds\<close> (one finite map and an expiry per key) satisfies the laws.
\<close>

section \<open>Definitions\<close>

text \<open>The hash in which the worker mirrors its breakers and from which the gateway reads them.\<close>

definition breakers_key :: string where
  "breakers_key = ''apishield:circuit_breakers''"

record 'r redis_cmds =
  ZREMRANGEBYSCORE :: "int \<Rightarrow> string \<Rightarrow> int \<Rightarrow> 'r \<Rightarrow> 'r"
  ZCARD :: "int \<Rightarrow> string \<Rightarrow> 'r \<Rightarrow> int"
  ZADD :: "int \<Rightarrow> string \<Rightarrow> int \<Rightarrow> string \<Rightarrow> 'r \<Rightarrow> 'r"
  PEXPIRE :: "int \<Rightarrow> string \<Rightarrow> int \<Rightarrow> 'r \<Rightarrow> 'r"

text \<open>The members whose score is above a bound.\<close>

definition newer :: "int \<Rightarrow> (string \<rightharpoonup> int) \<Rightarrow> (string \<rightharpoonup> int)" where
  "newer c z = (\<lambda>m. case z m of None \<Rightarrow> None | Some s \<Rightarrow> if c < s then Some s else None)"

section \<open>The interface\<close>

locale redis_zset =
  fixes cmds :: "'r redis_cmds"
    and zview :: "int \<Rightarrow> 'r \<Rightarrow> string \<Rightarrow> (string \<rightharpoonup> int)"
    and zttl :: "'r \<Rightarrow> string \<Rightarrow> int option"
  assumes expire_law: "srv \<le> srv' \<Longrightarrow>
      zview srv' r k = zview srv r k \<or>
      (zview srv' r k = Map.empty \<and> (\<exists>e. zttl r k = Some e \<and> e \<le> srv'))"
    and zrem_view: "zview srv (ZREMRANGEBYSCORE cmds srv key mx r) k =
      (if k = key then newer mx (zview srv r k) else zview srv r k)"
    and zrem_ttl: "zttl (ZREMRANGEBYSCORE cmds srv key mx r) k = zttl r k \<or>
      (k = key \<and> zttl (ZREMRANGEBYSCORE cmds srv key mx r) k = None)"
    and zcard_view: "ZCARD cmds srv key r = int (card (dom (zview srv r key)))"
    and zadd_view: "zview srv (ZADD cmds srv key score m r) k =
      (if k = key then (zview srv r k)(m \<mapsto> score) else zview srv r k)"
    and zadd_ttl: "k \<noteq> key \<Longrightarrow> zttl (ZADD cmds srv key score m r) k = zttl r k"
    and pexpire_view: "zview srv r key \<noteq> Map.empty \<Longrightarrow> 0 < ms \<Longrightarrow>
      zview srv (PEXPIRE cmds srv key ms r) k = zview srv r k"
    and pexpire_ttl: "zview srv r key \<noteq> Map.empty \<Longrightarrow> 0 < ms \<Longrightarrow>
      zttl (PEXPIRE cmds srv key ms r) k = (if k = key then Some (srv + ms) else zttl r k)"
    and pexpire_delete: "ms \<le> 0 \<Longrightarrow> zview srv (PEXPIRE cmds srv key ms r) k =
      (if k = key then Map.empty else zview srv r k)"

section \<open>A store that satisfies it\<close>

type_synonym ref_redis = "string \<Rightarrow> (string, int) fmap \<times> int option"

definition ref_live :: "int \<Rightarrow> ref_redis \<Rightarrow> string \<Rightarrow> (string, int) fmap \<times> int option" where
  "ref_live srv r k =
     (case snd (r k) of
        None \<Rightarrow> r k
      | Some e \<Rightarrow> if e \<le> srv then (fmempty, None) else r k)"

definition ref_view :: "int \<Rightarrow> ref_redis \<Rightarrow> string \<Rightarrow> (string \<rightharpoonup> int)" where
  "ref_view srv r k = fmlookup (fst (ref_live srv r k))"

definition ref_ttl :: "ref_redis \<Rightarrow> string \<Rightarrow> int option" where
  "ref_ttl r k = snd (r k)"

definition ref_newer :: "int \<Rightarrow> (string, int) fmap \<Rightarrow> (string, int) fmap" where
  "ref_newer c z = fmfilter (\<lambda>m. case fmlookup z m of None \<Rightarrow> False | Some s \<Rightarrow> c < s) z"

definition ref_zrem :: "int \<Rightarrow> string \<Rightarrow> int \<Rightarrow> ref_redis \<Rightarrow> ref_redis" where
  "ref_zrem srv key mx r =
     (let z = ref_newer mx (fst (ref_live srv r key))
      in r(key := (z, if z = fmempty then None else snd (ref_live srv r key))))"

definition ref_zcard :: "int \<Rightarrow> string \<Rightarrow> ref_redis \<Rightarrow> int" where
  "ref_zcard srv key r = int (fcard (fmdom (fst (ref_live srv r key))))"

definition ref_zadd :: "int \<Rightarrow> string \<Rightarrow> int \<Rightarrow> string \<Rightarrow> ref_redis \<Rightarrow> ref_redis" where
  "ref_zadd srv key score m r =
     r(key := (fmupd m score (fst (ref_live srv r key)), snd (ref_live srv r key)))"

definition ref_pexpire :: "int \<Rightarrow> string \<Rightarrow> int \<Rightarrow> ref_redis \<Rightarrow> ref_redis" where
  "ref_pexpire srv key ms r =
     (let z = fst (ref_live srv r key)
      in if z = fmempty \<or> ms \<le> 0 then r(key := (fmempty, None))
         else r(key := (z, Some (srv + ms))))"

definition ref_cmds :: "ref_redis redis_cmds" where
  "ref_cmds = \<lparr>ZREMRANGEBYSCORE = ref_zrem, ZCARD = ref_zcard, ZADD = ref_zadd, PEXPIRE = ref_pexpire\<rparr>"

definition ref_empty :: ref_redis where
  "ref_empty = (\<lambda>_. (fmempty, None))"

section \<open>Lemmas\<close>

lemma newer_Some_iff: "newer c z m = Some s \<longleftrightarrow> z m = Some s \<and> c < s"
  by (auto simp: newer_def split: option.splits)

lemma newer_newer [simp]: "newer c (newer d z) = newer (max c d) z"
  by (auto simp: newer_def fun_eq_iff split: option.splits)

lemma newer_empty [simp]: "newer c Map.empty = Map.empty"
  by (simp add: newer_def)

lemma newer_upd: "newer c (z(m \<mapsto> s)) = (if c < s then (newer c z)(m \<mapsto> s) else (newer c z)(m := None))"
  by (auto simp: newer_def fun_eq_iff)

lemma fmlookup_ref_newer [simp]: "fmlookup (ref_newer c z) = newer c (fmlookup z)"
  by (auto simp: ref_newer_def newer_def fun_eq_iff split: option.splits)

lemma ref_live_upd_other [simp]: "k \<noteq> key \<Longrightarrow> ref_live srv (r(key := x)) k = ref_live srv r k"
  by (simp add: ref_live_def split: option.splits)

lemma ref_live_no_ttl [simp]: "ref_live srv (r(key := (z, None))) key = (z, None)"
  by (simp add: ref_live_def)

lemma ref_live_zrem: "fst (ref_live srv (ref_zrem srv key mx r) key) = ref_newer mx (fst (ref_live srv r key))"
  by (cases "ref_newer mx (fst (ref_live srv r key)) = fmempty")
    (simp_all add: ref_zrem_def Let_def, simp add: ref_live_def split: option.splits)

lemma ref_live_idem [simp]: "ref_live srv (r(key := (z, snd (ref_live srv r key)))) key = (z, snd (ref_live srv r key))"
  by (simp add: ref_live_def split: option.splits)

lemma fmlookup_eq_empty_iff [simp]: "fmlookup z = Map.empty \<longleftrightarrow> z = fmempty"
  by (metis fmempty_lookup fmlookup_inject fun_eq_iff)

interpretation ref: redis_zset ref_cmds ref_view ref_ttl
proof (unfold_locales, goal_cases)
  case (1 srv srv' r k)
  then show ?case
    by (auto simp: ref_view_def ref_live_def ref_ttl_def split: option.splits if_splits)
next
  case (2 srv key mx r k)
  then show ?case
    by (cases "k = key") (simp_all add: ref_cmds_def ref_view_def ref_live_zrem, simp add: ref_zrem_def Let_def)
next
  case (3 srv key mx r k)
  then show ?case
    by (auto simp: ref_cmds_def ref_ttl_def ref_zrem_def Let_def ref_live_def split: option.splits)
next
  case (4 srv key r)
  then show ?case
    by (simp add: ref_cmds_def ref_zcard_def ref_view_def fmdom'_alt_def fcard.rep_eq)
next
  case (5 srv key score m r k)
  then show ?case
    by (cases "k = key") (auto simp: ref_cmds_def ref_view_def ref_zadd_def)
next
  case (6 k key srv score m r)
  then show ?case by (simp add: ref_cmds_def ref_zadd_def ref_ttl_def)
next
  case (7 srv r key ms k)
  then show ?case
    by (cases "k = key") (auto simp: ref_cmds_def ref_view_def ref_pexpire_def Let_def, auto simp: ref_live_def)
next
  case (8 srv r key ms k)
  then show ?case
    by (auto simp: ref_cmds_def ref_view_def ref_pexpire_def Let_def ref_ttl_def)
next
  case (9 ms srv key r k)
  then show ?case
    by (cases "k = key") (auto simp: ref_cmds_def ref_view_def ref_pexpire_def Let_def)
qed

end
