(* ===== verification/Sliding_Window.thy ===== *)
theory Sliding_Window
  imports Redis_Service
begin

text \<open>
  The sliding window script (\<^verbatim>\<open>src/internal/ratelimit/lua.go\<close>) that Redis runs
  atomically for every rate limit decision. \<open>slidingWindowLua\<close> is the script over the
  commands of \<open>Redis_Service\<close>; \<open>sw_run\<close> is a sequence of decisions for any mix of keys.

  The specification \<open>sw_spec\<close> keeps, per key, the times of all granted requests and
  grants a request iff fewer than the limit lie within the window before it. The theory
  proves that the script implements it on every service that obeys \<open>redis_zset\<close>, expiry
  of keys included, and that no window ever holds more grants than the limit.
\<close>

section \<open>Definitions\<close>

text \<open>
  Numbers in Lua are IEEE doubles: an integer argument is rounded to 53 significant bits,
  to nearest with ties to even.
\<close>

definition round_half_even :: "int \<Rightarrow> int \<Rightarrow> int" where
  "round_half_even a m =
     (let q = a div m; r = a mod m
      in if m < 2 * r \<or> (2 * r = m \<and> odd q) then q + 1 else q)"

fun bit_length :: "nat \<Rightarrow> nat" where
  "bit_length n = (if n = 0 then 0 else Suc (bit_length (n div 2)))"

declare bit_length.simps [simp del]

definition lua_number :: "int \<Rightarrow> int" where
  "lua_number n =
     (let m = 2 ^ (bit_length (nat \<bar>n\<bar>) - 53) in sgn n * (round_half_even \<bar>n\<bar> m * m))"

definition slidingWindowLua ::
  "'r redis_cmds \<Rightarrow> int \<Rightarrow> string \<Rightarrow> int \<Rightarrow> int \<Rightarrow> int \<Rightarrow> string \<Rightarrow> 'r \<Rightarrow> int \<times> 'r" where
  "slidingWindowLua cmds srv key argv1 argv2 argv3 member r =
     (let now = lua_number argv1;
          window = lua_number argv2;
          limit = lua_number argv3;
          clearBefore = lua_number (now - window);
          r1 = ZREMRANGEBYSCORE cmds srv key clearBefore r;
          count = ZCARD cmds srv key r1
      in if count < limit then
           (1, PEXPIRE cmds srv key window (ZADD cmds srv key now member r1))
         else (0, r1))"

text \<open>A sequence of decisions, as Redis serialises them.\<close>

record sw_call =
  c_key :: string
  c_srv :: int
  c_now :: int
  c_window :: int
  c_limit :: int
  c_member :: string

fun sw_run :: "'r redis_cmds \<Rightarrow> sw_call list \<Rightarrow> 'r \<Rightarrow> int list" where
  "sw_run cmds [] r = []"
| "sw_run cmds (c # cs) r =
     (case slidingWindowLua cmds (c_srv c) (c_key c) (c_now c) (c_window c) (c_limit c) (c_member c) r of
        (v, r') \<Rightarrow> v # sw_run cmds cs r')"

subsection \<open>The specification\<close>

definition recent :: "int \<Rightarrow> int list \<Rightarrow> nat" where
  "recent c ts = length (filter (\<lambda>s. c < s) ts)"

fun sw_spec :: "sw_call list \<Rightarrow> (string \<Rightarrow> int list) \<Rightarrow> int list" where
  "sw_spec [] hist = []"
| "sw_spec (c # cs) hist =
     (if int (recent (c_now c - c_window c) (hist (c_key c))) < c_limit c
      then 1 # sw_spec cs (hist(c_key c := hist (c_key c) @ [c_now c]))
      else 0 # sw_spec cs hist)"

definition granted_times :: "string \<Rightarrow> sw_call list \<Rightarrow> int list \<Rightarrow> int list" where
  "granted_times k calls replies =
     map (\<lambda>(c, v). c_now c) (filter (\<lambda>(c, v). c_key c = k \<and> v = 1) (zip calls replies))"

definition window_bound :: "int \<Rightarrow> int \<Rightarrow> int list \<Rightarrow> bool" where
  "window_bound w n ts \<longleftrightarrow> (\<forall>t. int (length (filter (\<lambda>s. t - w < s \<and> s \<le> t) ts)) \<le> n)"

text \<open>
  The assumptions on a sequence of calls: each key has one window and one limit (the policy
  is fixed and the key names tier and route), the numbers are exact as doubles, neither
  the gateways' clocks nor the server's run backwards, the server's clock does not run
  faster than the gateways', and no two calls use the same member (it holds a fresh UUID).
\<close>

definition call_ok :: "(string \<Rightarrow> int) \<Rightarrow> (string \<Rightarrow> int) \<Rightarrow> sw_call \<Rightarrow> bool" where
  "call_ok win lim c \<longleftrightarrow> c_window c = win (c_key c) \<and> c_limit c = lim (c_key c) \<and>
     0 < c_window c \<and> 0 \<le> c_limit c \<and> c_window c < 2 ^ 53 \<and> c_limit c < 2 ^ 53 \<and>
     0 \<le> c_now c \<and> c_now c < 2 ^ 53"

definition clocks_ok :: "sw_call list \<Rightarrow> bool" where
  "clocks_ok calls \<longleftrightarrow> sorted_wrt (\<lambda>a b. c_now a \<le> c_now b \<and> c_srv a \<le> c_srv b \<and>
     c_srv b - c_srv a \<le> c_now b - c_now a) calls"

definition calls_ok :: "(string \<Rightarrow> int) \<Rightarrow> (string \<Rightarrow> int) \<Rightarrow> sw_call list \<Rightarrow> bool" where
  "calls_ok win lim calls \<longleftrightarrow>
     list_all (call_ok win lim) calls \<and> clocks_ok calls \<and> distinct (map c_member calls)"

text \<open>
  The simulation relation: \<open>hist k\<close> lists the grants of key \<open>k\<close> with their members; the
  sorted set agrees with it on everything inside the window, and the key's expiry is not
  before the last grant leaves the window.
\<close>

definition sw_rel ::
  "(int \<Rightarrow> 'r \<Rightarrow> string \<Rightarrow> (string \<rightharpoonup> int)) \<Rightarrow> ('r \<Rightarrow> string \<Rightarrow> int option) \<Rightarrow> (string \<Rightarrow> int)
     \<Rightarrow> (string \<Rightarrow> (string \<times> int) list) \<Rightarrow> int \<Rightarrow> int \<Rightarrow> 'r \<Rightarrow> bool" where
  "sw_rel zview zttl win hist srv now r \<longleftrightarrow>
     (\<forall>k. newer (now - win k) (zview srv r k) = map_of (filter (\<lambda>(m, s). now - win k < s) (hist k)) \<and>
          (\<forall>e m s. zttl r k = Some e \<longrightarrow> (m, s) \<in> set (hist k) \<longrightarrow> s + win k + (srv - now) \<le> e) \<and>
          distinct (map fst (hist k)) \<and> (\<forall>(m, s) \<in> set (hist k). s \<le> now))"

text \<open>A server without keys.\<close>

definition no_keys ::
  "(int \<Rightarrow> 'r \<Rightarrow> string \<Rightarrow> (string \<rightharpoonup> int)) \<Rightarrow> ('r \<Rightarrow> string \<Rightarrow> int option) \<Rightarrow> 'r \<Rightarrow> bool" where
  "no_keys zview zttl r \<longleftrightarrow> (\<forall>srv k. zview srv r k = Map.empty) \<and> (\<forall>k. zttl r k = None)"

section \<open>Lemmas\<close>

lemma bit_length_le: "n < 2 ^ k \<Longrightarrow> bit_length n \<le> k"
proof (induction k arbitrary: n)
  case 0
  then show ?case by (simp add: bit_length.simps)
next
  case (Suc k)
  then have "n div 2 < 2 ^ k" by simp
  then show ?case using Suc.IH by (simp add: bit_length.simps [of n])
qed

lemma lua_number_exact [simp]:
  assumes "\<bar>n\<bar> < 2 ^ 53"
  shows "lua_number n = n"
proof -
  have "nat \<bar>n\<bar> < 2 ^ 53" using assms by simp
  then have "bit_length (nat \<bar>n\<bar>) \<le> 53" by (rule bit_length_le)
  then show ?thesis
    by (simp add: lua_number_def round_half_even_def mult_sgn_abs)
qed

lemma newer_map_of_apply:
  "distinct (map fst xs) \<Longrightarrow> newer c (map_of xs) m = map_of (filter (\<lambda>(m, s). c < s) xs) m"
proof (induction xs)
  case (Cons x xs)
  then have "map_of xs (fst x) = None" by (simp add: map_of_eq_None_iff)
  with Cons show ?case by (cases x) (auto simp: newer_def)
qed simp

lemma newer_map_of:
  "distinct (map fst xs) \<Longrightarrow> newer c (map_of xs) = map_of (filter (\<lambda>(m, s). c < s) xs)"
  by (rule ext) (rule newer_map_of_apply)

lemma card_dom_map_of:
  assumes "distinct (map fst xs)"
  shows "card (dom (map_of xs)) = length xs"
proof -
  have "card (dom (map_of xs)) = card (set (map fst xs))"
    by (simp add: dom_map_of_conv_image_fst)
  also have "\<dots> = length (map fst xs)" using assms by (rule distinct_card)
  finally show ?thesis by simp
qed

lemma filter_later:
  "d \<le> c \<Longrightarrow> filter (\<lambda>(m, s). c < s) (filter (\<lambda>(m, s). d < s) xs) = filter (\<lambda>(m, s). c < (s :: int)) xs"
  by (auto intro!: filter_cong simp: case_prod_unfold)

lemma distinct_map_fst_filter: "distinct (map fst xs) \<Longrightarrow> distinct (map fst (filter P xs))"
  by (rule distinct_map_filter)

lemma sw_relD:
  assumes "sw_rel zview zttl win hist srv now r"
  shows "newer (now - win k) (zview srv r k) = map_of (filter (\<lambda>(m, s). now - win k < s) (hist k))"
    and "zttl r k = Some e \<Longrightarrow> (m, s) \<in> set (hist k) \<Longrightarrow> s + win k + (srv - now) \<le> e"
    and "distinct (map fst (hist k))"
    and "(m, s) \<in> set (hist k) \<Longrightarrow> s \<le> now"
  using assms by (auto simp: sw_rel_def)

lemma recent_pairs: "recent c (map snd xs) = length (filter (\<lambda>(m, s). c < s) xs)"
  by (simp add: recent_def filter_map comp_def case_prod_unfold)

context redis_zset
begin

text \<open>Time passes: grants leave the window, and a key may expire once all have left.\<close>

lemma sw_rel_advance:
  assumes rel: "sw_rel zview zttl win hist srv now r"
    and clocks: "now \<le> now'" "srv \<le> srv'" "srv' - srv \<le> now' - now"
  shows "sw_rel zview zttl win hist srv' now' r"
  unfolding sw_rel_def
proof (intro allI conjI impI)
  fix k
  note D = sw_relD [OF rel]
  have split: "map_of (filter (\<lambda>(m, s). now' - win k < s) (hist k))
      = newer (now' - win k) (newer (now - win k) (zview srv r k))"
    using clocks(1)
    by (simp add: D(1) newer_map_of distinct_map_fst_filter D(3) filter_later del: newer_newer filter_filter)
  from expire_law [OF clocks(2), of r k]
  show "newer (now' - win k) (zview srv' r k) = map_of (filter (\<lambda>(m, s). now' - win k < s) (hist k))"
  proof
    assume "zview srv' r k = zview srv r k"
    then show ?thesis unfolding split using clocks(1) by (simp add: max_def)
  next
    assume gone: "zview srv' r k = Map.empty \<and> (\<exists>e. zttl r k = Some e \<and> e \<le> srv')"
    then obtain e where e: "zttl r k = Some e" "e \<le> srv'" by blast
    have "s \<le> now' - win k" if "(m, s) \<in> set (hist k)" for m s
      using D(2) [OF e(1) that] e(2) clocks(3) by linarith
    then have "filter (\<lambda>(m, s). now' - win k < s) (hist k) = []"
      by (fastforce simp: filter_empty_conv)
    with gone show ?thesis by simp
  qed
  show "distinct (map fst (hist k))" by (rule D(3))
  show "\<forall>(m, s) \<in> set (hist k). s \<le> now'" using D(4) clocks(1) by fastforce
  fix e m s
  assume "zttl r k = Some e" "(m, s) \<in> set (hist k)"
  then show "s + win k + (srv' - now') \<le> e" using D(2) [of k e m s] clocks(3) by linarith
qed

text \<open>Removing what is outside the window changes nothing inside it.\<close>

lemma sw_rel_zrem:
  fixes key :: string
  assumes rel: "sw_rel zview zttl win hist srv now r"
  defines "r1 \<equiv> ZREMRANGEBYSCORE cmds srv key (now - win key) r"
  shows "sw_rel zview zttl win hist srv now r1"
    and "zview srv r1 key = map_of (filter (\<lambda>(m, s). now - win key < s) (hist key))"
proof -
  note D = sw_relD [OF rel]
  show view: "zview srv r1 key = map_of (filter (\<lambda>(m, s). now - win key < s) (hist key))"
    by (simp add: r1_def zrem_view D(1))
  have ttl: "zttl r1 k = zttl r k \<or> zttl r1 k = None" for k
    using zrem_ttl [of srv key "now - win key" r k] by (auto simp: r1_def)
  have "newer (now - win k) (zview srv r1 k) = map_of (filter (\<lambda>(m, s). now - win k < s) (hist k))" for k
  proof (cases "k = key")
    case True
    then have "zview srv r1 k = newer (now - win k) (zview srv r k)" by (simp add: r1_def zrem_view)
    then have "newer (now - win k) (zview srv r1 k) = newer (now - win k) (zview srv r k)" by simp
    also note D(1)
    finally show ?thesis .
  next
    case False
    then show ?thesis by (simp add: r1_def zrem_view D(1))
  qed
  then show "sw_rel zview zttl win hist srv now r1"
    unfolding sw_rel_def
  proof (intro allI conjI impI)
    fix k e m s
    assume "zttl r1 k = Some e" "(m, s) \<in> set (hist k)"
    with ttl [of k] show "s + win k + (srv - now) \<le> e" by (auto intro: D(2))
  qed (use D(3,4) in auto)
qed

text \<open>Recording a grant.\<close>

lemma sw_rel_grant:
  assumes rel: "sw_rel zview zttl win hist srv now r" and w: "0 < win key"
    and view: "zview srv r key = map_of (filter (\<lambda>(m, s). now - win key < s) (hist key))"
    and fresh: "m0 \<notin> fst ` set (hist key)"
  defines "r2 \<equiv> PEXPIRE cmds srv key (win key) (ZADD cmds srv key now m0 r)"
  shows "sw_rel zview zttl win (hist(key := hist key @ [(m0, now)])) srv now r2"
proof -
  note D = sw_relD [OF rel]
  let ?r' = "ZADD cmds srv key now m0 r"
  have ne: "zview srv ?r' key \<noteq> Map.empty" by (simp add: zadd_view)
  have v: "zview srv r2 k = (if k = key then (zview srv r k)(m0 \<mapsto> now) else zview srv r k)" for k
    by (simp add: r2_def pexpire_view [OF ne w] zadd_view)
  have t: "zttl r2 k = (if k = key then Some (srv + win key) else zttl r k)" for k
    by (simp add: r2_def pexpire_ttl [OF ne w] zadd_ttl)
  have m0: "map_of (filter (\<lambda>(m, s). now - win key < s) (hist key)) m0 = None"
    using fresh by (auto simp: map_of_eq_None_iff)
  have key: "newer (now - win key) (zview srv r2 key)
      = map_of (filter (\<lambda>(m, s). now - win key < s) (hist key @ [(m0, now)]))"
  proof
    fix m
    show "newer (now - win key) (zview srv r2 key) m
        = map_of (filter (\<lambda>(m, s). now - win key < s) (hist key @ [(m0, now)])) m"
      using w m0 fun_cong [OF D(1) [of key], of m] view
      by (auto simp: v newer_upd map_add_def split: option.splits)
  qed
  show ?thesis
    unfolding sw_rel_def
  proof (intro allI conjI impI)
    fix k
    show "newer (now - win k) (zview srv r2 k)
        = map_of (filter (\<lambda>(m, s). now - win k < s) ((hist(key := hist key @ [(m0, now)])) k))"
      using key D(1) [of k] by (cases "k = key") (simp_all add: v)
    show "distinct (map fst ((hist(key := hist key @ [(m0, now)])) k))"
      using D(3) [of k] fresh by auto
    show "\<forall>(m, s) \<in> set ((hist(key := hist key @ [(m0, now)])) k). s \<le> now"
      using D(4) by auto
    fix e m s
    assume "zttl r2 k = Some e" "(m, s) \<in> set ((hist(key := hist key @ [(m0, now)])) k)"
    then show "s + win k + (srv - now) \<le> e"
      using D(2) [of k e m s] D(4) [of m s key] by (auto simp: t split: if_splits)
  qed
qed

text \<open>One run of the script: its answer and the relation afterwards.\<close>

lemma script_step:
  assumes rel: "sw_rel zview zttl win hist (c_srv c) (c_now c) r" and ok: "call_ok win lim c"
    and fresh: "c_member c \<notin> fst ` set (hist (c_key c))"
    and run: "slidingWindowLua cmds (c_srv c) (c_key c) (c_now c) (c_window c) (c_limit c) (c_member c) r = (v, r')"
  shows "if int (recent (c_now c - c_window c) (map snd (hist (c_key c)))) < c_limit c
    then v = 1 \<and> sw_rel zview zttl win (hist(c_key c := hist (c_key c) @ [(c_member c, c_now c)])) (c_srv c) (c_now c) r'
    else v = 0 \<and> sw_rel zview zttl win hist (c_srv c) (c_now c) r'"
proof -
  let ?k = "c_key c" and ?now = "c_now c" and ?srv = "c_srv c"
  from ok have w: "c_window c = win ?k" "0 < win ?k"
    and exact: "lua_number ?now = ?now" "lua_number (win ?k) = win ?k"
      "lua_number (c_limit c) = c_limit c" "lua_number (?now - win ?k) = ?now - win ?k"
    by (auto simp: call_ok_def)
  let ?r1 = "ZREMRANGEBYSCORE cmds ?srv ?k (?now - win ?k) r"
  note rem = sw_rel_zrem [OF rel, of ?k]
  have "ZCARD cmds ?srv ?k ?r1 = int (recent (?now - win ?k) (map snd (hist ?k)))"
    by (simp add: zcard_view rem(2) card_dom_map_of distinct_map_fst_filter sw_relD(3) [OF rel] recent_pairs)
  with run w exact rem(1) sw_rel_grant [OF rem(1) w(2) rem(2) fresh] show ?thesis
    by (auto simp: slidingWindowLua_def Let_def split: if_splits)
qed

lemma sw_run_refines:
  assumes "sw_rel zview zttl win hist srv now r"
    and "list_all (call_ok win lim) calls" and "clocks_ok calls" and "distinct (map c_member calls)"
    and "\<forall>c \<in> set calls. now \<le> c_now c \<and> srv \<le> c_srv c \<and> c_srv c - srv \<le> c_now c - now"
    and "\<forall>c \<in> set calls. \<forall>k. c_member c \<notin> fst ` set (hist k)"
  shows "sw_run cmds calls r = sw_spec calls (\<lambda>k. map snd (hist k))"
  using assms
proof (induction calls arbitrary: hist srv now r)
  case Nil
  then show ?case by simp
next
  case (Cons c cs)
  from Cons.prems have ok: "call_ok win lim c" and fresh: "c_member c \<notin> fst ` set (hist (c_key c))"
    by simp_all
  have rel: "sw_rel zview zttl win hist (c_srv c) (c_now c) r"
    by (rule sw_rel_advance [OF Cons.prems(1)]) (use Cons.prems(5) in auto)
  obtain v r' where run: "slidingWindowLua cmds (c_srv c) (c_key c) (c_now c) (c_window c)
      (c_limit c) (c_member c) r = (v, r')" by fastforce
  note step = script_step [OF rel ok fresh run]
  have IH: "sw_run cmds cs r' = sw_spec cs (\<lambda>k. map snd (hist' k))"
    if "sw_rel zview zttl win hist' (c_srv c) (c_now c) r'"
      and "\<forall>d \<in> set cs. \<forall>k. c_member d \<notin> fst ` set (hist' k)" for hist'
    using Cons.IH [OF that(1)] that(2) Cons.prems(2-4) by (simp add: clocks_ok_def)
  let ?hist' = "hist(c_key c := hist (c_key c) @ [(c_member c, c_now c)])"
  have upd: "(\<lambda>k. map snd (?hist' k)) = (\<lambda>k. map snd (hist k))(c_key c := map snd (hist (c_key c)) @ [c_now c])"
    by auto
  have "\<forall>d \<in> set cs. \<forall>k. c_member d \<notin> fst ` set (?hist' k)"
  proof (intro ballI allI)
    fix d k
    assume d: "d \<in> set cs"
    with Cons.prems(4) have "c_member d \<noteq> c_member c" by (metis distinct.simps(2) image_eqI list.simps(9) set_map)
    with d Cons.prems(6) show "c_member d \<notin> fst ` set (?hist' k)" by simp
  qed
  with step IH [of ?hist', unfolded upd] IH [of hist] Cons.prems(6) show ?case
    by (simp add: run split: if_splits del: fun_upd_apply)
qed

end

subsection \<open>The specification keeps every window within the limit\<close>

lemma granted_times_Cons [simp]:
  "granted_times k (c # cs) (v # vs) =
     (if c_key c = k \<and> v = 1 then c_now c # granted_times k cs vs else granted_times k cs vs)"
  by (simp add: granted_times_def)

lemma granted_times_Nil [simp]: "granted_times k [] vs = []"
  by (simp add: granted_times_def)

lemma window_bound_snoc:
  assumes bound: "window_bound w n ts" and last: "\<forall>s \<in> set ts. s \<le> now"
    and free: "int (recent (now - w) ts) < n"
  shows "window_bound w n (ts @ [now])"
  unfolding window_bound_def
proof
  fix t
  let ?in = "\<lambda>s. t - w < s \<and> s \<le> t"
  show "int (length (filter ?in (ts @ [now]))) \<le> n"
  proof (cases "now \<le> t")
    case True
    have "length (filter ?in ts) \<le> recent (now - w) ts"
      unfolding recent_def by (rule length_filter_mono) (use True in auto)
    with free show ?thesis by simp
  next
    case False
    with bound show ?thesis by (simp add: window_bound_def)
  qed
qed

lemma sw_spec_bound:
  assumes "list_all (call_ok win lim) calls" and "clocks_ok calls"
    and "window_bound (win k) (lim k) (hist k)"
    and "\<forall>s \<in> set (hist k). \<forall>c \<in> set calls. s \<le> c_now c"
  shows "window_bound (win k) (lim k) (hist k @ granted_times k calls (sw_spec calls hist))"
  using assms
proof (induction calls arbitrary: hist)
  case Nil
  then show ?case by simp
next
  case (Cons c cs)
  let ?ok = "int (recent (c_now c - c_window c) (hist (c_key c))) < c_limit c"
  let ?hist' = "if ?ok then hist(c_key c := hist (c_key c) @ [c_now c]) else hist"
  from Cons.prems have ok: "c_window c = win (c_key c)" "c_limit c = lim (c_key c)"
    by (simp_all add: call_ok_def)
  have "window_bound (win k) (lim k) (?hist' k)"
    using Cons.prems(3,4) ok window_bound_snoc [of "win k" "lim k" "hist k" "c_now c"] by auto
  moreover have "\<forall>s \<in> set (?hist' k). \<forall>d \<in> set cs. s \<le> c_now d"
    using Cons.prems(2,4) by (auto simp: clocks_ok_def)
  ultimately have "window_bound (win k) (lim k) (?hist' k @ granted_times k cs (sw_spec cs ?hist'))"
    using Cons.prems(1,2) by (intro Cons.IH) (auto simp: clocks_ok_def)
  then show ?case by (cases ?ok; cases "c_key c = k") simp_all
qed

lemma sw_rel_empty: "no_keys zview zttl r \<Longrightarrow> sw_rel zview zttl win (\<lambda>_. []) srv now r"
  by (simp add: sw_rel_def no_keys_def)

lemma sw_run_from_empty:
  assumes redis: "redis_zset cmds zview zttl"
    and empty: "no_keys zview zttl r"
    and ok: "calls_ok win lim calls"
  shows "sw_run cmds calls r = sw_spec calls (\<lambda>_. [])"
proof (cases calls)
  case (Cons c cs)
  have "sw_run cmds calls r = sw_spec calls (\<lambda>k. map snd ([] :: (string \<times> int) list))"
    by (rule redis_zset.sw_run_refines [OF redis sw_rel_empty [OF empty, of win "c_srv c" "c_now c"]])
      (use ok Cons in \<open>auto simp: calls_ok_def clocks_ok_def\<close>)
  then show ?thesis by simp
qed simp

lemma sw_run_bound:
  assumes redis: "redis_zset cmds zview zttl" and empty: "no_keys zview zttl r"
    and ok: "calls_ok win lim calls" and lim: "0 \<le> lim k"
  shows "window_bound (win k) (lim k) (granted_times k calls (sw_run cmds calls r))"
proof -
  have start: "window_bound (win k) (lim k) []" using lim by (simp add: window_bound_def)
  have "sw_run cmds calls r = sw_spec calls (\<lambda>_. [])"
    by (rule sw_run_from_empty [OF redis empty ok])
  with sw_spec_bound [of win lim calls k "\<lambda>_. []"] start ok show ?thesis by (simp add: calls_ok_def)
qed

section \<open>Properties\<close>


definition sample_call :: "int \<Rightarrow> string \<Rightarrow> sw_call" where
  "sample_call now m = \<lparr>c_key = ''rate_limit:Pro:/a:pro-key'', c_srv = now + 7, c_now = now,
     c_window = 100, c_limit = 2, c_member = m\<rparr>"

definition sample_calls :: "sw_call list" where
  "sample_calls = [sample_call 1000 ''a'', sample_call 1010 ''b'', sample_call 1020 ''c'', sample_call 1105 ''d'']"

lemma sample_calls_ok: "calls_ok (\<lambda>_. 100) (\<lambda>_. 2) sample_calls"
  by (simp add: calls_ok_def clocks_ok_def sample_calls_def sample_call_def call_ok_def)

lemma ref_empty_no_keys: "no_keys ref_view ref_ttl ref_empty"
  by (simp add: no_keys_def ref_view_def ref_live_def ref_empty_def ref_ttl_def)




end
