(* ===== verification/Rate_Limiter.thy ===== *)
theory Rate_Limiter
  imports Sharded_Cache Rate_Policy Sliding_Window "HOL-Library.Sublist"
begin

text \<open>
  The rate limiter (\<^verbatim>\<open>src/internal/ratelimit/ratelimiter.go\<close>): the two-tier limiter
  that asks the sliding window script in Redis (L2) and caches its positive answers in
  the sharded cache (L1), the listener that evicts keys on invalidation messages, and the
  stub used when Redis is down.

  The Redis client is an argument: \<open>rdb_Eval\<close> runs the script, \<open>rdb_Publish\<close> publishes
  a message; both may change the server's state \<open>'r\<close>, and \<open>rdb_Eval\<close> may fail. What
  the script answers is the subject of \<open>Sliding_Window\<close>.
\<close>

section \<open>Definitions\<close>

text \<open>Dynamic values of \<^verbatim>\<open>interface{}\<close>, as stored in the cache.\<close>

datatype iface = BoolV bool | IntV int | StringV string

text \<open>Replies of the Redis client: \<open>RInt\<close> is Go's \<^verbatim>\<open>int64\<close>.\<close>

datatype redis_reply = RInt int | ROther string \<comment> \<open>any other value, as \<^verbatim>\<open>%v\<close> prints it\<close>

datatype limiter_error = LimiterError string | IndexPanic

record Stats =
  AllowedRequests :: int
  RejectedRequests :: int

record 'r redis_client =
  rdb_Eval :: "int \<Rightarrow> string \<Rightarrow> int \<Rightarrow> int \<Rightarrow> int \<Rightarrow> string \<Rightarrow> 'r \<Rightarrow> (string + redis_reply) \<times> 'r"
  rdb_Publish :: "string \<Rightarrow> string \<Rightarrow> 'r \<Rightarrow> 'r"

record TwoTierRateLimiter =
  l1 :: "iface ShardedCache"
  allowedCount :: int
  rejectedCount :: int

definition NewTwoTierRateLimiter :: "iface ShardedCache \<Rightarrow> TwoTierRateLimiter" where
  "NewTwoTierRateLimiter c = \<lparr>l1 = c, allowedCount = 0, rejectedCount = 0\<rparr>"

text \<open>
  One call of \<^verbatim>\<open>Allow\<close>: its arguments and what it reads of the world, the clock at its
  three readings, the server's clock when the script runs and the fresh UUID.
\<close>

record allow_call =
  a_key :: string
  a_limit :: Limit
  t_get :: gotime
  t_now :: gotime
  t_set :: gotime
  t_srv :: int
  a_uuid :: string

definition now_ms :: "gotime \<Rightarrow> int" where
  "now_ms now = unix_nano now sdiv Millisecond"

definition window_ms :: "Limit \<Rightarrow> int" where
  "window_ms limit = Window limit sdiv Millisecond"

definition member_name :: "gotime \<Rightarrow> string \<Rightarrow> string" where
  "member_name now uuid = show_int (unix_nano now) @ '':'' @ uuid"

definition l1TTL :: "Limit \<Rightarrow> duration" where
  "l1TTL limit = (let ttl = Window limit sdiv 10 in if ttl > Second then Second else ttl)"

definition TwoTier_Allow ::
  "'r redis_client \<Rightarrow> allow_call \<Rightarrow> TwoTierRateLimiter \<times> 'r
     \<Rightarrow> (limiter_error + bool) \<times> TwoTierRateLimiter \<times> 'r" where
  "TwoTier_Allow rdb a s =
     (let (t, r) = s; key = a_key a; limit = a_limit a in
      case Cache_Get (t_get a) (l1 t) key of
        None \<Rightarrow> (Inl IndexPanic, t, r)
      | Some found \<Rightarrow>
          if found = Some (BoolV True) then
            (Inr True, t\<lparr>allowedCount := i64 (allowedCount t + 1)\<rparr>, r)
          else
            (case rdb_Eval rdb (t_srv a) key (now_ms (t_now a)) (window_ms limit)
                    (Requests limit) (member_name (t_now a) (a_uuid a)) r of
               (Inl err, r') \<Rightarrow>
                 (Inl (LimiterError (''failed to execute rate limit lua script: '' @ err)), t, r')
             | (Inr (ROther res), r') \<Rightarrow>
                 (Inl (LimiterError (''unexpected lua script response: '' @ res)), t, r')
             | (Inr (RInt allowedVal), r') \<Rightarrow>
                 if allowedVal = 1 then
                   (case Cache_Set (t_set a) (l1 t) key (BoolV True) (l1TTL limit) of
                      None \<Rightarrow> (Inl IndexPanic, t, r')
                    | Some c \<Rightarrow>
                        (Inr True, t\<lparr>l1 := c, allowedCount := i64 (allowedCount t + 1)\<rparr>, r'))
                 else
                   (Inr False, t\<lparr>rejectedCount := i64 (rejectedCount t + 1)\<rparr>,
                    rdb_Publish rdb ''apishield:invalidation'' key r')))"

definition TwoTier_Stats :: "TwoTierRateLimiter \<Rightarrow> Stats" where
  "TwoTier_Stats t = \<lparr>AllowedRequests = allowedCount t, RejectedRequests = rejectedCount t\<rparr>"

text \<open>
  The goroutine of \<^verbatim>\<open>StartInvalidationListener\<close>: what its \<^verbatim>\<open>select\<close> receives, one event
  per iteration, until the context is done or the channel is closed. \<open>None\<close> is an index
  panic of the cache.
\<close>

datatype listener_event = CtxDone | ChanClosed | Message string

fun StartInvalidationListener ::
  "listener_event list \<Rightarrow> TwoTierRateLimiter \<Rightarrow> TwoTierRateLimiter option" where
  "StartInvalidationListener [] t = Some t"
| "StartInvalidationListener (CtxDone # es) t = Some t"
| "StartInvalidationListener (ChanClosed # es) t = Some t"
| "StartInvalidationListener (Message payload # es) t =
     (case Cache_Delete (l1 t) payload of
        None \<Rightarrow> None
      | Some c \<Rightarrow> StartInvalidationListener es (t\<lparr>l1 := c\<rparr>))"

record StubRateLimiter =
  stub_allowedCount :: int
  stub_rejectedCount :: int

definition NewStubRateLimiter :: StubRateLimiter where
  "NewStubRateLimiter = \<lparr>stub_allowedCount = 0, stub_rejectedCount = 0\<rparr>"

definition Stub_Allow :: "allow_call \<Rightarrow> StubRateLimiter \<Rightarrow> (limiter_error + bool) \<times> StubRateLimiter" where
  "Stub_Allow a s = (Inr True, s\<lparr>stub_allowedCount := i64 (stub_allowedCount s + 1)\<rparr>)"

definition Stub_Stats :: "StubRateLimiter \<Rightarrow> Stats" where
  "Stub_Stats s = \<lparr>AllowedRequests = stub_allowedCount s, RejectedRequests = stub_rejectedCount s\<rparr>"

subsection \<open>Runs\<close>

text \<open>Calls one after the other on one limiter, whichever implementation it is.\<close>

fun limiter_run ::
  "(allow_call \<Rightarrow> 's \<Rightarrow> (limiter_error + bool) \<times> 's) \<Rightarrow> allow_call list \<Rightarrow> 's
     \<Rightarrow> (limiter_error + bool) list \<times> 's" where
  "limiter_run allow [] s = ([], s)"
| "limiter_run allow (a # as) s =
     (let (res, s') = allow a s; (rest, s'') = limiter_run allow as s' in (res # rest, s''))"

text \<open>
  A cluster of gateways, numbered, sharing one Redis: a gateway asks its limiter, or its
  listener handles the messages that arrived. The run lists, for every call, whether L1
  answered it and the outcome.
\<close>

datatype cluster_event = Ask nat allow_call | Evict nat "listener_event list"

definition l1_hit :: "TwoTierRateLimiter \<Rightarrow> allow_call \<Rightarrow> bool" where
  "l1_hit t a \<longleftrightarrow> Cache_Get (t_get a) (l1 t) (a_key a) = Some (Some (BoolV True))"

fun cluster_run ::
  "'r redis_client \<Rightarrow> cluster_event list \<Rightarrow> (nat \<Rightarrow> TwoTierRateLimiter) \<Rightarrow> 'r
     \<Rightarrow> (allow_call \<times> bool \<times> (limiter_error + bool)) list" where
  "cluster_run rdb [] nodes r = []"
| "cluster_run rdb (Ask i a # evs) nodes r =
     (case TwoTier_Allow rdb a (nodes i, r) of
        (out, t', r') \<Rightarrow> (a, l1_hit (nodes i) a, out) # cluster_run rdb evs (nodes(i := t')) r')"
| "cluster_run rdb (Evict i es # evs) nodes r =
     (case StartInvalidationListener es (nodes i) of
        None \<Rightarrow> []
      | Some t' \<Rightarrow> cluster_run rdb evs (nodes(i := t')) r)"

fun asked :: "cluster_event list \<Rightarrow> allow_call list" where
  "asked [] = []"
| "asked (Ask i a # evs) = a # asked evs"
| "asked (Evict i es # evs) = asked evs"

definition script_call :: "allow_call \<Rightarrow> sw_call" where
  "script_call a = \<lparr>c_key = a_key a, c_srv = t_srv a, c_now = now_ms (t_now a),
     c_window = window_ms (a_limit a), c_limit = Requests (a_limit a),
     c_member = member_name (t_now a) (a_uuid a)\<rparr>"

text \<open>The times of the requests for a key that Redis itself granted.\<close>

definition l2_grants :: "string \<Rightarrow> (allow_call \<times> bool \<times> (limiter_error + bool)) list \<Rightarrow> int list" where
  "l2_grants k outs =
     map (\<lambda>(a, hit, out). now_ms (t_now a))
       (filter (\<lambda>(a, hit, out). a_key a = k \<and> \<not> hit \<and> out = Inr True) outs)"

text \<open>A client that reaches the server: it runs the script, and publishing changes no key.\<close>

definition reliable_client :: "'r redis_cmds \<Rightarrow> 'r redis_client \<Rightarrow> bool" where
  "reliable_client cmds rdb \<longleftrightarrow>
     (\<forall>srv key now w n m r. rdb_Eval rdb srv key now w n m r =
        (let (v, r') = slidingWindowLua cmds srv key now w n m r in (Inr (RInt v), r'))) \<and>
     (\<forall>ch msg r. rdb_Publish rdb ch msg r = r)"

definition script_client :: "'r redis_cmds \<Rightarrow> 'r redis_client" where
  "script_client cmds =
     \<lparr>rdb_Eval = (\<lambda>srv key now w n m r.
        let (v, r') = slidingWindowLua cmds srv key now w n m r in (Inr (RInt v), r')),
      rdb_Publish = (\<lambda>ch msg r. r)\<rparr>"

text \<open>The grants a gateway's cache rests on: the requests Redis granted, latest first.\<close>

fun node_run ::
  "'r redis_client \<Rightarrow> cluster_event list \<Rightarrow> TwoTierRateLimiter \<times> 'r \<times> allow_call list
     \<Rightarrow> (TwoTierRateLimiter \<times> 'r \<times> allow_call list) option" where
  "node_run rdb [] s = Some s"
| "node_run rdb (Ask i a # evs) (t, r, g) =
     (case TwoTier_Allow rdb a (t, r) of
        (out, t', r') \<Rightarrow>
          node_run rdb evs (t', r', if out = Inr True \<and> \<not> l1_hit t a then a # g else g))"
| "node_run rdb (Evict i es # evs) (t, r, g) =
     (case StartInvalidationListener es t of
        None \<Rightarrow> None
      | Some t' \<Rightarrow> node_run rdb evs (t', r, g))"

definition sane_call :: "allow_call \<Rightarrow> bool" where
  "sane_call a \<longleftrightarrow> 10 \<le> Window (a_limit a) \<and> 0 \<le> t_set a \<and> t_set a < 2 ^ 62"

section \<open>Lemmas\<close>

lemma l1TTL_min: "0 \<le> Window l \<Longrightarrow> l1TTL l = min Second (Window l div 10)"
  by (auto simp: l1TTL_def Let_def signed_divide_int_def sgn_if)

lemma l1TTL_nonpos: "Window l < 10 \<Longrightarrow> l1TTL l \<le> 0"
  by (auto simp: l1TTL_def Let_def signed_divide_int_def sgn_if)

lemma Cache_Set_SomeD:
  assumes "Cache_Set now c k v ttl = Some c'" and "wf_cache c"
  shows "wf_cache c'" and "cache_entries c' = (cache_entries c)(k \<mapsto> new_item now v ttl)"
  using Cache_Set_wf [OF assms(2), of now k v ttl] assms(1) by auto

lemma Cache_Delete_SomeD:
  assumes "Cache_Delete c k = Some c'" and "wf_cache c"
  shows "wf_cache c'" and "cache_entries c' = (cache_entries c)(k := None)"
  using Cache_Delete_wf [OF assms(2), of k] assms(1) by auto

lemma Allow_hit:
  assumes "l1_hit t a"
  shows "TwoTier_Allow rdb a (t, r) = (Inr True, t\<lparr>allowedCount := i64 (allowedCount t + 1)\<rparr>, r)"
  using assms by (simp add: TwoTier_Allow_def l1_hit_def Let_def)

text \<open>Every outcome of \<open>Allow\<close> on a well-formed cache: L1 hit, grant, denial or error.\<close>

lemma Allow_cases [consumes 2, case_names hit grant deny fail]:
  assumes "TwoTier_Allow rdb a (t, r) = (out, t', r')" and "wf_cache (l1 t)"
  obtains "l1_hit t a" "out = Inr True" "t' = t\<lparr>allowedCount := i64 (allowedCount t + 1)\<rparr>" "r' = r"
  | c where "\<not> l1_hit t a" "out = Inr True" "t' = t\<lparr>l1 := c, allowedCount := i64 (allowedCount t + 1)\<rparr>"
      "wf_cache c" "cache_entries c = (cache_entries (l1 t))(a_key a \<mapsto>
         new_item (t_set a) (BoolV True) (l1TTL (a_limit a)))"
  | "\<not> l1_hit t a" "out = Inr False" "t' = t\<lparr>rejectedCount := i64 (rejectedCount t + 1)\<rparr>"
  | e where "\<not> l1_hit t a" "out = Inl (LimiterError e)" "t' = t"
proof (cases "l1_hit t a")
  case True
  with assms(1) Allow_hit [OF True, of rdb r] show ?thesis by (auto intro: that(1))
next
  case miss: False
  obtain c where set: "Cache_Set (t_set a) (l1 t) (a_key a) (BoolV True) (l1TTL (a_limit a)) = Some c"
    "wf_cache c" "cache_entries c = (cache_entries (l1 t))(a_key a \<mapsto>
         new_item (t_set a) (BoolV True) (l1TTL (a_limit a)))"
    by (rule Cache_Set_wf [OF assms(2)])
  from assms miss set(1) have
    "(out = Inr True \<and> t' = t\<lparr>l1 := c, allowedCount := i64 (allowedCount t + 1)\<rparr>) \<or>
     (out = Inr False \<and> t' = t\<lparr>rejectedCount := i64 (rejectedCount t + 1)\<rparr>) \<or>
     (\<exists>e. out = Inl (LimiterError e) \<and> t' = t)"
    by (auto simp: TwoTier_Allow_def Let_def l1_hit_def split: prod.splits sum.splits redis_reply.splits if_splits)
  with miss set(2,3) that show ?thesis by blast
qed

lemma Allow_wf:
  "TwoTier_Allow rdb a (t, r) = (out, t', r') \<Longrightarrow> wf_cache (l1 t) \<Longrightarrow> wf_cache (l1 t')"
  by (erule Allow_cases) auto

lemma listener_total:
  "wf_cache (l1 t) \<Longrightarrow> \<exists>t'. StartInvalidationListener es t = Some t' \<and> wf_cache (l1 t') \<and>
     allowedCount t' = allowedCount t \<and> rejectedCount t' = rejectedCount t \<and>
     (\<forall>k. cache_entries (l1 t') k =
        (if Message k \<in> set (takeWhile (\<lambda>e. e \<noteq> CtxDone \<and> e \<noteq> ChanClosed) es) then None
         else cache_entries (l1 t) k))"
proof (induction es t rule: StartInvalidationListener.induct)
  case (4 payload es t)
  obtain c where c: "Cache_Delete (l1 t) payload = Some c" "wf_cache c"
    "cache_entries c = (cache_entries (l1 t))(payload := None)"
    by (rule Cache_Delete_wf [OF "4.prems"])
  with "4.IH" [OF c(1)] show ?case by fastforce
qed simp_all


section \<open>The interface of a rate limiter\<close>

locale rate_limiter =
  fixes allow :: "allow_call \<Rightarrow> 's \<Rightarrow> (limiter_error + bool) \<times> 's"
    and stats :: "'s \<Rightarrow> Stats"
    and ok :: "'s \<Rightarrow> bool"
  assumes ok_step: "allow a s = (out, s') \<Longrightarrow> ok s \<Longrightarrow> ok s'"
    and stats_step: "allow a s = (out, s') \<Longrightarrow> ok s \<Longrightarrow>
      stats s' = (case out of
        Inl e \<Rightarrow> stats s
      | Inr True \<Rightarrow> (stats s)\<lparr>AllowedRequests := i64 (AllowedRequests (stats s) + 1)\<rparr>
      | Inr False \<Rightarrow> (stats s)\<lparr>RejectedRequests := i64 (RejectedRequests (stats s) + 1)\<rparr>)"
begin

text \<open>The counters count the answers, modulo the width of an \<^verbatim>\<open>int64\<close>.\<close>

lemma run_stats:
  "limiter_run allow as s = (outs, s') \<Longrightarrow> ok s \<Longrightarrow>
   in_i64 (AllowedRequests (stats s)) \<Longrightarrow> in_i64 (RejectedRequests (stats s)) \<Longrightarrow>
   AllowedRequests (stats s') = i64 (AllowedRequests (stats s) + int (count_list outs (Inr True))) \<and>
   RejectedRequests (stats s') = i64 (RejectedRequests (stats s) + int (count_list outs (Inr False)))"
proof (induction as arbitrary: s outs)
  case Nil
  then show ?case by (simp add: i64_id)
next
  case (Cons a as)
  obtain out s1 where step: "allow a s = (out, s1)" by fastforce
  from Cons.prems(1) step obtain rest where rest: "limiter_run allow as s1 = (rest, s')"
    and outs: "outs = out # rest" by (auto split: prod.splits)
  note st = stats_step [OF step Cons.prems(2)] and ok1 = ok_step [OF step Cons.prems(2)]
  have IH: "AllowedRequests (stats s') = i64 (AllowedRequests (stats s1) + int (count_list rest (Inr True)))"
    "RejectedRequests (stats s') = i64 (RejectedRequests (stats s1) + int (count_list rest (Inr False)))"
    using Cons.IH [OF rest ok1] st Cons.prems(3,4) by (auto split: sum.splits bool.splits)
  show ?case
    unfolding outs IH st by (cases out) (auto split: bool.splits simp: add.assoc)
qed

end

interpretation stub: rate_limiter Stub_Allow Stub_Stats "\<lambda>_. True"
  by unfold_locales (auto simp: Stub_Allow_def Stub_Stats_def)

interpretation twotier: rate_limiter "TwoTier_Allow rdb" "\<lambda>s. TwoTier_Stats (fst s)" "\<lambda>s. wf_cache (l1 (fst s))" for rdb
proof (unfold_locales, goal_cases)
  case (1 a s out s')
  then show ?case using Allow_wf [of rdb a "fst s" "snd s" out "fst s'" "snd s'"] by simp
next
  case (2 a s out s')
  then have "TwoTier_Allow rdb a (fst s, snd s) = (out, fst s', snd s')" by simp
  from this 2(2) show ?case
    by (cases rule: Allow_cases) (simp_all add: TwoTier_Stats_def)
qed

text \<open>On a reliable client the requests that miss L1 are answered by one run of the script.\<close>

lemma script_call_sel [simp]:
  "c_key (script_call a) = a_key a" "c_srv (script_call a) = t_srv a"
  "c_now (script_call a) = now_ms (t_now a)" "c_window (script_call a) = window_ms (a_limit a)"
  "c_limit (script_call a) = Requests (a_limit a)"
  "c_member (script_call a) = member_name (t_now a) (a_uuid a)"
  by (simp_all add: script_call_def)

lemma Allow_reliable_miss:
  assumes rel: "reliable_client cmds rdb" and "wf_cache (l1 t)" and "\<not> l1_hit t a"
    and run: "slidingWindowLua cmds (t_srv a) (a_key a) (now_ms (t_now a)) (window_ms (a_limit a))
      (Requests (a_limit a)) (member_name (t_now a) (a_uuid a)) r = (v, r1)"
  shows "\<exists>t'. TwoTier_Allow rdb a (t, r) = (Inr (v = 1), t', r1)"
proof -
  obtain c where "Cache_Set (t_set a) (l1 t) (a_key a) (BoolV True) (l1TTL (a_limit a)) = Some c"
    by (rule Cache_Set_wf [OF assms(2)])
  with assms show ?thesis
    by (auto simp: TwoTier_Allow_def Let_def l1_hit_def reliable_client_def)
qed

lemma cluster_run_script:
  assumes rel: "reliable_client cmds rdb" and wf: "\<And>i. wf_cache (l1 (nodes i))"
  shows "\<exists>issued. subseq issued (asked evs) \<and>
    filter (\<lambda>(a, hit, out). \<not> hit) (cluster_run rdb evs nodes r) =
    map (\<lambda>(a, v). (a, False, Inr (v = 1))) (zip issued (sw_run cmds (map script_call issued) r)) \<and>
    length (sw_run cmds (map script_call issued) r) = length issued"
  using wf
proof (induction evs arbitrary: nodes r)
  case Nil
  then show ?case by (auto intro!: exI [of _ "[]"])
next
  case (Cons ev evs)
  show ?case
  proof (cases ev)
    case (Ask i a)
    obtain out t' r' where step: "TwoTier_Allow rdb a (nodes i, r) = (out, t', r')"
      by (metis prod_cases3)
    have wf': "wf_cache (l1 ((nodes(i := t')) j))" for j
      using Allow_wf [OF step] Cons.prems by simp
    from Cons.IH [of "nodes(i := t')" r', OF wf'] obtain issued where issued: "subseq issued (asked evs)"
      "filter (\<lambda>(a, hit, out). \<not> hit) (cluster_run rdb evs (nodes(i := t')) r') =
       map (\<lambda>(a, v). (a, False, Inr (v = 1))) (zip issued (sw_run cmds (map script_call issued) r'))"
      "length (sw_run cmds (map script_call issued) r') = length issued" by blast
    show ?thesis
    proof (cases "l1_hit (nodes i) a")
      case True
      with step have "r' = r" by (simp add: Allow_hit)
      with issued Ask step True show ?thesis by (intro exI [of _ issued]) (simp add: list_emb_Cons)
    next
      case False
      obtain v r1 where run: "slidingWindowLua cmds (t_srv a) (a_key a) (now_ms (t_now a)) (window_ms (a_limit a))
        (Requests (a_limit a)) (member_name (t_now a) (a_uuid a)) r = (v, r1)" by fastforce
      from Allow_reliable_miss [OF rel Cons.prems False run] step have "out = Inr (v = 1)" "r' = r1" by auto
      with issued Ask step False run show ?thesis
        by (intro exI [of _ "a # issued"]) simp
    qed
  next
    case (Evict i es)
    from listener_total [OF Cons.prems, of es i] obtain t' where t':
      "StartInvalidationListener es (nodes i) = Some t'" "wf_cache (l1 t')" by blast
    then have "wf_cache (l1 ((nodes(i := t')) j))" for j using Cons.prems by simp
    from Cons.IH [of "nodes(i := t')" r, OF this] t'(1) Evict show ?thesis
      by (simp del: fun_upd_apply)
  qed
qed

lemma subseq_facts:
  "subseq xs ys \<Longrightarrow> set xs \<subseteq> set ys \<and> (sorted_wrt P ys \<longrightarrow> sorted_wrt P xs) \<and>
     (distinct (map f ys) \<longrightarrow> distinct (map f xs))"
  by (induction rule: list_emb.induct) auto

lemma calls_ok_subseq: "subseq xs ys \<Longrightarrow> calls_ok win lim ys \<Longrightarrow> calls_ok win lim xs"
  using subseq_facts [of xs ys "\<lambda>a b. c_now a \<le> c_now b \<and> c_srv a \<le> c_srv b \<and>
     c_srv b - c_srv a \<le> c_now b - c_now a" c_member]
  by (auto simp: calls_ok_def clocks_ok_def list_all_iff)

lemma l2_grants_script:
  assumes "filter (\<lambda>(a, hit, out). \<not> hit) outs = map (\<lambda>(a, v). (a, False, Inr (v = 1))) (zip issued vs)"
  shows "l2_grants k outs = granted_times k (map script_call issued) vs"
proof -
  have "l2_grants k outs = map (\<lambda>(a, hit, out). now_ms (t_now a))
      (filter (\<lambda>(a, hit, out). a_key a = k \<and> out = Inr True) (filter (\<lambda>(a, hit, out). \<not> hit) outs))"
    by (auto simp: l2_grants_def case_prod_unfold intro!: arg_cong [of _ _ "map _"] filter_cong)
  then show ?thesis
    unfolding assms
    by (simp add: granted_times_def filter_map comp_def case_prod_unfold zip_map1)
qed

text \<open>What a cached answer rests on.\<close>

definition backed :: "TwoTierRateLimiter \<Rightarrow> allow_call list \<Rightarrow> bool" where
  "backed t g \<longleftrightarrow> wf_cache (l1 t) \<and>
     (\<forall>k it. cache_entries (l1 t) k = Some it \<longrightarrow>
        (\<exists>a \<in> set g. a_key a = k \<and> it = new_item (t_set a) (BoolV True) (l1TTL (a_limit a))))"

text \<open>A hit in such a cache comes from a grant whose TTL has not passed.\<close>

lemma backed_hit:
  assumes "backed t g" and "l1_hit t b"
  obtains a where "a \<in> set g" "a_key a = a_key b" "live (t_get b) (Some (new_item (t_set a) (BoolV True) (l1TTL (a_limit a)))) = Some (BoolV True)"
  using assms that by (cases "cache_entries (l1 t) (a_key b)") (auto simp: l1_hit_def backed_def live_def)

lemma live_grant_recent:
  assumes live: "live (t_get b) (Some (new_item (t_set a) (BoolV True) (l1TTL (a_limit a)))) = Some (BoolV True)"
    and s: "sane_call a" and time: "0 \<le> t_get b" "t_get b < 2 ^ 62"
  shows "t_get b \<le> t_set a + min Second (Window (a_limit a) div 10)"
proof -
  have ttl: "l1TTL (a_limit a) = min Second (Window (a_limit a) div 10)" "0 < l1TTL (a_limit a)"
    using s by (auto simp: l1TTL_min sane_call_def)
  with s have range: "0 < t_set a + l1TTL (a_limit a)" "in_i64 (t_set a + l1TTL (a_limit a))" "in_i64 (t_get b)"
    using time by (auto simp: sane_call_def in_i64_def)
  from live show ?thesis unfolding live_new_item [OF ttl(2) range] by (simp add: ttl(1) split: if_splits)
qed

lemma backed_hit_recent:
  assumes "backed t g" and "list_all sane_call g" and "l1_hit t b" and "0 \<le> t_get b" "t_get b < 2 ^ 62"
  shows "\<exists>a \<in> set g. a_key a = a_key b \<and> t_get b \<le> t_set a + min Second (Window (a_limit a) div 10)"
  using backed_hit [OF assms(1,3)] live_grant_recent assms(2,4,5) by (metis list_all_iff)

lemma node_run_backed:
  "node_run rdb evs (t, r, g) = Some (t', r', g') \<Longrightarrow> backed t g \<Longrightarrow>
     backed t' g' \<and> set g' \<subseteq> set (asked evs) \<union> set g"
proof (induction evs arbitrary: t r g)
  case Nil
  then show ?case by simp
next
  case (Cons ev evs)
  show ?case
  proof (cases ev)
    case (Ask i a)
    obtain out t1 r1 where step: "TwoTier_Allow rdb a (t, r) = (out, t1, r1)" by (metis prod_cases3)
    let ?g = "if out = Inr True \<and> \<not> l1_hit t a then a # g else g"
    from Cons.prems(2) have "wf_cache (l1 t)" by (simp add: backed_def)
    from step this Cons.prems(2) have "backed t1 ?g"
      by (cases rule: Allow_cases) (auto simp: backed_def)
    moreover have "node_run rdb evs (t1, r1, ?g) = Some (t', r', g')"
      using Cons.prems(1) Ask step by simp
    ultimately show ?thesis using Cons.IH [of t1 r1 ?g] Ask by (auto split: if_splits)
  next
    case (Evict i es)
    with Cons.prems(1) obtain t1 where t1: "StartInvalidationListener es t = Some t1"
      "node_run rdb evs (t1, r, g) = Some (t', r', g')" by (auto split: option.splits)
    from Cons.prems(2) listener_total [of t es] t1(1) have "backed t1 g"
      by (auto simp: backed_def split: if_splits)
    with Cons.IH [OF t1(2)] Evict show ?thesis by simp
  qed
qed

lemma backed_new: "backed (NewTwoTierRateLimiter NewShardedCache) []"
  by (simp add: backed_def NewTwoTierRateLimiter_def)

text \<open>Once an answer is cached and stays alive, calls are answered without Redis.\<close>

lemma hits_bypass_redis:
  assumes "wf_cache (l1 t)"
    and "\<And>b. b \<in> set bs \<Longrightarrow> a_key b = k \<and> live (t_get b) (cache_entries (l1 t) k) = Some (BoolV True)"
  shows "\<exists>n. limiter_run (TwoTier_Allow rdb) bs (t, r) =
    (replicate (length bs) (Inr True), t\<lparr>allowedCount := n\<rparr>, r)"
  using assms
proof (induction bs arbitrary: t)
  case Nil
  have "t = t\<lparr>allowedCount := allowedCount t\<rparr>" by simp
  then show ?case by (metis length_0_conv limiter_run.simps(1) replicate_0)
next
  case (Cons b bs)
  from Cons.prems have "l1_hit t b" by (simp add: l1_hit_def)
  let ?t = "t\<lparr>allowedCount := i64 (allowedCount t + 1)\<rparr>"
  have "\<exists>n. limiter_run (TwoTier_Allow rdb) bs (?t, r) =
    (replicate (length bs) (Inr True), ?t\<lparr>allowedCount := n\<rparr>, r)"
    using Cons.prems by (intro Cons.IH) simp_all
  with Allow_hit [OF \<open>l1_hit t b\<close>, of rdb r] show ?case by auto
qed

lemma Allow_miss_grant:
  assumes "TwoTier_Allow rdb a (t, r) = (Inr True, t', r')" and "wf_cache (l1 t)" and "\<not> l1_hit t a"
  shows "wf_cache (l1 t')"
    and "cache_entries (l1 t') (a_key a) = Some (new_item (t_set a) (BoolV True) (l1TTL (a_limit a)))"
  using assms(1,2) by (cases rule: Allow_cases, use assms(3) in auto)+

text \<open>Concrete calls for the witnesses: limit, window, time in seconds and UUID.\<close>

definition sample_allow :: "int \<Rightarrow> duration \<Rightarrow> gotime \<Rightarrow> string \<Rightarrow> allow_call" where
  "sample_allow n w s uuid = \<lparr>a_key = ''rate_limit:Free:/a:k'',
     a_limit = \<lparr>Algorithm = ''sliding_window'', Requests = n, Window = w\<rparr>,
     t_get = s, t_now = s, t_set = s, t_srv = s div Millisecond, a_uuid = uuid\<rparr>"

lemma member_name_inject:
  "member_name n u = member_name n' u' \<longleftrightarrow> show_int (unix_nano n) = show_int (unix_nano n') \<and> u = u'"
  by (simp add: member_name_def append_sep_inject show_int_no_colon)

lemma script_client_reliable: "reliable_client cmds (script_client cmds)"
  by (simp add: reliable_client_def script_client_def)

lemma ref_first_grant:
  "0 < lua_number n \<Longrightarrow> fst (slidingWindowLua ref_cmds srv k now w n m ref_empty) = 1"
  using ref_empty_no_keys
  by (simp add: slidingWindowLua_def Let_def ref.zcard_view ref.zrem_view no_keys_def)

lemma sample_first_grant:
  "\<exists>t' r'. TwoTier_Allow (script_client ref_cmds) (sample_allow 1 w s u)
     (NewTwoTierRateLimiter NewShardedCache, ref_empty) = (Inr True, t', r')"
proof -
  let ?a = "sample_allow 1 w s u"
  obtain v r1 where run: "slidingWindowLua ref_cmds (t_srv ?a) (a_key ?a) (now_ms (t_now ?a))
    (window_ms (a_limit ?a)) (Requests (a_limit ?a)) (member_name (t_now ?a) (a_uuid ?a)) ref_empty = (v, r1)"
    by fastforce
  then have "v = 1" using ref_first_grant [of 1] by (metis fst_conv lua_number_exact sample_allow_def
      allow_call.select_convs(2) Limit.select_convs(2) abs_one one_less_numeral_iff semiring_norm(76)
      one_less_power zero_less_numeral zero_less_one)
  moreover have "\<not> l1_hit (NewTwoTierRateLimiter NewShardedCache) ?a"
    by (simp add: l1_hit_def NewTwoTierRateLimiter_def live_def)
  ultimately show ?thesis
    using Allow_reliable_miss [OF script_client_reliable _ _ run, of "NewTwoTierRateLimiter NewShardedCache"]
    by (auto simp: NewTwoTierRateLimiter_def)
qed

section \<open>Properties\<close>

text \<open>
  Gateways that share a Redis never let it grant more than the limit: in a cluster of
  any number of gateways, with any requests and evictions, the requests for a key that
  Redis granted (those not answered from a gateway's L1 cache) keep every window of the
  key's length within its limit.
\<close>

theorem cluster_grants_bounded:
  assumes "redis_zset cmds zview zttl" and "no_keys zview zttl r" and "reliable_client cmds rdb"
    and "calls_ok win lim (map script_call (asked evs))" and "0 \<le> lim k"
  shows "window_bound (win k) (lim k)
    (l2_grants k (cluster_run rdb evs (\<lambda>_. NewTwoTierRateLimiter NewShardedCache) r))"
proof -
  let ?outs = "cluster_run rdb evs (\<lambda>_. NewTwoTierRateLimiter NewShardedCache) r"
  obtain issued where sub: "subseq issued (asked evs)"
    and outs: "filter (\<lambda>(a, hit, out). \<not> hit) ?outs =
      map (\<lambda>(a, v). (a, False, Inr (v = 1))) (zip issued (sw_run cmds (map script_call issued) r))"
    using cluster_run_script [OF assms(3), of "\<lambda>_. NewTwoTierRateLimiter NewShardedCache" evs r]
    by (auto simp: NewTwoTierRateLimiter_def)
  have "calls_ok win lim (map script_call issued)"
    by (rule calls_ok_subseq [OF subseq_map [OF sub] assms(4)])
  then show ?thesis
    unfolding l2_grants_script [OF outs] by (rule sw_run_bound [OF assms(1,2)]) (rule assms(5))
qed

theorem cluster_grants_bounded_witness:
  "window_bound 1000 1 (l2_grants ''rate_limit:Free:/a:k''
     (cluster_run (script_client ref_cmds)
        [Ask 0 (sample_allow 1 Second (5 * Second) ''u0''), Ask 1 (sample_allow 1 Second (6 * Second) ''u1''),
         Evict 0 [Message ''rate_limit:Free:/a:k''], Ask 0 (sample_allow 1 Second (6 * Second) ''u2'')]
        (\<lambda>_. NewTwoTierRateLimiter NewShardedCache) ref_empty))"
  by (rule cluster_grants_bounded [OF ref.redis_zset_axioms ref_empty_no_keys script_client_reliable,
        where win = "\<lambda>_. 1000" and lim = "\<lambda>_. 1"])
    (simp_all add: calls_ok_def clocks_ok_def call_ok_def sample_allow_def member_name_inject
      window_ms_def now_ms_def unix_nano_def i64_def signed_divide_int_def)

text \<open>
  An L1 answer is at most one second old. When a gateway answers a request from its
  cache, Redis granted a request for the same key to this gateway at most a tenth of the
  window, and at most one second, earlier (for windows of at least ten nanoseconds).
\<close>

theorem l1_answer_is_recent:
  assumes run: "node_run rdb evs (NewTwoTierRateLimiter NewShardedCache, r, []) = Some (t, r', g)"
    and sane: "list_all sane_call (asked evs)"
    and hit: "l1_hit t b" and time: "0 \<le> t_get b" "t_get b < 2 ^ 62"
  shows "\<exists>a \<in> set g. a_key a = a_key b \<and> t_get b \<le> t_set a + min Second (Window (a_limit a) div 10)"
proof -
  from node_run_backed [OF run backed_new] have "backed t g" and "set g \<subseteq> set (asked evs)" by auto
  with backed_hit_recent [OF this(1) _ hit time] sane show ?thesis by (auto simp: list_all_iff)
qed

theorem l1_answer_is_recent_witness:
  "\<exists>t r' g. node_run (script_client ref_cmds) [Ask 0 (sample_allow 1 Second (5 * Second) ''u0'')]
      (NewTwoTierRateLimiter NewShardedCache, ref_empty, []) = Some (t, r', g) \<and>
    l1_hit t (sample_allow 1 Second (5 * Second + 7) ''u1'') \<and>
    (\<exists>a \<in> set g. a_key a = ''rate_limit:Free:/a:k'' \<and>
       5 * Second + 7 \<le> t_set a + min Second (Window (a_limit a) div 10))"
proof -
  let ?a = "sample_allow 1 Second (5 * Second) ''u0''" and ?b = "sample_allow 1 Second (5 * Second + 7) ''u1''"
  let ?t0 = "NewTwoTierRateLimiter NewShardedCache"
  obtain t r' where step: "TwoTier_Allow (script_client ref_cmds) ?a (?t0, ref_empty) = (Inr True, t, r')"
    using sample_first_grant by blast
  have miss: "\<not> l1_hit ?t0 ?a" by (simp add: l1_hit_def NewTwoTierRateLimiter_def live_def)
  have run: "node_run (script_client ref_cmds) [Ask 0 ?a] (?t0, ref_empty, []) = Some (t, r', [?a])"
    using step miss by simp
  have "wf_cache (l1 ?t0)" by (simp add: NewTwoTierRateLimiter_def)
  note g = Allow_miss_grant [OF step this miss]
  have hit: "l1_hit t ?b"
    using g by (simp add: l1_hit_def sample_allow_def live_def new_item_def l1TTL_min unix_nano_def i64_def)
  from l1_answer_is_recent [OF run _ hit] run hit show ?thesis
    by (auto simp: sample_allow_def sane_call_def)
qed

text \<open>
  C39: L1 hits are not counted. After Redis has granted one request, any number of further
  requests for the key that arrive while the cached answer lives are all granted without
  Redis being asked: the configured limit does not bound the requests let through, only
  the requests Redis sees.
\<close>

theorem l1_burst_unlimited:
  assumes grant: "TwoTier_Allow rdb a (t, r) = (Inr True, t', r')" and wf: "wf_cache (l1 t)"
    and miss: "\<not> l1_hit t a" and sane: "sane_call a"
    and bs: "\<forall>b \<in> set bs. a_key b = a_key a \<and> 0 \<le> t_get b \<and>
      t_get b \<le> t_set a + min Second (Window (a_limit a) div 10)"
  shows "\<exists>n. limiter_run (TwoTier_Allow rdb) bs (t', r') =
    (replicate (length bs) (Inr True), t'\<lparr>allowedCount := n\<rparr>, r')"
proof (rule hits_bypass_redis [where k = "a_key a"])
  note g = Allow_miss_grant [OF grant wf miss]
  show "wf_cache (l1 t')" by (rule g)
  fix b assume b: "b \<in> set bs"
  from sane have ttl: "l1TTL (a_limit a) = min Second (Window (a_limit a) div 10)" "0 < l1TTL (a_limit a)"
    by (auto simp: l1TTL_min sane_call_def)
  with sane bs b have "0 < t_set a + l1TTL (a_limit a)" "in_i64 (t_set a + l1TTL (a_limit a))" "in_i64 (t_get b)"
    by (fastforce simp: sane_call_def in_i64_def)+
  from live_new_item [OF ttl(2) this] bs b ttl(1)
  show "a_key b = a_key a \<and> live (t_get b) (cache_entries (l1 t') (a_key a)) = Some (BoolV True)"
    by (auto simp: g)
qed

theorem l1_burst_unlimited_witness:
  "\<exists>t' r' n. TwoTier_Allow (script_client ref_cmds) (sample_allow 1 Second (5 * Second) ''u0'')
      (NewTwoTierRateLimiter NewShardedCache, ref_empty) = (Inr True, t', r') \<and>
    limiter_run (TwoTier_Allow (script_client ref_cmds))
      (replicate 1000 (sample_allow 1 Second (5 * Second + 7) ''u1'')) (t', r') =
      (replicate 1000 (Inr True), t'\<lparr>allowedCount := n\<rparr>, r')"
proof -
  let ?a = "sample_allow 1 Second (5 * Second) ''u0''" and ?t0 = "NewTwoTierRateLimiter NewShardedCache"
  obtain t' r' where step: "TwoTier_Allow (script_client ref_cmds) ?a (?t0, ref_empty) = (Inr True, t', r')"
    using sample_first_grant by blast
  have "wf_cache (l1 ?t0)" "\<not> l1_hit ?t0 ?a" "sane_call ?a"
    by (simp_all add: l1_hit_def NewTwoTierRateLimiter_def live_def sane_call_def sample_allow_def)
  from l1_burst_unlimited [OF step this, of "replicate 1000 (sample_allow 1 Second (5 * Second + 7) ''u1'')"] step
  show ?thesis by (auto simp: sample_allow_def)
qed

text \<open>
  A window below ten nanoseconds (a missing \<^verbatim>\<open>window\<close> entry gives zero) disables the
  limit: the cached answer gets the expiry zero, which means none, and every later
  request for the key is granted at any time without asking Redis.
\<close>

theorem tiny_window_never_expires:
  assumes grant: "TwoTier_Allow rdb a (t, r) = (Inr True, t', r')" and wf: "wf_cache (l1 t)"
    and miss: "\<not> l1_hit t a" and tiny: "Window (a_limit a) < 10"
    and bs: "\<forall>b \<in> set bs. a_key b = a_key a"
  shows "\<exists>n. limiter_run (TwoTier_Allow rdb) bs (t', r') =
    (replicate (length bs) (Inr True), t'\<lparr>allowedCount := n\<rparr>, r')"
  using Allow_miss_grant [OF grant wf miss] bs l1TTL_nonpos [OF tiny]
  by (intro hits_bypass_redis [where k = "a_key a"]) (auto simp: live_new_item_forever)

theorem tiny_window_never_expires_witness:
  "\<exists>t' r' n. TwoTier_Allow (script_client ref_cmds) (sample_allow 1 0 (5 * Second) ''u0'')
      (NewTwoTierRateLimiter NewShardedCache, ref_empty) = (Inr True, t', r') \<and>
    limiter_run (TwoTier_Allow (script_client ref_cmds))
      [sample_allow 1 0 (6 * Second) ''u1'', sample_allow 1 0 (10 ^ 9 * Second) ''u2''] (t', r') =
      ([Inr True, Inr True], t'\<lparr>allowedCount := n\<rparr>, r')"
proof -
  let ?a = "sample_allow 1 0 (5 * Second) ''u0''" and ?t0 = "NewTwoTierRateLimiter NewShardedCache"
  obtain t' r' where step: "TwoTier_Allow (script_client ref_cmds) ?a (?t0, ref_empty) = (Inr True, t', r')"
    using sample_first_grant by blast
  have "wf_cache (l1 ?t0)" "\<not> l1_hit ?t0 ?a" "Window (a_limit ?a) < 10"
    by (simp_all add: l1_hit_def NewTwoTierRateLimiter_def live_def sample_allow_def)
  from tiny_window_never_expires [OF step this, of "[sample_allow 1 0 (6 * Second) ''u1'', sample_allow 1 0 (10 ^ 9 * Second) ''u2'']"] step
  show ?thesis by (auto simp: sample_allow_def numeral_2_eq_2)
qed

text \<open>
  The statistics are exact: whatever the calls and whatever Redis answers, errors
  included, a new limiter reports the number of granted and of rejected requests, each
  modulo the width of an \<^verbatim>\<open>int64\<close>.
\<close>

theorem twotier_stats_exact:
  "let (outs, t, r') = limiter_run (TwoTier_Allow rdb) calls (NewTwoTierRateLimiter NewShardedCache, r)
   in TwoTier_Stats t = \<lparr>AllowedRequests = i64 (int (count_list outs (Inr True))),
                         RejectedRequests = i64 (int (count_list outs (Inr False)))\<rparr>"
proof -
  let ?t0 = "NewTwoTierRateLimiter NewShardedCache"
  obtain outs t r' where run: "limiter_run (TwoTier_Allow rdb) calls (?t0, r) = (outs, t, r')"
    by (metis prod_cases3)
  have "wf_cache (l1 (fst (?t0, r)))" "TwoTier_Stats (fst (?t0, r)) = \<lparr>AllowedRequests = 0, RejectedRequests = 0\<rparr>"
    by (simp_all add: NewTwoTierRateLimiter_def TwoTier_Stats_def)
  with twotier.run_stats [OF run] show ?thesis by (simp add: run in_i64_def TwoTier_Stats_def)
qed

text \<open>
  An invalidation evicts: after the listener has handled the messages it received
  before its context ended or its channel closed, the gateway's cache answers none of the
  keys they name, at any time, and every other key as before.
\<close>

theorem invalidation_evicts:
  assumes "wf_cache (l1 t)"
  shows "\<exists>t'. StartInvalidationListener es t = Some t' \<and>
    (\<forall>now k. Cache_Get now (l1 t') k =
       (if Message k \<in> set (takeWhile (\<lambda>e. e \<noteq> CtxDone \<and> e \<noteq> ChanClosed) es) then Some None
        else Cache_Get now (l1 t) k))"
  using listener_total [OF assms, of es] assms by (auto simp: live_def)

theorem invalidation_evicts_witness:
  "\<exists>t'. StartInvalidationListener [Message ''k'', ChanClosed, Message ''j'']
      (NewTwoTierRateLimiter NewShardedCache) = Some t' \<and> Cache_Get 0 (l1 t') ''k'' = Some None"
  using invalidation_evicts [of "NewTwoTierRateLimiter NewShardedCache" "[Message ''k'', ChanClosed, Message ''j'']"]
  by (auto simp: NewTwoTierRateLimiter_def)

text \<open>
  The stub never limits: with Redis down, every request is allowed without an error,
  and the statistics count them.
\<close>

theorem stub_allows_all:
  "limiter_run Stub_Allow calls NewStubRateLimiter =
     (replicate (length calls) (Inr True),
      NewStubRateLimiter\<lparr>stub_allowedCount := i64 (int (length calls))\<rparr>)"
proof -
  have "limiter_run Stub_Allow calls s = (replicate (length calls) (Inr True),
      s\<lparr>stub_allowedCount := i64 (stub_allowedCount s + int (length calls))\<rparr>)"
    if "in_i64 (stub_allowedCount s)" for s
    using that by (induction calls arbitrary: s) (auto simp: Stub_Allow_def i64_id add.assoc)
  then show ?thesis by (simp add: NewStubRateLimiter_def in_i64_def)
qed

end
