(* ===== verification/Middleware.thy ===== *)
theory Middleware
  imports Net_Http Rate_Limiter
begin

text \<open>
  The middleware (\<^verbatim>\<open>src/internal/middleware/middleware.go\<close>, \<^verbatim>\<open>context.go\<close>): chaining,
  tracing, authentication, rate limiting and load shedding. A middleware wraps a handler of
  theory \<open>Net_Http\<close>; \<open>'s\<close> is the state of the program around it.

  What a request reads of the world while it passes is a \<open>req_env\<close>: the UUIDs generated for
  it and the clock readings of the limiter's \<^verbatim>\<open>Allow\<close>. The limiter is the argument
  \<open>allow\<close>, as the source has the interface \<^verbatim>\<open>ratelimit.RateLimiter\<close>; its answer \<open>Inl\<close>
  is an error. (An index panic of the cache is one of them in the model; the limiters of the
  program never answer it, \<open>TwoTier_no_panic\<close>.)
\<close>

section \<open>Definitions\<close>

record req_env =
  e_trace :: string
  e_t_get :: gotime
  e_t_now :: gotime
  e_t_set :: gotime
  e_t_srv :: int
  e_member :: string
  e_event :: string

definition Chain :: "'s handler \<Rightarrow> 's middleware list \<Rightarrow> 's handler" where
  "Chain h mws = fold (\<lambda>mw h. mw h) (rev mws) h"

definition Tracing :: "req_env \<Rightarrow> 's middleware" where
  "Tracing env next r ws =
     (let (w, s) = ws;
          hdr = Header_Get (ReqHeader r) ''X-Trace-ID'';
          traceID = (if hdr = '''' then e_trace env else hdr)
      in next (WithValue TraceIDKey traceID r) (set_header ''X-Trace-ID'' traceID w, s))"

definition tier_of :: "string \<Rightarrow> string" where
  "tier_of apiKey =
     (if apiKey = ''ent-key'' then ''Enterprise''
      else if apiKey = ''pro-key'' then ''Pro''
      else ''Free'')"

definition Auth :: "'s middleware" where
  "Auth next r ws =
     (let (w, s) = ws in
      if Path r = ''/metrics'' then next r (w, s)
      else
        let apiKey = Header_Get (ReqHeader r) ''X-API-Key'' in
        if apiKey = '''' then (http_Error ''Unauthorized: missing API Key'' 401 w, s)
        else next (WithValue APIKeyKey apiKey (WithValue TierKey (tier_of apiKey) r)) (w, s))"

definition rate_key :: "string \<Rightarrow> string \<Rightarrow> string \<Rightarrow> string" where
  "rate_key tier path apiKey = ''rate_limit:'' @ tier @ '':'' @ path @ '':'' @ apiKey"

definition limiter_call :: "req_env \<Rightarrow> string \<Rightarrow> Limit \<Rightarrow> allow_call" where
  "limiter_call env key limit =
     \<lparr>a_key = key, a_limit = limit, t_get = e_t_get env, t_now = e_t_now env, t_set = e_t_set env,
      t_srv = e_t_srv env, a_uuid = e_member env\<rparr>"

definition RateLimit ::
  "req_env \<Rightarrow> Config \<Rightarrow> (allow_call \<Rightarrow> 's \<Rightarrow> (limiter_error + bool) \<times> 's) \<Rightarrow> 's middleware" where
  "RateLimit env cfg allow next r ws =
     (let (w, s) = ws;
          tier = ctx_string r TierKey;
          apiKey = Header_Get (ReqHeader r) ''X-API-Key'';
          (limit, ok) = GetLimit cfg tier (Path r)
      in if \<not> ok then next r (w, s)
         else case allow (limiter_call env (rate_key tier (Path r) apiKey) limit) s of
           (Inl err, s') \<Rightarrow> (http_Error ''Internal rate limiter error'' 500 w, s')
         | (Inr allowed, s') \<Rightarrow>
             if \<not> allowed then (http_Error ''Too Many Requests'' 429 w, s')
             else next r (w, s'))"

definition LoadShedder :: "('s \<Rightarrow> int) \<Rightarrow> int \<Rightarrow> 's middleware" where
  "LoadShedder currentLoad threshold next r ws =
     (let (w, s) = ws; load = currentLoad s; tier = ctx_string r TierKey in
      if load \<ge> threshold \<and> (tier = ''Free'' \<or> tier = '''')
      then (http_Error ''Service Unavailable (Load Shedding)'' 503 w, s)
      else next r (w, s))"

section \<open>Lemmas\<close>

lemma Chain_Nil [simp]: "Chain h [] = h"
  by (simp add: Chain_def)

lemma Chain_Cons [simp]: "Chain h (mw # mws) = mw (Chain h mws)"
  by (simp add: Chain_def)

lemma TwoTier_no_panic:
  "wf_cache (l1 t) \<Longrightarrow> TwoTier_Allow rdb a (t, r) = (out, t', r') \<Longrightarrow> out \<noteq> Inl IndexPanic"
  by (erule Allow_cases) auto

lemma tier_of_cases: "tier_of k \<in> {''Enterprise'', ''Pro'', ''Free''}"
  by (simp add: tier_of_def)

lemma tier_of_no_colon: "CHR '':'' \<notin> set (tier_of k)"
  by (simp add: tier_of_def)

lemma rate_key_inject:
  assumes "CHR '':'' \<notin> set t" "CHR '':'' \<notin> set t'" "CHR '':'' \<notin> set p" "CHR '':'' \<notin> set p'"
  shows "rate_key t p k = rate_key t' p' k' \<longleftrightarrow> t = t' \<and> p = p' \<and> k = k'"
  using assms by (simp add: rate_key_def append_sep_inject)

lemma rate_key_collides: "rate_key ''Free'' ''/a:b'' ''c'' = rate_key ''Free'' ''/a'' ''b:c''"
  by (simp add: rate_key_def)

section \<open>Properties\<close>

text \<open>
  Requests share a rate limit counter exactly when they have the same tier, path and API
  key, as long as the paths contain no colon. (With colons they can collide: the request for
  \<^verbatim>\<open>/a:b\<close> with key \<^verbatim>\<open>c\<close> counts with the one for \<^verbatim>\<open>/a\<close> with key \<^verbatim>\<open>b:c\<close>.)
\<close>

theorem rate_key_separates:
  assumes "CHR '':'' \<notin> set p" and "CHR '':'' \<notin> set p'"
  shows "(rate_key (tier_of k) p k = rate_key (tier_of k') p' k' \<longleftrightarrow> p = p' \<and> k = k') \<and>
    rate_key ''Free'' ''/a:b'' ''c'' = rate_key ''Free'' ''/a'' ''b:c''"
  using rate_key_inject [OF tier_of_no_colon tier_of_no_colon assms] rate_key_collides by blast

theorem rate_key_separates_witness:
  "rate_key (tier_of ''a'') ''/x'' ''a'' \<noteq> rate_key (tier_of ''b'') ''/x'' ''b''"
  using rate_key_separates [of "''/x''" "''/x''" "''a''" "''b''"] by simp

end
