(* ===== verification/Event_Store.thy ===== *)
theory Event_Store
  imports Shield_Prelude
begin

text \<open>
  The event store (\<^verbatim>\<open>src/internal/events/events.go\<close>) and the schema set-up
  (\<^verbatim>\<open>src/internal/database/database.go\<close>). PostgreSQL and its driver are arguments: a pool
  has the operations \<open>pg_Exec\<close> and \<open>pg_Query\<close> on a database state \<open>'d\<close>; the statements
  are the SQL texts of the source with their parameters, one constructor each. The first
  argument of both says whether the request's context is already cancelled.

  The locale \<open>postgres\<close> states what PostgreSQL documents of these statements over the
  abstraction \<open>table\<close> (the rows of \<^verbatim>\<open>events\<close> by primary key), and the locale
  \<open>event_store\<close> the contract of the \<^verbatim>\<open>EventStore\<close> interface that the source's methods
  implement on such a pool. \<open>ref_pool\<close> is a database that satisfies the laws.
\<close>

section \<open>Definitions\<close>

record WebhookEvent =
  ID :: string
  APIKey :: string
  EventURL :: string
  Payload :: string
  Status :: string
  IdempotencyKey :: string
  RetryCount :: int
  ErrorMessage :: "string option"
  CreatedAt :: string

definition zero_event :: WebhookEvent where
  "zero_event = \<lparr>ID = '''', APIKey = '''', EventURL = '''', Payload = '''', Status = '''',
     IdempotencyKey = '''', RetryCount = 0, ErrorMessage = None, CreatedAt = ''''\<rparr>"

text \<open>The statements, with their parameters in the source's order.\<close>

datatype sql =
    InsertEvent string string string string string string
  | UpdateEvent string "string option" string
  | CreateUuidExtension
  | CreateEventsTable
  | CreateApiKeysTable
  | CreateStatusIndex
  | CreateCreatedAtIndex
  | CreateIsActiveIndex

datatype sql_query =
    SelectFailed string
  | SelectByStatus string int
  | SelectAll int

text \<open>
  A result set: for every row what \<^verbatim>\<open>Scan\<close> gives for the listed columns, or its error, and
  the error \<^verbatim>\<open>rows.Err()\<close> reports after the last row.
\<close>

type_synonym result_set = "(string + WebhookEvent) list \<times> string option"

record 'd pg_pool =
  pg_Exec :: "bool \<Rightarrow> sql \<Rightarrow> 'd \<Rightarrow> (string + unit) \<times> 'd"
  pg_Query :: "bool \<Rightarrow> sql_query \<Rightarrow> 'd \<Rightarrow> string + result_set"

definition SaveEvent :: "'d pg_pool \<Rightarrow> bool \<Rightarrow> WebhookEvent \<Rightarrow> 'd \<Rightarrow> string option \<times> 'd" where
  "SaveEvent pool ctx event d =
     (let idempKey = (if IdempotencyKey event = '''' then ID event else IdempotencyKey event)
      in case pg_Exec pool ctx
           (InsertEvent (ID event) idempKey (APIKey event) (EventURL event) (Payload event) (Status event)) d of
           (Inl err, d') \<Rightarrow> (Some (''failed to execute insert event query: '' @ err), d')
         | (Inr _, d') \<Rightarrow> (None, d'))"

definition UpdateEventStatus ::
  "'d pg_pool \<Rightarrow> bool \<Rightarrow> string \<Rightarrow> string \<Rightarrow> string \<Rightarrow> 'd \<Rightarrow> string option \<times> 'd" where
  "UpdateEventStatus pool ctx i status errMsg d =
     (let errPtr = (if errMsg \<noteq> '''' then Some errMsg else None)
      in case pg_Exec pool ctx (UpdateEvent status errPtr i) d of
           (Inl err, d') \<Rightarrow> (Some (''failed to execute update event status query: '' @ err), d')
         | (Inr _, d') \<Rightarrow> (None, d'))"

text \<open>The loop over \<^verbatim>\<open>rows.Next()\<close>; the first scan error ends it.\<close>

fun scan_rows :: "string \<Rightarrow> (string + WebhookEvent) list \<Rightarrow> WebhookEvent list \<Rightarrow> string + WebhookEvent list" where
  "scan_rows msg [] eventsList = Inr eventsList"
| "scan_rows msg (Inl err # rows) eventsList = Inl (msg @ err)"
| "scan_rows msg (Inr ev # rows) eventsList = scan_rows msg rows (eventsList @ [ev])"

definition GetFailedEvents :: "'d pg_pool \<Rightarrow> bool \<Rightarrow> string \<Rightarrow> 'd \<Rightarrow> string + WebhookEvent list" where
  "GetFailedEvents pool ctx apiKey d =
     (case pg_Query pool ctx (SelectFailed apiKey) d of
        Inl err \<Rightarrow> Inl (''failed to query failed events: '' @ err)
      | Inr (rows, rows_err) \<Rightarrow>
          (case scan_rows ''failed to scan failed event row: '' rows [] of
             Inl err \<Rightarrow> Inl err
           | Inr eventsList \<Rightarrow>
               (case rows_err of
                  Some err \<Rightarrow> Inl (''row iteration error for failed events query: '' @ err)
                | None \<Rightarrow> Inr eventsList)))"

definition GetEvents :: "'d pg_pool \<Rightarrow> bool \<Rightarrow> int \<Rightarrow> string \<Rightarrow> 'd \<Rightarrow> string + WebhookEvent list" where
  "GetEvents pool ctx limit status d =
     (let query = (if status \<noteq> '''' then SelectByStatus status limit else SelectAll limit)
      in case pg_Query pool ctx query d of
           Inl err \<Rightarrow> Inl (''failed to query events: '' @ err)
         | Inr (rows, rows_err) \<Rightarrow>
             (case scan_rows ''failed to scan event row: '' rows [] of
                Inl err \<Rightarrow> Inl err
              | Inr eventsList \<Rightarrow>
                  (case rows_err of
                     Some err \<Rightarrow> Inl (''row iteration error for events query: '' @ err)
                   | None \<Rightarrow> Inr eventsList)))"

text \<open>\<^verbatim>\<open>InitSchema\<close>: the six statements in order, each with its error text; the first failure returns.\<close>

definition schema_statements :: "(sql \<times> string) list" where
  "schema_statements =
     [(CreateUuidExtension, ''failed to create uuid-ossp extension: ''),
      (CreateEventsTable, ''failed to create events table: ''),
      (CreateApiKeysTable, ''failed to create api_keys table: ''),
      (CreateStatusIndex, ''failed to create idx_events_status index: ''),
      (CreateCreatedAtIndex, ''failed to create idx_events_created_at index: ''),
      (CreateIsActiveIndex, ''failed to create idx_api_keys_is_active index: '')]"

fun exec_all :: "'d pg_pool \<Rightarrow> bool \<Rightarrow> (sql \<times> string) list \<Rightarrow> 'd \<Rightarrow> string option \<times> 'd" where
  "exec_all pool ctx [] d = (None, d)"
| "exec_all pool ctx ((stmt, msg) # rest) d =
     (case pg_Exec pool ctx stmt d of
        (Inl err, d') \<Rightarrow> (Some (msg @ err), d')
      | (Inr _, d') \<Rightarrow> exec_all pool ctx rest d')"

definition InitSchema :: "'d pg_pool \<Rightarrow> bool \<Rightarrow> 'd \<Rightarrow> string option \<times> 'd" where
  "InitSchema pool ctx d = exec_all pool ctx schema_statements d"

text \<open>The interface that the gateway and the worker use, and its implementation on a pool.\<close>

record 'd EventStore =
  es_SaveEvent :: "bool \<Rightarrow> WebhookEvent \<Rightarrow> 'd \<Rightarrow> string option \<times> 'd"
  es_UpdateEventStatus :: "bool \<Rightarrow> string \<Rightarrow> string \<Rightarrow> string \<Rightarrow> 'd \<Rightarrow> string option \<times> 'd"
  es_GetFailedEvents :: "bool \<Rightarrow> string \<Rightarrow> 'd \<Rightarrow> string + WebhookEvent list"
  es_GetEvents :: "bool \<Rightarrow> int \<Rightarrow> string \<Rightarrow> 'd \<Rightarrow> string + WebhookEvent list"

definition NewPostgresEventStore :: "'d pg_pool \<Rightarrow> 'd EventStore" where
  "NewPostgresEventStore pool =
     \<lparr>es_SaveEvent = SaveEvent pool, es_UpdateEventStatus = UpdateEventStatus pool,
      es_GetFailedEvents = GetFailedEvents pool, es_GetEvents = GetEvents pool\<rparr>"

subsection \<open>The table\<close>

text \<open>A row of \<^verbatim>\<open>events\<close> without its primary key: the columns the queries read and write.\<close>

record event_row =
  r_idem :: "string option"
  r_api_key :: string
  r_url :: string
  r_payload :: string
  r_status :: string
  r_retry :: int
  r_error :: "string option"
  r_created :: int

type_synonym event_table = "string \<rightharpoonup> event_row"

text \<open>Scanning a row; a NULL idempotency key does not fit the string it is scanned into.\<close>

definition failed_row_event :: "string \<Rightarrow> event_row \<Rightarrow> string + WebhookEvent" where
  "failed_row_event i row =
     (case r_idem row of
        None \<Rightarrow> Inl ''cannot scan NULL into *string''
      | Some k \<Rightarrow> Inr (zero_event\<lparr>ID := i, APIKey := r_api_key row, EventURL := r_url row,
          Payload := r_payload row, Status := r_status row, IdempotencyKey := k\<rparr>))"

definition row_event :: "(int \<Rightarrow> string) \<Rightarrow> string \<Rightarrow> event_row \<Rightarrow> string + WebhookEvent" where
  "row_event to_char i row =
     (case r_idem row of
        None \<Rightarrow> Inl ''cannot scan NULL into *string''
      | Some k \<Rightarrow> Inr \<lparr>ID = i, APIKey = r_api_key row, EventURL = r_url row, Payload = r_payload row,
          Status = r_status row, IdempotencyKey = k, RetryCount = r_retry row,
          ErrorMessage = r_error row, CreatedAt = to_char (r_created row)\<rparr>)"

definition has_idem :: "event_table \<Rightarrow> string \<Rightarrow> bool" where
  "has_idem t k \<longleftrightarrow> (\<exists>row \<in> ran t. r_idem row = Some k)"

text \<open>The canonical text of a UUID, which PostgreSQL prints and \<^verbatim>\<open>uuid.New\<close> generates.\<close>

definition hex_char :: "char \<Rightarrow> bool" where
  "hex_char c \<longleftrightarrow> c \<in> set ''0123456789abcdef''"

definition uuid_text :: "string \<Rightarrow> bool" where
  "uuid_text s \<longleftrightarrow> length s = 36 \<and>
     list_all (\<lambda>(i, c). if i \<in> {8, 13, 18, 23} then c = CHR ''-'' else hex_char c) (enumerate 0 s)"

text \<open>
  The effect of a statement at time \<open>now\<close> according to the SQL text and the column
  constraints: None is a violated primary key. The schema statements create only what is
  missing.
\<close>

fun stmt_effect :: "(string \<Rightarrow> string) \<Rightarrow> int \<Rightarrow> sql \<Rightarrow> event_table \<Rightarrow> event_table option" where
  "stmt_effect jsonb now (InsertEvent i k a u p s) t =
     (if has_idem t k then Some t
      else if t i \<noteq> None then None
      else Some (t(i \<mapsto> \<lparr>r_idem = Some k, r_api_key = a, r_url = u, r_payload = jsonb p, r_status = s,
             r_retry = 0, r_error = None, r_created = now\<rparr>)))"
| "stmt_effect jsonb now (UpdateEvent s e i) t =
     Some (t(i := map_option (\<lambda>row. row\<lparr>r_status := s, r_error := e\<rparr>) (t i)))"
| "stmt_effect jsonb now _ t = Some t"

fun stmt_id :: "sql \<Rightarrow> string option" where
  "stmt_id (InsertEvent i k a u p s) = Some i"
| "stmt_id (UpdateEvent s e i) = Some i"
| "stmt_id _ = None"

definition stmt_uuid :: "sql \<Rightarrow> bool" where
  "stmt_uuid stmt \<longleftrightarrow> (case stmt_id stmt of None \<Rightarrow> True | Some i \<Rightarrow> uuid_text i)"

text \<open>The primary keys a query with \<^verbatim>\<open>ORDER BY created_at DESC LIMIT n\<close> may return.\<close>

definition created :: "event_table \<Rightarrow> string \<Rightarrow> int" where
  "created t i = (case t i of None \<Rightarrow> 0 | Some row \<Rightarrow> r_created row)"

definition newest_first :: "event_table \<Rightarrow> string set \<Rightarrow> int \<Rightarrow> string list \<Rightarrow> bool" where
  "newest_first t matching n ids \<longleftrightarrow>
     distinct ids \<and> set ids \<subseteq> matching \<and> length ids = min (nat n) (card matching) \<and>
     sorted_wrt (\<lambda>i j. created t i \<ge> created t j) ids \<and>
     (\<forall>i \<in> set ids. \<forall>j \<in> matching - set ids. created t j \<le> created t i)"

definition keys_where :: "(event_row \<Rightarrow> bool) \<Rightarrow> event_table \<Rightarrow> string set" where
  "keys_where P t = {i. \<exists>row. t i = Some row \<and> P row}"

section \<open>What the source relies on of PostgreSQL\<close>

text \<open>
  A statement is atomic: when it succeeds it had its effect, when it fails (which includes a
  lost connection after the commit) it had its effect or none, and under a cancelled
  context it is not executed.
\<close>

locale postgres =
  fixes pool :: "'d pg_pool"
    and table :: "'d \<Rightarrow> event_table"
    and jsonb :: "string \<Rightarrow> string"
    and to_char :: "int \<Rightarrow> string"
  assumes cancelled_exec: "pg_Exec pool True stmt d = (res, d') \<Longrightarrow> (\<exists>err. res = Inl err) \<and> table d' = table d"
    and exec_ok: "pg_Exec pool ctx stmt d = (Inr (), d') \<Longrightarrow> stmt_uuid stmt \<Longrightarrow>
      \<exists>now. stmt_effect jsonb now stmt (table d) = Some (table d')"
    and exec_failed: "pg_Exec pool ctx stmt d = (Inl err, d') \<Longrightarrow> stmt_uuid stmt \<Longrightarrow>
      table d' = table d \<or> (\<exists>now. stmt_effect jsonb now stmt (table d) = Some (table d'))"
    and select_failed: "pg_Query pool ctx (SelectFailed a) d = Inr (rows, None) \<Longrightarrow>
      \<exists>ids. distinct ids \<and> set ids = keys_where (\<lambda>row. r_api_key row = a \<and> r_status row = ''failed'') (table d) \<and>
        rows = map (\<lambda>i. failed_row_event i (the (table d i))) ids"
    and select_by_status: "pg_Query pool ctx (SelectByStatus s n) d = Inr (rows, None) \<Longrightarrow>
      \<exists>ids. newest_first (table d) (keys_where (\<lambda>row. r_status row = s) (table d)) n ids \<and>
        rows = map (\<lambda>i. row_event to_char i (the (table d i))) ids"
    and select_all: "pg_Query pool ctx (SelectAll n) d = Inr (rows, None) \<Longrightarrow>
      \<exists>ids. newest_first (table d) (keys_where (\<lambda>row. True) (table d)) n ids \<and>
        rows = map (\<lambda>i. row_event to_char i (the (table d i))) ids"

section \<open>The contract of the event store\<close>

definition idem_key :: "WebhookEvent \<Rightarrow> string" where
  "idem_key ev = (if IdempotencyKey ev = '''' then ID ev else IdempotencyKey ev)"

text \<open>The row a saved event becomes.\<close>

definition row_of :: "(string \<Rightarrow> string) \<Rightarrow> int \<Rightarrow> WebhookEvent \<Rightarrow> event_row" where
  "row_of jsonb now ev =
     \<lparr>r_idem = Some (idem_key ev), r_api_key = APIKey ev, r_url = EventURL ev, r_payload = jsonb (Payload ev),
      r_status = Status ev, r_retry = 0, r_error = None, r_created = now\<rparr>"

definition saves :: "(string \<Rightarrow> string) \<Rightarrow> WebhookEvent \<Rightarrow> event_table \<Rightarrow> event_table \<Rightarrow> bool" where
  "saves jsonb ev t t' \<longleftrightarrow>
     (if has_idem t (idem_key ev) then t' = t
      else t (ID ev) = None \<and> (\<exists>now. t' = t(ID ev \<mapsto> row_of jsonb now ev)))"

definition set_status :: "string \<Rightarrow> string \<Rightarrow> string \<Rightarrow> event_table \<Rightarrow> event_table" where
  "set_status i status errMsg t =
     t(i := map_option (\<lambda>row. row\<lparr>r_status := status, r_error := (if errMsg = '''' then None else Some errMsg)\<rparr>) (t i))"

locale event_store =
  fixes es :: "'d EventStore"
    and table :: "'d \<Rightarrow> event_table"
    and jsonb :: "string \<Rightarrow> string"
  assumes save_law: "es_SaveEvent es ctx ev d = (r, d') \<Longrightarrow> uuid_text (ID ev) \<Longrightarrow>
      saves jsonb ev (table d) (table d') \<or> r \<noteq> None \<and> table d' = table d"
    and update_law: "es_UpdateEventStatus es ctx i status msg d = (r, d') \<Longrightarrow> uuid_text i \<Longrightarrow>
      table d' = set_status i status msg (table d) \<or> r \<noteq> None \<and> table d' = table d"
    and update_cancelled: "es_UpdateEventStatus es True i status msg d = (r, d') \<Longrightarrow> r \<noteq> None \<and> table d' = table d"
    and failed_law: "es_GetFailedEvents es ctx a d = Inr evs \<Longrightarrow>
      distinct (map ID evs) \<and> set (map ID evs) = keys_where (\<lambda>row. r_api_key row = a \<and> r_status row = ''failed'') (table d) \<and>
      (\<forall>ev \<in> set evs. failed_row_event (ID ev) (the (table d (ID ev))) = Inr ev)"

text \<open>Sequences of calls, and what no sequence of them may do to the table.\<close>

datatype store_op = StSave bool WebhookEvent | StUpdate bool string string string

fun store_apply :: "'d EventStore \<Rightarrow> store_op \<Rightarrow> 'd \<Rightarrow> 'd" where
  "store_apply es (StSave ctx ev) d = snd (es_SaveEvent es ctx ev d)"
| "store_apply es (StUpdate ctx i status msg) d = snd (es_UpdateEventStatus es ctx i status msg d)"

fun store_run :: "'d EventStore \<Rightarrow> store_op list \<Rightarrow> 'd \<Rightarrow> 'd" where
  "store_run es [] d = d"
| "store_run es (op # ops) d = store_run es ops (store_apply es op d)"

fun op_uuid :: "store_op \<Rightarrow> bool" where
  "op_uuid (StSave ctx ev) = uuid_text (ID ev)"
| "op_uuid (StUpdate ctx i status msg) = uuid_text i"

definition idem_unique :: "event_table \<Rightarrow> bool" where
  "idem_unique t \<longleftrightarrow>
     (\<forall>i j r s k. t i = Some r \<and> t j = Some s \<and> r_idem r = Some k \<and> r_idem s = Some k \<longrightarrow> i = j)"

definition same_event :: "event_row \<Rightarrow> event_row \<Rightarrow> bool" where
  "same_event r s \<longleftrightarrow> s = r\<lparr>r_status := r_status s, r_error := r_error s\<rparr>"

text \<open>Every row is kept, except for its status and error message.\<close>

definition keeps_rows :: "event_table \<Rightarrow> event_table \<Rightarrow> bool" where
  "keeps_rows t t' \<longleftrightarrow> (\<forall>i r. t i = Some r \<longrightarrow> (\<exists>s. t' i = Some s \<and> same_event r s))"

subsection \<open>A database that satisfies the laws\<close>

text \<open>The rows, newest first, and a clock that counts the statements.\<close>

type_synonym ref_db = "(string \<times> event_row) list \<times> int"

definition ref_table :: "ref_db \<Rightarrow> event_table" where
  "ref_table d = map_of (fst d)"

definition ref_ids :: "(event_row \<Rightarrow> bool) \<Rightarrow> ref_db \<Rightarrow> string list" where
  "ref_ids P d = filter (\<lambda>i. P (the (ref_table d i))) (remdups (map fst (fst d)))"

fun ref_exec :: "bool \<Rightarrow> sql \<Rightarrow> ref_db \<Rightarrow> (string + unit) \<times> ref_db" where
  "ref_exec True stmt d = (Inl ''context canceled'', d)"
| "ref_exec False (InsertEvent i k a u p s) (rows, now) =
     (if ref_ids (\<lambda>row. r_idem row = Some k) (rows, now) \<noteq> [] then (Inr (), rows, now + 1)
      else if map_of rows i \<noteq> None then (Inl ''duplicate key value'', rows, now + 1)
      else (Inr (), (i, \<lparr>r_idem = Some k, r_api_key = a, r_url = u, r_payload = p, r_status = s,
                         r_retry = 0, r_error = None, r_created = now\<rparr>) # rows, now + 1))"
| "ref_exec False (UpdateEvent s e i) (rows, now) =
     (case map_of rows i of
        None \<Rightarrow> (Inr (), rows, now + 1)
      | Some row \<Rightarrow> (Inr (), (i, row\<lparr>r_status := s, r_error := e\<rparr>) # rows, now + 1))"
| "ref_exec False stmt d = (Inr (), d)"

definition ref_newest :: "(event_row \<Rightarrow> bool) \<Rightarrow> int \<Rightarrow> ref_db \<Rightarrow> string list" where
  "ref_newest P n d = take (nat n) (sort_key (\<lambda>i. - created (ref_table d) i) (ref_ids P d))"

fun ref_query :: "bool \<Rightarrow> sql_query \<Rightarrow> ref_db \<Rightarrow> string + result_set" where
  "ref_query True q d = Inl ''context canceled''"
| "ref_query False (SelectFailed a) d =
     Inr (map (\<lambda>i. failed_row_event i (the (ref_table d i)))
       (ref_ids (\<lambda>row. r_api_key row = a \<and> r_status row = ''failed'') d), None)"
| "ref_query False (SelectByStatus s n) d =
     (if n < 0 then Inl ''LIMIT must not be negative''
      else Inr (map (\<lambda>i. row_event show_int i (the (ref_table d i))) (ref_newest (\<lambda>row. r_status row = s) n d), None))"
| "ref_query False (SelectAll n) d =
     (if n < 0 then Inl ''LIMIT must not be negative''
      else Inr (map (\<lambda>i. row_event show_int i (the (ref_table d i))) (ref_newest (\<lambda>row. True) n d), None))"

definition ref_pool :: "ref_db pg_pool" where
  "ref_pool = \<lparr>pg_Exec = ref_exec, pg_Query = ref_query\<rparr>"

definition ref_db0 :: ref_db where
  "ref_db0 = ([], 0)"

section \<open>Lemmas\<close>

subsection \<open>Tables\<close>

lemma same_event_refl [simp]: "same_event r r"
  by (simp add: same_event_def)

lemma same_event_trans: "same_event r s \<Longrightarrow> same_event s u \<Longrightarrow> same_event r u"
  by (cases r; cases s; cases u) (simp add: same_event_def)

lemma same_event_status [simp]: "same_event r (r\<lparr>r_status := s, r_error := e\<rparr>)"
  by (simp add: same_event_def)

lemma same_event_idem: "same_event r s \<Longrightarrow> r_idem s = r_idem r"
  unfolding same_event_def by (drule arg_cong [of _ _ r_idem]) simp

lemma keeps_rows_refl [simp]: "keeps_rows t t"
  by (auto simp: keeps_rows_def)

lemma keeps_rows_trans: "keeps_rows t u \<Longrightarrow> keeps_rows u v \<Longrightarrow> keeps_rows t v"
  unfolding keeps_rows_def by (meson same_event_trans)

lemma keeps_rows_has_idem: "keeps_rows t t' \<Longrightarrow> has_idem t k \<Longrightarrow> has_idem t' k"
proof -
  assume keeps: "keeps_rows t t'" and "has_idem t k"
  then obtain i r where r: "t i = Some r" "r_idem r = Some k" by (auto simp: has_idem_def ran_def)
  with keeps obtain s where "t' i = Some s" "same_event r s" by (auto simp: keeps_rows_def)
  with r have "s \<in> ran t'" "r_idem s = Some k" by (auto simp: same_event_idem intro: ranI)
  then show ?thesis by (auto simp: has_idem_def)
qed

lemma set_status_keeps [simp]: "keeps_rows t (set_status i s m t)"
  by (auto simp: keeps_rows_def set_status_def)

lemma set_status_idem:
  "set_status i s m t j = Some r \<Longrightarrow> \<exists>r0. t j = Some r0 \<and> r_idem r0 = r_idem r"
  by (auto simp: set_status_def split: if_splits)

lemma set_status_unique: "idem_unique t \<Longrightarrow> idem_unique (set_status i s m t)"
  unfolding idem_unique_def by (metis set_status_idem)

lemma saves_keeps: "saves jsonb ev t t' \<Longrightarrow> keeps_rows t t'"
  by (auto simp: saves_def keeps_rows_def split: if_splits)

lemma saves_unique: "saves jsonb ev t t' \<Longrightarrow> idem_unique t \<Longrightarrow> idem_unique t'"
  unfolding saves_def idem_unique_def has_idem_def ran_def row_of_def
  by (auto split: if_splits) (metis option.inject)+

lemma has_idem_upd: "r_idem r = Some k \<Longrightarrow> has_idem (t(i \<mapsto> r)) k"
  unfolding has_idem_def ran_def by (rule bexI [of _ r]) auto

lemma saves_has_idem: "saves jsonb ev t t' \<Longrightarrow> has_idem t' (idem_key ev)"
  by (auto simp: saves_def row_of_def has_idem_upd split: if_splits)

lemma keys_where_dom: "i \<in> keys_where P t \<Longrightarrow> \<exists>row. t i = Some row \<and> P row"
  by (simp add: keys_where_def)

subsection \<open>Clients of the contract\<close>

context event_store
begin

lemma apply_cases:
  assumes "op_uuid op"
  shows "table (store_apply es op d) = table d \<or>
    (\<exists>ctx ev. op = StSave ctx ev \<and> saves jsonb ev (table d) (table (store_apply es op d))) \<or>
    (\<exists>ctx i s m. op = StUpdate ctx i s m \<and> table (store_apply es op d) = set_status i s m (table d))"
proof (cases op)
  case (StSave ctx ev)
  obtain r d' where "es_SaveEvent es ctx ev d = (r, d')" by fastforce
  with save_law [OF this] StSave assms show ?thesis by auto
next
  case (StUpdate ctx i s m)
  obtain r d' where "es_UpdateEventStatus es ctx i s m d = (r, d')" by fastforce
  with update_law [OF this] StUpdate assms show ?thesis by auto
qed

lemma run_inv:
  "list_all op_uuid ops \<Longrightarrow> keeps_rows (table d) (table (store_run es ops d)) \<and>
     (idem_unique (table d) \<longrightarrow> idem_unique (table (store_run es ops d)))"
proof (induction ops arbitrary: d)
  case (Cons op ops)
  have "keeps_rows (table d) (table (store_apply es op d)) \<and>
     (idem_unique (table d) \<longrightarrow> idem_unique (table (store_apply es op d)))"
    using apply_cases [of op d] Cons.prems
    by (auto dest: saves_keeps saves_unique simp: set_status_unique simp del: store_apply.simps)
  with Cons show ?case by (auto intro: keeps_rows_trans)
qed simp

lemma save_then_duplicate:
  assumes "es_SaveEvent es ctx ev d = (None, d1)" and "uuid_text (ID ev)"
    and "list_all op_uuid ops" and "uuid_text (ID ev')" and "idem_key ev' = idem_key ev"
  shows "table (snd (es_SaveEvent es ctx' ev' (store_run es ops d1))) = table (store_run es ops d1)"
proof -
  have "has_idem (table d1) (idem_key ev)"
    using save_law [OF assms(1,2)] by (simp add: saves_has_idem)
  then have dup: "has_idem (table (store_run es ops d1)) (idem_key ev')"
    using run_inv [OF assms(3), of d1] keeps_rows_has_idem assms(5) by metis
  obtain r d2 where "es_SaveEvent es ctx' ev' (store_run es ops d1) = (r, d2)" by fastforce
  from save_law [OF this assms(4)] this dup show ?thesis by (auto simp: saves_def)
qed

end

subsection \<open>The methods satisfy the contract\<close>

lemma NewPostgresEventStore_sel [simp]:
  "es_SaveEvent (NewPostgresEventStore pool) = SaveEvent pool"
  "es_UpdateEventStatus (NewPostgresEventStore pool) = UpdateEventStatus pool"
  "es_GetFailedEvents (NewPostgresEventStore pool) = GetFailedEvents pool"
  "es_GetEvents (NewPostgresEventStore pool) = GetEvents pool"
  by (simp_all add: NewPostgresEventStore_def)

lemma scan_rows_Inr:
  "scan_rows msg rows acc = Inr evs \<longleftrightarrow> (\<exists>evs'. rows = map Inr evs' \<and> evs = acc @ evs')"
proof (induction msg rows acc rule: scan_rows.induct)
  case (3 msg ev rows acc)
  have "(\<exists>evs'. Inr ev # rows = map Inr evs' \<and> evs = acc @ evs') \<longleftrightarrow>
    (\<exists>evs'. rows = map Inr evs' \<and> evs = (acc @ [ev]) @ evs')"
    by (auto simp: Cons_eq_map_conv)
  with 3 show ?case by simp
qed (auto simp: Cons_eq_map_conv)

lemma SaveEvent_stmt:
  "SaveEvent pool ctx ev d = (case pg_Exec pool ctx
      (InsertEvent (ID ev) (idem_key ev) (APIKey ev) (EventURL ev) (Payload ev) (Status ev)) d of
        (Inl err, d') \<Rightarrow> (Some (''failed to execute insert event query: '' @ err), d')
      | (Inr _, d') \<Rightarrow> (None, d'))"
  by (simp add: SaveEvent_def idem_key_def)

lemma insert_effect_saves:
  "stmt_effect jsonb now (InsertEvent (ID ev) (idem_key ev) (APIKey ev) (EventURL ev) (Payload ev) (Status ev)) t = Some t' \<Longrightarrow>
     saves jsonb ev t t'"
  by (auto simp: saves_def row_of_def split: if_splits)

lemma update_effect:
  "stmt_effect jsonb now (UpdateEvent s (if m \<noteq> '''' then Some m else None) i) t = Some (set_status i s m t)"
  by (simp add: set_status_def)

lemma failed_row_event_Inr:
  "failed_row_event i row = Inr ev \<Longrightarrow> ID ev = i \<and> APIKey ev = r_api_key row \<and> EventURL ev = r_url row \<and>
     Payload ev = r_payload row \<and> Status ev = r_status row \<and> r_idem row = Some (IdempotencyKey ev)"
  by (auto simp: failed_row_event_def zero_event_def split: option.splits)

lemma failed_row_event_ID: "failed_row_event i row = Inr ev \<Longrightarrow> ID ev = i"
  by (simp add: failed_row_event_Inr)

lemma row_event_ID: "row_event to_char i row = Inr ev \<Longrightarrow> ID ev = i"
  by (auto simp: row_event_def split: option.splits)

lemma map_Inr_ids:
  assumes eq: "map Inr evs = map (\<lambda>i. f i (t i)) ids" and ID: "\<And>i row ev. f i row = Inr ev \<Longrightarrow> ID ev = i"
  shows "map ID evs = ids \<and> (\<forall>ev \<in> set evs. f (ID ev) (t (ID ev)) = Inr ev)"
proof -
  have len: "length evs = length ids" using arg_cong [OF eq, of length] by simp
  have nth: "f (ids ! n) (t (ids ! n)) = Inr (evs ! n)" if "n < length ids" for n
    using arg_cong [OF eq, of "\<lambda>xs. xs ! n"] that len by simp
  have "map ID evs = ids" using len ID [OF nth] by (simp add: list_eq_iff_nth_eq)
  moreover have "\<forall>ev \<in> set evs. f (ID ev) (t (ID ev)) = Inr ev"
    using nth len ID by (metis in_set_conv_nth)
  ultimately show ?thesis by blast
qed

context postgres
begin

lemma SaveEvent_law:
  assumes "SaveEvent pool ctx ev d = (r, d')" and "uuid_text (ID ev)"
  shows "saves jsonb ev (table d) (table d') \<or> r \<noteq> None \<and> table d' = table d"
proof -
  let ?stmt = "InsertEvent (ID ev) (idem_key ev) (APIKey ev) (EventURL ev) (Payload ev) (Status ev)"
  obtain res where "pg_Exec pool ctx ?stmt d = (res, d')"
    and r: "r = (case res of Inl err \<Rightarrow> Some (''failed to execute insert event query: '' @ err) | Inr _ \<Rightarrow> None)"
    using assms(1) by (auto simp: SaveEvent_stmt split: prod.splits sum.splits)
  moreover have "stmt_uuid ?stmt" using assms(2) by (simp add: stmt_uuid_def)
  ultimately show ?thesis
    using exec_ok [of ctx ?stmt d d'] exec_failed [of ctx ?stmt d _ d']
    by (cases res) (auto dest: insert_effect_saves simp del: stmt_effect.simps)
qed

lemma UpdateEventStatus_law:
  assumes "UpdateEventStatus pool ctx i s m d = (r, d')"
  shows "(uuid_text i \<longrightarrow> table d' = set_status i s m (table d) \<or> r \<noteq> None \<and> table d' = table d) \<and>
    (ctx \<longrightarrow> r \<noteq> None \<and> table d' = table d)"
proof -
  let ?stmt = "UpdateEvent s (if m \<noteq> '''' then Some m else None) i"
  obtain res where ex: "pg_Exec pool ctx ?stmt d = (res, d')"
    and r: "r = (case res of Inl err \<Rightarrow> Some (''failed to execute update event status query: '' @ err) | Inr _ \<Rightarrow> None)"
    using assms(1) by (auto simp: UpdateEventStatus_def Let_def split: prod.splits sum.splits)
  have "uuid_text i \<longrightarrow> stmt_uuid ?stmt" by (simp add: stmt_uuid_def)
  with ex r exec_ok [of ctx ?stmt d d'] exec_failed [of ctx ?stmt d _ d'] cancelled_exec [of ?stmt d res d']
  show ?thesis
    by (cases res; cases ctx) (auto simp: update_effect simp del: stmt_effect.simps)
qed

lemma GetFailedEvents_law:
  assumes "GetFailedEvents pool ctx a d = Inr evs"
  shows "distinct (map ID evs) \<and> set (map ID evs) = keys_where (\<lambda>row. r_api_key row = a \<and> r_status row = ''failed'') (table d) \<and>
      (\<forall>ev \<in> set evs. failed_row_event (ID ev) (the (table d (ID ev))) = Inr ev)"
proof -
  obtain rows where q: "pg_Query pool ctx (SelectFailed a) d = Inr (rows, None)" and rows: "rows = map Inr evs"
    using assms by (auto simp: GetFailedEvents_def scan_rows_Inr split: sum.splits option.splits)
  from select_failed [OF q] obtain ids where ids: "distinct ids"
    "set ids = keys_where (\<lambda>row. r_api_key row = a \<and> r_status row = ''failed'') (table d)"
    and eq: "map Inr evs = map (\<lambda>i. failed_row_event i (the (table d i))) ids"
    using rows by metis
  from map_Inr_ids [where f = failed_row_event, OF eq failed_row_event_ID] ids show ?thesis by auto
qed

end

sublocale postgres \<subseteq> pg: event_store "NewPostgresEventStore pool" table jsonb
proof (unfold_locales, goal_cases)
  case (1 ctx ev d r d')
  then show ?case using SaveEvent_law by simp
next
  case (2 ctx i status msg d r d')
  then show ?case using UpdateEventStatus_law [of ctx i status msg d r d'] by simp
next
  case (3 i status msg d r d')
  then show ?case using UpdateEventStatus_law [of True i status msg d r d'] by simp
next
  case (4 ctx a d evs)
  then show ?case using GetFailedEvents_law by simp
qed

context postgres
begin

lemma store_ok: "event_store (NewPostgresEventStore pool) table jsonb"
  by (rule pg.event_store_axioms)

end

subsection \<open>The reference database\<close>

lemma set_ref_ids: "set (ref_ids P d) = keys_where P (ref_table d)"
  by (auto simp: ref_ids_def keys_where_def ref_table_def map_of_eq_None_iff dest: map_of_SomeD)
    (metis fst_conv image_eqI map_of_SomeD weak_map_of_SomeI option.sel)+

lemma distinct_ref_ids [simp]: "distinct (ref_ids P d)"
  by (simp add: ref_ids_def)

lemma ref_has_idem: "ref_ids (\<lambda>row. r_idem row = Some k) d \<noteq> [] \<longleftrightarrow> has_idem (ref_table d) k"
  using set_ref_ids [of "\<lambda>row. r_idem row = Some k" d]
  by (auto simp: has_idem_def keys_where_def ran_def simp flip: set_empty)

lemma ref_exec_effect:
  "ref_exec False stmt d = (Inr (), d') \<Longrightarrow> stmt_effect (\<lambda>p. p) (snd d) stmt (ref_table d) = Some (ref_table d')"
proof (induction False stmt d rule: ref_exec.induct)
  case (2 i k a u p s rows now)
  then show ?case
    using ref_has_idem [of k "(rows, now)"] by (auto simp: ref_table_def split: if_splits)
next
  case (3 s e i rows now)
  then show ?case by (cases "map_of rows i") (auto simp: ref_table_def)
qed auto

lemma ref_exec_failed: "ref_exec ctx stmt d = (Inl err, d') \<Longrightarrow> ref_table d' = ref_table d"
  by (induction ctx stmt d rule: ref_exec.induct) (auto simp: ref_table_def split: if_splits option.splits)

lemma ref_newest_first:
  assumes "0 \<le> n"
  shows "newest_first (ref_table d) (keys_where P (ref_table d)) n (ref_newest P n d)"
proof -
  let ?xs = "sort_key (\<lambda>i. - created (ref_table d) i) (ref_ids P d)"
  have xs: "distinct ?xs" "set ?xs = keys_where P (ref_table d)"
    by (simp_all add: set_ref_ids)
  then have len: "length ?xs = card (keys_where P (ref_table d))"
    by (metis distinct_card)
  have srt: "sorted_wrt (\<lambda>i j. created (ref_table d) i \<ge> created (ref_table d) j) ?xs"
    using sorted_sort_key [of "\<lambda>i. - created (ref_table d) i" "ref_ids P d"] by (simp add: sorted_wrt_map)
  then have "sorted_wrt (\<lambda>i j. created (ref_table d) i \<ge> created (ref_table d) j) (take (nat n) ?xs @ drop (nat n) ?xs)"
    by simp
  then have "\<forall>i \<in> set (take (nat n) ?xs). \<forall>j \<in> set (drop (nat n) ?xs). created (ref_table d) j \<le> created (ref_table d) i"
    and "sorted_wrt (\<lambda>i j. created (ref_table d) i \<ge> created (ref_table d) j) (take (nat n) ?xs)"
    unfolding sorted_wrt_append by blast+
  moreover have "set ?xs - set (take (nat n) ?xs) \<subseteq> set (drop (nat n) ?xs)"
    by (metis Diff_subset_conv append_take_drop_id set_append subset_refl)
  ultimately show ?thesis
    using xs len set_take_subset [of "nat n" ?xs]
    by (auto simp: newest_first_def ref_newest_def simp del: set_sort sort_key_simps)
qed

interpretation refdb: postgres ref_pool ref_table "\<lambda>p. p" show_int
proof (unfold_locales, goal_cases)
  case (1 stmt d res d')
  then show ?case by (auto simp: ref_pool_def)
next
  case (2 ctx stmt d d')
  then show ?case
    using ref_exec_effect [of stmt d d'] by (cases ctx) (auto simp: ref_pool_def)
next
  case (3 ctx stmt d err d')
  then show ?case using ref_exec_failed [of ctx stmt d err d'] by (simp add: ref_pool_def)
next
  case (4 ctx a d rows)
  then show ?case
    by (cases ctx) (auto simp: ref_pool_def set_ref_ids [symmetric] intro!: exI [of _ "ref_ids _ d"])
next
  case (5 ctx s n d rows)
  then show ?case
    by (cases ctx) (auto simp: ref_pool_def ref_newest_first split: if_splits intro!: exI [of _ "ref_newest _ n d"])
next
  case (6 ctx n d rows)
  then show ?case
    by (cases ctx) (auto simp: ref_pool_def ref_newest_first split: if_splits intro!: exI [of _ "ref_newest _ n d"])
qed

subsection \<open>Schema set-up\<close>

lemma exec_all_append:
  "exec_all pool ctx (xs @ ys) d =
     (case exec_all pool ctx xs d of (None, d') \<Rightarrow> exec_all pool ctx ys d' | (Some err, d') \<Rightarrow> (Some err, d'))"
  by (induction xs arbitrary: d) (auto split: prod.splits sum.splits)

lemma exec_all_prefix:
  "exec_all pool ctx (us @ (stmt, msg) # vs) d = (None, d') \<Longrightarrow>
     \<exists>d1 d2. exec_all pool ctx us d = (None, d1) \<and> pg_Exec pool ctx stmt d1 = (Inr (), d2)"
  by (auto simp: exec_all_append split: prod.splits option.splits sum.splits)

lemma exec_all_error:
  "exec_all pool ctx xs d = (Some err, d') \<Longrightarrow>
     \<exists>us stmt msg vs d1 e. xs = us @ (stmt, msg) # vs \<and> exec_all pool ctx us d = (None, d1) \<and>
       pg_Exec pool ctx stmt d1 = (Inl e, d') \<and> err = msg @ e"
proof (induction xs arbitrary: d)
  case (Cons x xs)
  obtain stmt msg res d1 where x: "x = (stmt, msg)" "pg_Exec pool ctx stmt d = (res, d1)" by fastforce
  show ?case
  proof (cases res)
    case (Inl e)
    with Cons.prems x have "x # xs = [] @ (stmt, msg) # xs \<and> exec_all pool ctx [] d = (None, d) \<and>
       pg_Exec pool ctx stmt d = (Inl e, d') \<and> err = msg @ e" by simp
    then show ?thesis by blast
  next
    case (Inr u)
    with Cons.prems x have "exec_all pool ctx xs d1 = (Some err, d')" by simp
    then obtain us stmt' msg' vs d2 e where "xs = us @ (stmt', msg') # vs" "exec_all pool ctx us d1 = (None, d2)"
       "pg_Exec pool ctx stmt' d2 = (Inl e, d')" "err = msg' @ e"
      using Cons.IH by blast
    with x Inr have "x # xs = (x # us) @ (stmt', msg') # vs \<and> exec_all pool ctx (x # us) d = (None, d2) \<and>
       pg_Exec pool ctx stmt' d2 = (Inl e, d') \<and> err = msg' @ e" by simp
    then show ?thesis by blast
  qed
qed simp

lemma exec_all_table:
  assumes "postgres pool table jsonb to_char"
  shows "\<forall>(stmt, msg) \<in> set xs. stmt_id stmt = None \<Longrightarrow> exec_all pool ctx xs d = (r, d') \<Longrightarrow> table d' = table d"
proof (induction xs arbitrary: d)
  case (Cons x xs)
  obtain stmt msg res d1 where x: "x = (stmt, msg)" "pg_Exec pool ctx stmt d = (res, d1)" by fastforce
  have "stmt_id stmt = None" using Cons.prems(1) x by auto
  then have "stmt_uuid stmt" "\<And>now t. stmt_effect jsonb now stmt t = Some t"
    by (cases stmt; simp add: stmt_uuid_def)+
  then have "table d1 = table d"
    using x postgres.exec_ok [OF assms, of ctx stmt d d1] postgres.exec_failed [OF assms, of ctx stmt d _ d1]
    by (cases res) auto
  with Cons x show ?case by (cases res) auto
qed simp

subsection \<open>Sample data\<close>

definition uuid_a :: string where "uuid_a = ''a0000000-0000-4000-8000-000000000001''"
definition uuid_b :: string where "uuid_b = ''b0000000-0000-4000-8000-000000000002''"

definition sample_event :: "string \<Rightarrow> string \<Rightarrow> WebhookEvent" where
  "sample_event i key = zero_event\<lparr>ID := i, APIKey := ''acme'', EventURL := ''http://x'', Payload := ''{}'',
     Status := ''pending'', IdempotencyKey := key\<rparr>"

lemma uuid_ab [simp]: "uuid_text uuid_a" "uuid_text uuid_b"
  by code_simp+

lemma uuid_neq [simp]: "uuid_a \<noteq> uuid_b" "uuid_b \<noteq> uuid_a" "uuid_a \<noteq> ''''" "uuid_b \<noteq> ''''"
  by code_simp+

lemma sample_event_sel [simp]:
  "ID (sample_event i k) = i" "APIKey (sample_event i k) = ''acme''" "EventURL (sample_event i k) = ''http://x''"
  "Payload (sample_event i k) = ''{}''" "Status (sample_event i k) = ''pending''"
  "IdempotencyKey (sample_event i k) = k"
  by (simp_all add: sample_event_def zero_event_def)

definition sample_row :: "string \<Rightarrow> event_row" where
  "sample_row status = \<lparr>r_idem = Some ''k'', r_api_key = ''acme'', r_url = ''http://x'', r_payload = ''{}'',
     r_status = status, r_retry = 0, r_error = None, r_created = 0\<rparr>"

lemmas store_eval = SaveEvent_def UpdateEventStatus_def GetFailedEvents_def GetEvents_def ref_pool_def ref_db0_def
  ref_ids_def ref_table_def idem_key_def Let_def

section \<open>Properties\<close>

text \<open>
  Once \<^verbatim>\<open>SaveEvent\<close> has succeeded for an event, saving another event with the same
  idempotency key (an absent key counts as the event's ID) leaves the table exactly as it
  is, whatever saves and status updates, successful, failed or cancelled, happen in between.
\<close>

theorem save_idempotent:
  assumes "postgres pool table jsonb to_char"
    and "SaveEvent pool ctx ev d = (None, d1)" and "uuid_text (ID ev)"
    and "list_all op_uuid ops"
    and "uuid_text (ID ev')" and "idem_key ev' = idem_key ev"
  shows "table (snd (SaveEvent pool ctx' ev' (store_run (NewPostgresEventStore pool) ops d1))) =
    table (store_run (NewPostgresEventStore pool) ops d1)"
  using event_store.save_then_duplicate [OF postgres.store_ok [OF assms(1)], of ctx ev d d1] assms(2-)
  by simp

theorem save_idempotent_witness:
  "\<exists>d1. SaveEvent ref_pool False (sample_event uuid_a ''k'') ref_db0 = (None, d1) \<and>
     ref_table d1 uuid_a \<noteq> None \<and>
     ref_table (snd (SaveEvent ref_pool False (sample_event uuid_b ''k'')
       (store_run (NewPostgresEventStore ref_pool) [StUpdate False uuid_a ''failed'' ''x''] d1))) uuid_b = None"
proof -
  obtain d1 where s: "SaveEvent ref_pool False (sample_event uuid_a ''k'') ref_db0 = (None, d1)"
    and a: "ref_table d1 uuid_a \<noteq> None" and b: "ref_table d1 uuid_b = None"
    by (simp add: store_eval)
  have run: "store_run (NewPostgresEventStore ref_pool) [StUpdate False uuid_a ''failed'' ''x''] d1 =
    snd (UpdateEventStatus ref_pool False uuid_a ''failed'' ''x'' d1)" by simp
  have "ref_table (snd (UpdateEventStatus ref_pool False uuid_a ''failed'' ''x'' d1)) uuid_b = None"
    using b by (cases d1) (auto simp: store_eval split: option.splits)
  with save_idempotent [OF refdb.postgres_axioms s, of "[StUpdate False uuid_a ''failed'' ''x'']"
      "sample_event uuid_b ''k''" False] s a
  show ?thesis by (simp add: run idem_key_def)
qed



text \<open>
  \<^verbatim>\<open>GetFailedEvents\<close> returns each failed event of the given API key exactly once, with
  the stored values, and never an event of another API key.
\<close>

theorem GetFailedEvents_exact:
  assumes "postgres pool table jsonb to_char" and "GetFailedEvents pool ctx a d = Inr evs"
  shows "distinct (map ID evs) \<and>
    (\<forall>i. i \<in> ID ` set evs \<longleftrightarrow> (\<exists>row. table d i = Some row \<and> r_api_key row = a \<and> r_status row = ''failed'')) \<and>
    (\<forall>ev \<in> set evs. \<exists>row. table d (ID ev) = Some row \<and> APIKey ev = a \<and> Status ev = ''failed'' \<and>
      EventURL ev = r_url row \<and> Payload ev = r_payload row \<and> r_idem row = Some (IdempotencyKey ev))"
proof (intro conjI allI ballI)
  note law = postgres.GetFailedEvents_law [OF assms]
  show "distinct (map ID evs)" using law by blast
  show "i \<in> ID ` set evs \<longleftrightarrow> (\<exists>row. table d i = Some row \<and> r_api_key row = a \<and> r_status row = ''failed'')" for i
    using law by (auto simp: keys_where_def)
  fix ev assume ev: "ev \<in> set evs"
  with law have "ID ev \<in> keys_where (\<lambda>row. r_api_key row = a \<and> r_status row = ''failed'') (table d)"
    by (metis image_eqI list.set_map)
  then obtain row where row: "table d (ID ev) = Some row" "r_api_key row = a" "r_status row = ''failed''"
    by (auto simp: keys_where_def)
  moreover have "failed_row_event (ID ev) row = Inr ev" using law ev row by force
  ultimately show "\<exists>row. table d (ID ev) = Some row \<and> APIKey ev = a \<and> Status ev = ''failed'' \<and>
      EventURL ev = r_url row \<and> Payload ev = r_payload row \<and> r_idem row = Some (IdempotencyKey ev)"
    using failed_row_event_Inr [of "ID ev" row ev] by auto
qed

theorem GetFailedEvents_exact_witness:
  "\<exists>evs. GetFailedEvents ref_pool False ''acme'' ([(uuid_a, sample_row ''failed''), (uuid_b, sample_row ''pending'')], 2) = Inr evs \<and>
     uuid_a \<in> ID ` set evs \<and> uuid_b \<notin> ID ` set evs"
proof -
  let ?d = "([(uuid_a, sample_row ''failed''), (uuid_b, sample_row ''pending'')], 2)"
  have "\<exists>evs. GetFailedEvents ref_pool False ''acme'' ?d = Inr evs"
    by (simp add: store_eval sample_row_def failed_row_event_def)
  then obtain evs where "GetFailedEvents ref_pool False ''acme'' ?d = Inr evs" by blast
  with GetFailedEvents_exact [OF refdb.postgres_axioms this] show ?thesis
    by (auto simp: ref_table_def sample_row_def)
qed

text \<open>
  \<^verbatim>\<open>GetEvents\<close> returns at most \<open>limit\<close> events, newest first: stored rows with the
  requested status (all rows when none is requested), and no row it leaves out for the limit
  is newer than one it returns.
\<close>

theorem GetEvents_newest:
  assumes "postgres pool table jsonb to_char" and "GetEvents pool ctx limit status d = Inr evs"
  shows "newest_first (table d) (keys_where (\<lambda>row. status = '''' \<or> r_status row = status) (table d)) limit (map ID evs) \<and>
    list_all (\<lambda>ev. \<exists>row. table d (ID ev) = Some row \<and> row_event to_char (ID ev) row = Inr ev) evs"
proof -
  let ?P = "\<lambda>row. status = '''' \<or> r_status row = status"
  obtain rows where q: "pg_Query pool ctx (if status \<noteq> '''' then SelectByStatus status limit else SelectAll limit) d = Inr (rows, None)"
    and rows: "rows = map Inr evs"
    using assms(2) by (auto simp: GetEvents_def Let_def scan_rows_Inr split: sum.splits option.splits)
  have "\<exists>ids. newest_first (table d) (keys_where ?P (table d)) limit ids \<and>
      rows = map (\<lambda>i. row_event to_char i (the (table d i))) ids"
    using q postgres.select_by_status [OF assms(1), of ctx status limit d rows]
      postgres.select_all [OF assms(1), of ctx limit d rows]
    by (cases "status = ''''") simp_all
  then obtain ids where ids: "newest_first (table d) (keys_where ?P (table d)) limit ids"
    and eq: "map Inr evs = map (\<lambda>i. row_event to_char i (the (table d i))) ids"
    unfolding rows by (elim exE conjE)
  have ID: "map ID evs = ids" and ev: "\<forall>ev \<in> set evs. row_event to_char (ID ev) (the (table d (ID ev))) = Inr ev"
    using map_Inr_ids [where f = "row_event to_char", OF eq row_event_ID] by auto
  have "set ids \<subseteq> keys_where ?P (table d)" using ids by (simp add: newest_first_def)
  with ID have "\<forall>ev \<in> set evs. \<exists>row. table d (ID ev) = Some row"
    by (force simp: keys_where_def)
  then have "list_all (\<lambda>ev. \<exists>row. table d (ID ev) = Some row \<and> row_event to_char (ID ev) row = Inr ev) evs"
    using ev by (force simp: list_all_iff)
  with ids ID show ?thesis by blast
qed

theorem GetEvents_newest_witness:
  "\<exists>evs. GetEvents ref_pool False 1 ''failed''
       ([(uuid_a, sample_row ''failed''), (uuid_b, sample_row ''failed'')], 2) = Inr evs \<and> length (map ID evs) = 1"
proof -
  let ?d = "([(uuid_a, sample_row ''failed''), (uuid_b, sample_row ''failed'')], 2)"
  have "\<exists>evs. GetEvents ref_pool False 1 ''failed'' ?d = Inr evs"
    by (simp add: store_eval sample_row_def row_event_def ref_newest_def created_def)
  then obtain evs where g: "GetEvents ref_pool False 1 ''failed'' ?d = Inr evs" by blast
  have "keys_where (\<lambda>row. ''failed'' = '''' \<or> r_status row = ''failed'') (ref_table ?d) = {uuid_a, uuid_b}"
    by (auto simp: keys_where_def ref_table_def sample_row_def split: if_splits)
  with GetEvents_newest [OF refdb.postgres_axioms g] g show ?thesis
    by (auto simp: newest_first_def)
qed

text \<open>
  \<^verbatim>\<open>InitSchema\<close> succeeds exactly when its six statements all succeed in their order; on
  an error it has executed exactly the statements before the failing one and reports that
  one's message; and it never touches a row.
\<close>

theorem InitSchema_ordered:
  assumes "postgres pool table jsonb to_char" and "InitSchema pool ctx d = (r, d')"
  shows "table d' = table d \<and>
    (case r of
       None \<Rightarrow> \<forall>us stmt msg vs. schema_statements = us @ (stmt, msg) # vs \<longrightarrow>
         (\<exists>d1 d2. exec_all pool ctx us d = (None, d1) \<and> pg_Exec pool ctx stmt d1 = (Inr (), d2))
     | Some err \<Rightarrow> \<exists>us stmt msg vs d1 e. schema_statements = us @ (stmt, msg) # vs \<and>
         exec_all pool ctx us d = (None, d1) \<and> pg_Exec pool ctx stmt d1 = (Inl e, d') \<and> err = msg @ e)"
proof -
  have "\<forall>(stmt, msg) \<in> set schema_statements. stmt_id stmt = None"
    by (simp add: schema_statements_def)
  with assms(2) have "table d' = table d"
    using exec_all_table [OF assms(1)] by (simp add: InitSchema_def)
  with assms(2) show ?thesis
    using exec_all_error [of pool ctx schema_statements d _ d'] exec_all_prefix [of pool ctx _ _ _ _ d d']
    unfolding InitSchema_def by (cases r) (simp_all, metis)
qed

theorem InitSchema_ordered_witness:
  "\<exists>d'. InitSchema ref_pool False ref_db0 = (None, d') \<and> ref_table d' = ref_table ref_db0"
proof -
  have "\<exists>d'. InitSchema ref_pool False ref_db0 = (None, d')"
    by (simp add: InitSchema_def schema_statements_def ref_pool_def)
  then obtain d' where "InitSchema ref_pool False ref_db0 = (None, d')" by blast
  with InitSchema_ordered [OF refdb.postgres_axioms this] show ?thesis by simp
qed

end
