(* ===== verification/Event_Codec.thy ===== *)
theory Event_Codec
  imports Go_Json Net_Http Event_Store
begin

text \<open>
  The JSON forms of the program's own data, as \<^verbatim>\<open>encoding/json\<close> derives them from the struct
  tags: an event (\<^verbatim>\<open>src/internal/events/events.go\<close>) as it is published and answered, and the
  bodies of the webhook and replay requests (\<^verbatim>\<open>src/cmd/gateway/main.go\<close>).

  A member's name is compared with the field names up to case folding; a null leaves a field as
  it is, except that a raw message takes the text \<^verbatim>\<open>null\<close> and a pointer becomes nil; of repeated
  members the last counts; a value of the wrong type is an error. The theory shows that an event
  that was encoded is decoded to itself, with malformed UTF-8 replaced and the payload in compact
  form.
\<close>

section \<open>Definitions\<close>

text \<open>
  \<^verbatim>\<open>foldName\<close>, as far as it can meet an ASCII name: ASCII letters to upper case, and the Kelvin
  sign and the long s, which fold to K and S.
\<close>

fun fold_name :: "string \<Rightarrow> string" where
  "fold_name [] = []"
| "fold_name (c # s) =
     (if c = CHR 0xE2 \<and> take 2 s = [CHR 0x84, CHR 0xAA] then CHR ''K'' # fold_name (drop 2 s)
      else if c = CHR 0xC5 \<and> take 1 s = [CHR 0xBF] then CHR ''S'' # fold_name (drop 1 s)
      else to_upper c # fold_name s)"

definition field_name :: "string \<Rightarrow> string" where
  "field_name k = fold_name (unquote k)"

text \<open>Storing a value into a field of type \<^verbatim>\<open>string\<close>, \<^verbatim>\<open>int\<close> and \<^verbatim>\<open>*string\<close> that holds \<open>cur\<close>; None is a type error.\<close>

fun store_string :: "string \<Rightarrow> json \<Rightarrow> string option" where
  "store_string cur JNull = Some cur"
| "store_string cur (JStr raw) = Some (unquote raw)"
| "store_string cur v = None"

fun store_int :: "int \<Rightarrow> json \<Rightarrow> int option" where
  "store_int cur JNull = Some cur"
| "store_int cur (JNum tok) = parse_int64 tok"
| "store_int cur v = None"

fun store_pointer :: "json \<Rightarrow> string option option" where
  "store_pointer JNull = Some None"
| "store_pointer (JStr raw) = Some (Some (unquote raw))"
| "store_pointer v = None"

subsection \<open>Events\<close>

definition payload_json :: "string \<Rightarrow> json option" where
  "payload_json p = (if p = '''' then Some JNull else map_option html_escape (decode_all p))"

definition event_fields :: "WebhookEvent \<Rightarrow> json \<Rightarrow> (string \<times> json) list" where
  "event_fields ev p =
     [(''id'', json_string (ID ev)), (''api_key'', json_string (APIKey ev)), (''target_url'', json_string (EventURL ev)),
      (''payload'', p), (''status'', json_string (Status ev))] @
     (if IdempotencyKey ev = '''' then [] else [(''idempotency_key'', json_string (IdempotencyKey ev))]) @
     [(''retry_count'', json_int (RetryCount ev))] @
     (case ErrorMessage ev of None \<Rightarrow> [] | Some m \<Rightarrow> [(''error_message'', json_string m)]) @
     (if CreatedAt ev = '''' then [] else [(''created_at'', json_string (CreatedAt ev))])"

definition event_json :: "WebhookEvent \<Rightarrow> json option" where
  "event_json ev = map_option (\<lambda>p. JObj (event_fields ev p)) (payload_json (Payload ev))"

definition marshal_event :: "WebhookEvent \<Rightarrow> string + string" where
  "marshal_event ev =
     (case event_json ev of
        None \<Rightarrow> Inl ''json: error calling MarshalJSON for type json.RawMessage''
      | Some v \<Rightarrow> Inr (print_json v))"

definition set_field :: "WebhookEvent \<Rightarrow> string \<times> json \<times> string \<Rightarrow> WebhookEvent option" where
  "set_field ev m =
     (case m of (k, v, raw) \<Rightarrow>
        let f = field_name k in
        if f = ''ID'' then map_option (\<lambda>s. ev\<lparr>ID := s\<rparr>) (store_string (ID ev) v)
        else if f = ''API_KEY'' then map_option (\<lambda>s. ev\<lparr>APIKey := s\<rparr>) (store_string (APIKey ev) v)
        else if f = ''TARGET_URL'' then map_option (\<lambda>s. ev\<lparr>EventURL := s\<rparr>) (store_string (EventURL ev) v)
        else if f = ''PAYLOAD'' then Some (ev\<lparr>Payload := raw\<rparr>)
        else if f = ''STATUS'' then map_option (\<lambda>s. ev\<lparr>Status := s\<rparr>) (store_string (Status ev) v)
        else if f = ''IDEMPOTENCY_KEY'' then map_option (\<lambda>s. ev\<lparr>IdempotencyKey := s\<rparr>) (store_string (IdempotencyKey ev) v)
        else if f = ''RETRY_COUNT'' then map_option (\<lambda>i. ev\<lparr>RetryCount := i\<rparr>) (store_int (RetryCount ev) v)
        else if f = ''ERROR_MESSAGE'' then map_option (\<lambda>e. ev\<lparr>ErrorMessage := e\<rparr>) (store_pointer v)
        else if f = ''CREATED_AT'' then map_option (\<lambda>s. ev\<lparr>CreatedAt := s\<rparr>) (store_string (CreatedAt ev) v)
        else Some ev)"

fun set_fields :: "WebhookEvent \<Rightarrow> (string \<times> json \<times> string) list \<Rightarrow> WebhookEvent option" where
  "set_fields ev [] = Some ev"
| "set_fields ev (m # ms) = (case set_field ev m of None \<Rightarrow> None | Some ev' \<Rightarrow> set_fields ev' ms)"

definition type_error :: string where
  "type_error = ''json: cannot unmarshal value''"

definition unmarshal_event :: "string \<Rightarrow> string + WebhookEvent" where
  "unmarshal_event body =
     (case decode_all body of
        None \<Rightarrow> Inl ''invalid JSON''
      | Some v \<Rightarrow>
          (case v of
             JNull \<Rightarrow> Inr zero_event
           | JObj ms \<Rightarrow>
               (case set_fields zero_event (object_members body) of
                  None \<Rightarrow> Inl type_error
                | Some ev \<Rightarrow> Inr ev)
           | _ \<Rightarrow> Inl type_error))"

subsection \<open>Request bodies\<close>

fun webhook_fields :: "string \<times> string \<Rightarrow> (string \<times> json \<times> string) list \<Rightarrow> (string \<times> string) option" where
  "webhook_fields tp [] = Some tp"
| "webhook_fields (t, p) ((k, v, raw) # ms) =
     (let f = field_name k in
      if f = ''TARGET_URL'' then
        (case store_string t v of None \<Rightarrow> None | Some t' \<Rightarrow> webhook_fields (t', p) ms)
      else if f = ''PAYLOAD'' then webhook_fields (t, raw) ms
      else webhook_fields (t, p) ms)"

definition decode_webhook :: "string \<Rightarrow> string + string \<times> string" where
  "decode_webhook body =
     (case decode_first body of
        None \<Rightarrow> Inl ''invalid JSON''
      | Some v \<Rightarrow>
          (case v of
             JNull \<Rightarrow> Inr ('''', '''')
           | JObj ms \<Rightarrow>
               (case webhook_fields ('''', '''') (object_members body) of
                  None \<Rightarrow> Inl type_error
                | Some tp \<Rightarrow> Inr tp)
           | _ \<Rightarrow> Inl type_error))"

text \<open>The replay handler ignores the decoder's error: what was stored before it stays.\<close>

fun replay_fields :: "string \<Rightarrow> (string \<times> json \<times> string) list \<Rightarrow> string" where
  "replay_fields i [] = i"
| "replay_fields i ((k, v, raw) # ms) =
     (if field_name k = ''EVENT_ID''
      then replay_fields (case store_string i v of None \<Rightarrow> i | Some i' \<Rightarrow> i') ms
      else replay_fields i ms)"

definition decode_replay :: "string \<Rightarrow> string" where
  "decode_replay body =
     (case decode_first body of
        Some (JObj ms) \<Rightarrow> replay_fields '''' (object_members body)
      | _ \<Rightarrow> '''')"

subsection \<open>What arrives\<close>

text \<open>The event a consumer decodes from the message of an event.\<close>

definition wire_event :: "WebhookEvent \<Rightarrow> string \<Rightarrow> WebhookEvent" where
  "wire_event ev payload =
     ev\<lparr>ID := utf8_fix (ID ev), APIKey := utf8_fix (APIKey ev), EventURL := utf8_fix (EventURL ev), Payload := payload,
        Status := utf8_fix (Status ev), IdempotencyKey := utf8_fix (IdempotencyKey ev),
        ErrorMessage := map_option utf8_fix (ErrorMessage ev), CreatedAt := utf8_fix (CreatedAt ev)\<rparr>"

section \<open>Lemmas\<close>

lemma field_names [simp]:
  "field_name ''id'' = ''ID''" "field_name ''api_key'' = ''API_KEY''" "field_name ''target_url'' = ''TARGET_URL''"
  "field_name ''payload'' = ''PAYLOAD''" "field_name ''status'' = ''STATUS''"
  "field_name ''idempotency_key'' = ''IDEMPOTENCY_KEY''" "field_name ''retry_count'' = ''RETRY_COUNT''"
  "field_name ''error_message'' = ''ERROR_MESSAGE''" "field_name ''created_at'' = ''CREATED_AT''"
  "field_name ''event_id'' = ''EVENT_ID''"
  by code_simp+

lemma store_json [simp]:
  "store_string cur (json_string s) = Some (utf8_fix s)" "store_pointer (json_string s) = Some (Some (utf8_fix s))"
  "in_i64 i \<Longrightarrow> store_int n (json_int i) = Some i"
  by (simp_all add: json_string_def json_int_def unquote_quote parse_int64_show)

lemma raw_names [simp]:
  "raw_ok ''id''" "raw_ok ''api_key''" "raw_ok ''target_url''" "raw_ok ''payload''" "raw_ok ''status''"
  "raw_ok ''idempotency_key''" "raw_ok ''retry_count''" "raw_ok ''error_message''" "raw_ok ''created_at''"
  by code_simp+

lemma event_fields_wf: "wf_json p \<Longrightarrow> wf_json (JObj (event_fields ev p))"
  by (auto simp: event_fields_def split: option.splits)

lemma event_fields_depth: "depth (JObj (event_fields ev p)) = Suc (depth p)"
  by (auto simp: event_fields_def split: option.splits)

lemma set_fields_append:
  "set_fields ev (xs @ ys) = (case set_fields ev xs of None \<Rightarrow> None | Some ev' \<Rightarrow> set_fields ev' ys)"
  by (induction ev xs rule: set_fields.induct) (auto split: option.splits)

lemma set_fields_event:
  assumes "in_i64 (RetryCount ev)"
  shows "set_fields zero_event (map (\<lambda>(k, v). (k, v, print_json v)) (event_fields ev p)) =
    Some (wire_event ev (print_json p))"
proof -
  let ?m = "map (\<lambda>(k, v). (k, v, print_json v))"
  let ?e1 = "zero_event\<lparr>ID := utf8_fix (ID ev), APIKey := utf8_fix (APIKey ev), EventURL := utf8_fix (EventURL ev),
    Payload := print_json p, Status := utf8_fix (Status ev)\<rparr>"
  let ?e2 = "?e1\<lparr>IdempotencyKey := utf8_fix (IdempotencyKey ev)\<rparr>"
  let ?e3 = "?e2\<lparr>RetryCount := RetryCount ev\<rparr>"
  let ?e4 = "?e3\<lparr>ErrorMessage := map_option utf8_fix (ErrorMessage ev)\<rparr>"
  have 1: "set_fields zero_event (?m [(''id'', json_string (ID ev)), (''api_key'', json_string (APIKey ev)),
      (''target_url'', json_string (EventURL ev)), (''payload'', p), (''status'', json_string (Status ev))]) = Some ?e1"
    by (simp add: set_field_def Let_def)
  have 2: "set_fields ?e1 (?m (if IdempotencyKey ev = '''' then [] else [(''idempotency_key'', json_string (IdempotencyKey ev))])) = Some ?e2"
    by (simp add: set_field_def Let_def zero_event_def)
  have 3: "set_fields ?e2 (?m [(''retry_count'', json_int (RetryCount ev))]) = Some ?e3"
    using assms by (simp add: set_field_def Let_def)
  have 4: "set_fields ?e3 (?m (case ErrorMessage ev of None \<Rightarrow> [] | Some m \<Rightarrow> [(''error_message'', json_string m)])) = Some ?e4"
    by (cases "ErrorMessage ev") (simp_all add: set_field_def Let_def zero_event_def)
  have 5: "set_fields ?e4 (?m (if CreatedAt ev = '''' then [] else [(''created_at'', json_string (CreatedAt ev))])) =
      Some (?e4\<lparr>CreatedAt := utf8_fix (CreatedAt ev)\<rparr>)"
    by (simp add: set_field_def Let_def zero_event_def)
  have "?e4\<lparr>CreatedAt := utf8_fix (CreatedAt ev)\<rparr> = wire_event ev (print_json p)"
    by (simp add: wire_event_def zero_event_def)
  then show ?thesis
    unfolding event_fields_def map_append set_fields_append 1 option.case 2 3 4 5 by simp
qed

lemma payload_json_wf:
  assumes "payload_json q = Some p" and "\<And>v. decode_all q = Some v \<Longrightarrow> depth v < 10000"
  shows "wf_json p" "depth p < 10000"
  using assms decode_all_wf [of q] html_escape_sound by (auto simp: payload_json_def split: if_splits)

lemma marshal_event_iff:
  "marshal_event ev = Inr body \<longleftrightarrow> (\<exists>p. payload_json (Payload ev) = Some p \<and> body = print_json (JObj (event_fields ev p)))"
  by (auto simp: marshal_event_def event_json_def simp del: print_json.simps split: option.splits)

lemma unmarshal_marshal:
  assumes "marshal_event ev = Inr body" and "in_i64 (RetryCount ev)"
    and "\<And>v. decode_all (Payload ev) = Some v \<Longrightarrow> depth v < 10000"
  shows "\<exists>p. payload_json (Payload ev) = Some p \<and> unmarshal_event body = Inr (wire_event ev (print_json p))"
proof -
  from assms(1) obtain p where p: "payload_json (Payload ev) = Some p" "body = print_json (JObj (event_fields ev p))"
    by (auto simp: marshal_event_iff)
  note wf = payload_json_wf [OF p(1) assms(3)]
  have "decode_all body = Some (JObj (event_fields ev p))"
    unfolding p(2) using wf event_fields_depth [of ev p] by (intro decode_all_print event_fields_wf) simp_all
  moreover have "set_fields zero_event (object_members body) = Some (wire_event ev (print_json p))"
    unfolding p(2) using object_members_print [OF event_fields_wf [OF wf(1)]] set_fields_event [OF assms(2)] by simp
  ultimately show ?thesis using p(1) by (simp add: unmarshal_event_def)
qed

text \<open>The members' values are nested less deeply than the object.\<close>

lemma depth_member: "(k, v) \<in> set ms \<Longrightarrow> depth v < depth (JObj ms)"
  by (induction ms) (auto simp: less_Suc_eq_le le_max_iff_disj)

lemma object_members_depth:
  assumes "parse_doc s = Some (JObj ms, r)" and "(k, v, raw) \<in> set (object_members s)"
  shows "depth v < 10000"
proof -
  from assms(1) have p: "parse_val (Suc (2 * length s + 1)) s = Some (JObj ms, r)" "depth (JObj ms) \<le> 10000"
    by (auto simp: parse_doc_def simp del: depth.simps split: option.splits if_splits)
  from assms(2) obtain t ms' r' where t: "skip_ws s = CHR ''{'' # t" "parse_members (2 * length s + 1) t = Some (ms', r')" "(k, v, raw) \<in> set ms'"
    by (cases "skip_ws s"; cases "parse_members (2 * length s + 1) (tl (skip_ws s))")
      (auto simp: object_members_def split: if_splits)
  then obtain d u where "skip_ws t = d # u" "d \<noteq> CHR ''}''" using parse_members_start [OF t(2)] by auto
  with p(1) t have "ms = map (\<lambda>(k, v, raw). (k, v)) ms'" by (simp add: parse_val.simps(2))
  with t(3) have "(k, v) \<in> set ms" by force
  with depth_member [of k v ms] p(2) show ?thesis by simp
qed

lemma member_decodes:
  assumes "parse_doc s = Some (JObj ms, r)" and "(k, v, raw) \<in> set (object_members s)"
  shows "decode_all raw = Some v" "depth v < 10000"
proof -
  show d: "depth v < 10000" by (rule object_members_depth [OF assms])
  from object_members_ok [OF assms(2)] obtain n where "parse_val n raw = Some (v, [])" by (auto simp: member_ok_def)
  from parse_val_fuel [OF this] d show "decode_all raw = Some v"
    by (simp add: decode_all_def parse_doc_def skip_ws_def)
qed

lemma webhook_fields_from:
  "webhook_fields (t, p) ms = Some (t', p') \<Longrightarrow>
     (p' = p \<or> (\<exists>k v. (k, v, p') \<in> set ms)) \<and> (t' = t \<or> (\<exists>k raw txt. (k, JStr raw, txt) \<in> set ms \<and> t' = unquote raw))"
proof (induction "(t, p)" ms arbitrary: t p rule: webhook_fields.induct)
  case (2 t p k v raw ms)
  show ?case
  proof (cases "field_name k = ''TARGET_URL''")
    case True
    with "2.prems" obtain t1 where "store_string t v = Some t1" "webhook_fields (t1, p) ms = Some (t', p')"
      by (auto simp: Let_def split: option.splits)
    with "2.hyps"(1) [OF refl True] show ?thesis by (cases v) fastforce+
  next
    case False
    with "2.prems" "2.hyps"(2,3) show ?thesis by (cases "field_name k = ''PAYLOAD''") (fastforce simp: Let_def)+
  qed
qed simp

lemma decode_webhook_payload:
  assumes "decode_webhook body = Inr (t, p)" and "p \<noteq> ''''"
  shows "\<exists>v. decode_all p = Some v \<and> depth v < 10000"
proof -
  from assms obtain ms r where d: "parse_doc body = Some (JObj ms, r)"
    and f: "webhook_fields ('''', '''') (object_members body) = Some (t, p)"
    by (auto simp: decode_webhook_def decode_first_def split: option.splits json.splits)
  from webhook_fields_from [OF f] assms(2) obtain k v where "(k, v, p) \<in> set (object_members body)" by blast
  with member_decodes [OF d] show ?thesis by blast
qed

subsection \<open>Sample data\<close>

definition sample_body :: string where
  "sample_body = (case marshal_event (sample_event uuid_a ''k'') of Inl e \<Rightarrow> '''' | Inr body \<Rightarrow> body)"

lemma ascii_fix: "list_all (\<lambda>c. byte c < 0x80) s \<Longrightarrow> utf8_fix s = s"
  by (induction s) (auto simp: utf8_fix.simps(2))

lemma sample_fixes [simp]:
  "utf8_fix uuid_a = uuid_a" "utf8_fix uuid_b = uuid_b" "utf8_fix ''acme'' = ''acme''" "utf8_fix ''http://x'' = ''http://x''"
  "utf8_fix ''pending'' = ''pending''" "utf8_fix ''k'' = ''k''"
  by (intro ascii_fix, code_simp)+

lemma empty_object: "decode_all ''{}'' = Some (JObj [])"
  by code_simp

lemma marshal_sample: "Payload ev = ''{}'' \<Longrightarrow> marshal_event ev = Inr (print_json (JObj (event_fields ev (JObj []))))"
  by (simp add: marshal_event_def event_json_def payload_json_def empty_object del: print_json.simps)

lemma sample_body_decodes: "unmarshal_event sample_body = Inr (sample_event uuid_a ''k'')"
proof -
  let ?ev = "sample_event uuid_a ''k''"
  have m: "marshal_event ?ev = Inr sample_body" by (simp add: sample_body_def marshal_sample del: print_json.simps)
  have "in_i64 (RetryCount ?ev)" by (simp add: sample_event_def zero_event_def in_i64_def)
  from unmarshal_marshal [OF m this] show ?thesis
    by (auto simp: empty_object payload_json_def wire_event_def sample_event_def zero_event_def)
qed

lemma bad_body: "unmarshal_event ''bad'' = Inl ''invalid JSON''"
proof -
  have "decode_all ''bad'' = None" by code_simp
  then show ?thesis by (simp add: unmarshal_event_def)
qed

lemma decode_webhook_target: "decode_webhook body = Inr (t, p) \<Longrightarrow> utf8_valid t"
proof -
  assume "decode_webhook body = Inr (t, p)"
  then consider "t = ''''" | "webhook_fields ('''', '''') (object_members body) = Some (t, p)"
    by (auto simp: decode_webhook_def split: option.splits json.splits)
  then show ?thesis
  proof cases
    case 2
    from webhook_fields_from [OF this] consider "t = ''''" | k raw tx where "(k, JStr raw, tx) \<in> set (object_members body)" "t = unquote raw"
      by blast
    then show ?thesis
    proof cases
      case 2
      with object_members_ok [OF 2(1)] show ?thesis by (simp add: member_ok_def unquote_valid)
    qed simp
  qed simp
qed

lemma uuid_text_fix: "uuid_text i \<Longrightarrow> utf8_fix i = i"
proof (rule ascii_fix)
  assume u: "uuid_text i"
  have "c = CHR ''-'' \<or> hex_char c" if "c \<in> set i" for c
  proof -
    from that obtain n where "n < length i" "c = i ! n" by (auto simp: in_set_conv_nth)
    then have "(n, c) \<in> set (enumerate 0 i)" by (auto simp: in_set_enumerate_eq)
    with u show ?thesis by (auto simp: uuid_text_def list_all_iff split: if_splits)
  qed
  then show "list_all (\<lambda>c. byte c < 0x80) i" by (force simp: list_all_iff hex_char_def byte_def)
qed

section \<open>Properties\<close>

text \<open>All text fields of an event are UTF-8.\<close>

definition utf8_event :: "WebhookEvent \<Rightarrow> bool" where
  "utf8_event ev \<longleftrightarrow> list_all utf8_valid [ID ev, APIKey ev, EventURL ev, Status ev, IdempotencyKey ev, CreatedAt ev] \<and>
     (case ErrorMessage ev of None \<Rightarrow> True | Some m \<Rightarrow> utf8_valid m)"

text \<open>
  C13: An event survives the queue: what the worker decodes of the message that the publisher
  encoded is the same event, field by field, for all UTF-8 texts, quotes, control characters and
  HTML characters included; its payload is a text of the same JSON value.
\<close>

theorem event_survives_queue:
  assumes "marshal_event ev = Inr body" and "in_i64 (RetryCount ev)" and "utf8_event ev" and "Payload ev \<noteq> ''''"
    and "\<forall>v. decode_all (Payload ev) = Some v \<longrightarrow> depth v < 10000"
  shows "\<exists>ev' v v'. unmarshal_event body = Inr ev' \<and> ev'\<lparr>Payload := Payload ev\<rparr> = ev \<and>
    decode_all (Payload ev) = Some v \<and> decode_all (Payload ev') = Some v' \<and> meaning v' = meaning v"
proof -
  from unmarshal_marshal [OF assms(1,2)] assms(5) obtain p where p: "payload_json (Payload ev) = Some p"
    "unmarshal_event body = Inr (wire_event ev (print_json p))" by blast
  from p(1) assms(4) obtain v where v: "decode_all (Payload ev) = Some v" "p = html_escape v" by (auto simp: payload_json_def)
  have "compact (Payload ev) = Some (print_json p)" by (simp add: compact_def v)
  from compact_sound [OF this] v have "decode_all (print_json p) = Some p" "meaning p = meaning v" by auto
  moreover have "(wire_event ev (print_json p))\<lparr>Payload := Payload ev\<rparr> = ev"
    using assms(3) by (cases ev) (auto simp: utf8_event_def wire_event_def utf8_fix_valid split: option.splits)
  moreover have "Payload (wire_event ev (print_json p)) = print_json p" by (simp add: wire_event_def)
  ultimately show ?thesis using p(2) v(1) by (intro exI [of _ "wire_event ev (print_json p)"] exI [of _ v] exI [of _ p]) auto
qed

theorem event_survives_queue_witness:
  "\<exists>body ev'. marshal_event (sample_event uuid_a ''k'') = Inr body \<and> unmarshal_event body = Inr ev' \<and> ID ev' = uuid_a"
proof -
  let ?ev = "sample_event uuid_a ''k''"
  have m: "marshal_event ?ev = Inr (print_json (JObj (event_fields ?ev (JObj []))))"
    by (rule marshal_sample) (simp add: sample_event_def)
  have "utf8_event ?ev" "in_i64 (RetryCount ?ev)" "Payload ?ev = ''{}''" by code_simp+
  with event_survives_queue [OF m] obtain ev' where "unmarshal_event (print_json (JObj (event_fields ?ev (JObj [])))) = Inr ev'"
    "ev'\<lparr>Payload := Payload ?ev\<rparr> = ?ev" by (auto simp: empty_object)
  moreover from arg_cong [OF this(2), of ID] have "ID ev' = uuid_a" by (simp add: sample_event_def)
  ultimately show ?thesis using m by blast
qed

end
