(* ===== verification/Message_Queue.thy ===== *)
theory Message_Queue
  imports Event_Codec
begin

text \<open>
  The publisher (\<^verbatim>\<open>src/internal/queue/publisher.go\<close>): the set-up of the dead letter
  topology and the publishing of events. RabbitMQ and its client are an argument: a
  connection has the operations of the record \<open>amqp_conn\<close> on the state \<open>'q\<close>.

  The locale \<open>amqp_broker\<close> states what AMQP 0-9-1 and RabbitMQ document of a successful
  declaration over the topology it creates: queues with their arguments, exchanges and
  bindings; and that a publish which returns no error has been handed to the connection.
  \<open>ref_conn\<close> is a broker that satisfies it.
\<close>

section \<open>Definitions\<close>

text \<open>The commands with their parameters in the source's order; an absent table is the empty one.\<close>

datatype amqp_cmd =
    ExchangeDeclare string string bool bool bool bool
  | QueueDeclare string bool bool bool bool "(string \<times> string) list"
  | QueueBind string string string bool

record Publishing =
  ContentType :: string
  PubBody :: string

record 'q amqp_conn =
  conn_Channel :: "'q \<Rightarrow> (string + nat) \<times> 'q"
  ch_Do :: "nat \<Rightarrow> amqp_cmd \<Rightarrow> 'q \<Rightarrow> string option \<times> 'q"
  ch_Publish :: "nat \<Rightarrow> bool \<Rightarrow> string \<Rightarrow> string \<Rightarrow> bool \<Rightarrow> bool \<Rightarrow> Publishing \<Rightarrow> 'q \<Rightarrow> string option \<times> 'q"
  ch_Close :: "nat \<Rightarrow> 'q \<Rightarrow> string option \<times> 'q"

record RabbitMQPublisher =
  channel :: nat
  queueName :: string

definition dlxName :: string where "dlxName = ''webhook_dlx''"
definition dlqName :: string where "dlqName = ''webhook_dlq''"
definition dlqRoutingKey :: string where "dlqRoutingKey = ''webhook_dlq''"

text \<open>The declarations of \<^verbatim>\<open>NewRabbitMQPublisher\<close>, each with its error text.\<close>

definition topology :: "string \<Rightarrow> (amqp_cmd \<times> string) list" where
  "topology qname =
     [(ExchangeDeclare dlxName ''direct'' True False False False,
       ''failed to declare Dead Letter Exchange ('' @ dlxName @ ''): ''),
      (QueueDeclare dlqName True False False False [],
       ''failed to declare Dead Letter Queue ('' @ dlqName @ ''): ''),
      (QueueBind dlqName dlqRoutingKey dlxName False,
       ''failed to bind Dead Letter Queue to DLX: ''),
      (QueueDeclare qname True False False False
         [(''x-dead-letter-exchange'', dlxName), (''x-dead-letter-routing-key'', dlqRoutingKey)],
       ''failed to declare main queue ('' @ qname @ ''): '')]"

fun declare_all :: "'q amqp_conn \<Rightarrow> nat \<Rightarrow> (amqp_cmd \<times> string) list \<Rightarrow> 'q \<Rightarrow> string option \<times> 'q" where
  "declare_all conn ch [] q = (None, q)"
| "declare_all conn ch ((cmd, msg) # rest) q =
     (case ch_Do conn ch cmd q of
        (Some err, q') \<Rightarrow> (Some (msg @ err), snd (ch_Close conn ch q'))
      | (None, q') \<Rightarrow> declare_all conn ch rest q')"

definition NewRabbitMQPublisher :: "'q amqp_conn \<Rightarrow> string \<Rightarrow> 'q \<Rightarrow> (string + RabbitMQPublisher) \<times> 'q" where
  "NewRabbitMQPublisher conn qname q =
     (case conn_Channel conn q of
        (Inl err, q1) \<Rightarrow> (Inl (''failed to open channel: '' @ err), q1)
      | (Inr ch, q1) \<Rightarrow>
          (case declare_all conn ch (topology qname) q1 of
             (Some err, q2) \<Rightarrow> (Inl err, q2)
           | (None, q2) \<Rightarrow> (Inr \<lparr>channel = ch, queueName = qname\<rparr>, q2)))"

definition Publish ::
  "'q amqp_conn \<Rightarrow> RabbitMQPublisher \<Rightarrow> bool \<Rightarrow> WebhookEvent \<Rightarrow>
     'q \<Rightarrow> string option \<times> 'q" where
  "Publish conn p ctx event q =
     (case marshal_event event of
        Inl err \<Rightarrow> (Some (''failed to marshal webhook event: '' @ err), q)
      | Inr body \<Rightarrow>
          (case ch_Publish conn (channel p) ctx '''' (queueName p) False False
                  \<lparr>ContentType = ''application/json'', PubBody = body\<rparr> q of
             (Some err, q') \<Rightarrow> (Some (''failed to publish message to queue '' @ queueName p @ '': '' @ err), q')
           | (None, q') \<Rightarrow> (None, q')))"

definition Publisher_Close :: "'q amqp_conn \<Rightarrow> RabbitMQPublisher \<Rightarrow> 'q \<Rightarrow> string option \<times> 'q" where
  "Publisher_Close conn p q = ch_Close conn (channel p) q"

subsection \<open>Topologies\<close>

record topo =
  t_queues :: "string \<rightharpoonup> (string \<times> string) list"
  t_exchanges :: "string \<rightharpoonup> string"
  t_bindings :: "(string \<times> string \<times> string) set"

text \<open>What a declaration that succeeds adds.\<close>

fun declared :: "amqp_cmd \<Rightarrow> topo \<Rightarrow> topo" where
  "declared (ExchangeDeclare name kind durable autodel internal nowait) t =
     t\<lparr>t_exchanges := (t_exchanges t)(name \<mapsto> kind)\<rparr>"
| "declared (QueueDeclare name durable autodel exclusive nowait args) t =
     t\<lparr>t_queues := (t_queues t)(name \<mapsto> args)\<rparr>"
| "declared (QueueBind qname key exchange nowait) t =
     t\<lparr>t_bindings := insert (exchange, key, qname) (t_bindings t)\<rparr>"

text \<open>
  A declaration of something that exists succeeds only when it is equivalent, so it never
  changes an existing queue or exchange.
\<close>

fun compatible :: "amqp_cmd \<Rightarrow> topo \<Rightarrow> bool" where
  "compatible (ExchangeDeclare name kind durable autodel internal nowait) t =
     (case t_exchanges t name of None \<Rightarrow> True | Some k \<Rightarrow> k = kind)"
| "compatible (QueueDeclare name durable autodel exclusive nowait args) t =
     (case t_queues t name of None \<Rightarrow> True | Some a \<Rightarrow> a = args)"
| "compatible (QueueBind qname key exchange nowait) t =
     (t_queues t qname \<noteq> None \<and> t_exchanges t exchange \<noteq> None)"

text \<open>
  Where a message goes that is rejected from a queue without requeueing: through the queue's
  dead letter exchange, with its dead letter routing key, along the matching bindings of a
  direct exchange. A queue without dead letter exchange drops it.
\<close>

definition dead_letter_queues :: "topo \<Rightarrow> string \<Rightarrow> string set" where
  "dead_letter_queues t qname =
     (case t_queues t qname of
        None \<Rightarrow> {}
      | Some args \<Rightarrow>
          (case (map_of args ''x-dead-letter-exchange'', map_of args ''x-dead-letter-routing-key'') of
             (Some x, Some k) \<Rightarrow> {dest. (x, k, dest) \<in> t_bindings t \<and> t_queues t dest \<noteq> None \<and> t_exchanges t x = Some ''direct''}
           | _ \<Rightarrow> {}))"

locale amqp_broker =
  fixes conn :: "'q amqp_conn"
    and view :: "'q \<Rightarrow> topo"
    and handed :: "'q \<Rightarrow> (string \<times> string \<times> Publishing) list"
  assumes channel_view: "conn_Channel conn q = (cr, q') \<Longrightarrow> view q' = view q \<and> handed q' = handed q"
    and do_ok: "ch_Do conn ch cmd q = (None, q') \<Longrightarrow> compatible cmd (view q) \<and> view q' = declared cmd (view q) \<and> handed q' = handed q"
    and do_failed: "ch_Do conn ch cmd q = (Some err, q') \<Longrightarrow>
      (view q' = view q \<or> view q' = declared cmd (view q) \<and> compatible cmd (view q)) \<and> handed q' = handed q"
    and publish_view: "ch_Publish conn ch ctx ex key mandatory immediate msg q = (res, q') \<Longrightarrow>
      view q' = view q \<and> (res = None \<longrightarrow> handed q' = handed q @ [(ex, key, msg)])"
    and publish_failed: "ch_Publish conn ch ctx ex key mandatory immediate msg q = (Some err, q') \<Longrightarrow>
      handed q' = handed q \<or> handed q' = handed q @ [(ex, key, msg)]"
    and close_view: "ch_Close conn ch q = (res, q') \<Longrightarrow> view q' = view q \<and> handed q' = handed q"

subsection \<open>A broker that satisfies the laws\<close>

type_synonym ref_broker = "topo \<times> (string \<times> string \<times> Publishing) list"

definition ref_conn :: "ref_broker amqp_conn" where
  "ref_conn =
     \<lparr>conn_Channel = (\<lambda>q. (Inr 1, q)),
      ch_Do = (\<lambda>ch cmd (t, h). if compatible cmd t then (None, declared cmd t, h) else (Some ''PRECONDITION_FAILED'', t, h)),
      ch_Publish = (\<lambda>ch ctx ex key mandatory immediate msg (t, h).
        if ctx then (Some ''context canceled'', t, h) else (None, t, h @ [(ex, key, msg)])),
      ch_Close = (\<lambda>ch q. (None, q))\<rparr>"

definition ref_broker0 :: ref_broker where
  "ref_broker0 = (\<lparr>t_queues = Map.empty, t_exchanges = Map.empty, t_bindings = {}\<rparr>, [])"

section \<open>Lemmas\<close>

interpretation refmq: amqp_broker ref_conn fst snd
  by unfold_locales (auto simp: ref_conn_def split: if_splits)

definition topo_extends :: "topo \<Rightarrow> topo \<Rightarrow> bool" where
  "topo_extends t t' \<longleftrightarrow>
     t_queues t \<subseteq>\<^sub>m t_queues t' \<and> t_exchanges t \<subseteq>\<^sub>m t_exchanges t' \<and> t_bindings t \<subseteq> t_bindings t'"

lemma declared_extends: "compatible cmd t \<Longrightarrow> topo_extends t (declared cmd t)"
  by (cases cmd) (auto simp: topo_extends_def map_le_def dom_def split: option.splits)

definition broker_extends :: "('q \<Rightarrow> topo) \<Rightarrow> ('q \<Rightarrow> (string \<times> string \<times> Publishing) list) \<Rightarrow> 'q \<Rightarrow> 'q \<Rightarrow> bool" where
  "broker_extends view handed q q' \<longleftrightarrow> handed q' = handed q \<and> topo_extends (view q) (view q')"

context amqp_broker
begin

lemma extends_refl: "broker_extends view handed q q"
  by (simp add: broker_extends_def topo_extends_def)

lemma extends_trans: "broker_extends view handed q r \<Longrightarrow> broker_extends view handed r u \<Longrightarrow> broker_extends view handed q u"
  unfolding broker_extends_def topo_extends_def by (metis subset_trans map_le_trans)

lemma do_extends: "ch_Do conn ch cmd q = (r, q') \<Longrightarrow> broker_extends view handed q q'"
  using do_ok [of ch cmd q q'] do_failed [of ch cmd q _ q'] declared_extends [of cmd "view q"]
  by (cases r) (auto simp: broker_extends_def topo_extends_def)

lemma close_extends: "broker_extends view handed q (snd (ch_Close conn ch q))"
  using close_view [of ch q "fst (ch_Close conn ch q)" "snd (ch_Close conn ch q)"]
  by (simp add: broker_extends_def topo_extends_def)

lemma declare_all_view:
  "declare_all conn ch cmds q = (res, q') \<Longrightarrow> broker_extends view handed q q' \<and>
     (res = None \<longrightarrow> view q' = fold (\<lambda>(cmd, msg). declared cmd) cmds (view q))"
proof (induction cmds arbitrary: q)
  case Nil
  then show ?case by (simp add: extends_refl)
next
  case (Cons c cmds)
  obtain cmd msg r q1 where c: "c = (cmd, msg)" "ch_Do conn ch cmd q = (r, q1)" by (metis surj_pair)
  note ext = do_extends [OF c(2)]
  show ?case
  proof (cases r)
    case None
    with Cons c do_ok [of ch cmd q q1] ext show ?thesis by (auto intro: extends_trans)
  next
    case (Some err)
    with Cons.prems c ext close_extends [of q1 ch] show ?thesis by (auto intro: extends_trans)
  qed
qed

lemma new_publisher_extends: "NewRabbitMQPublisher conn qname q = (res, q') \<Longrightarrow> broker_extends view handed q q'"
  using channel_view [of q "fst (conn_Channel conn q)" "snd (conn_Channel conn q)"]
  by (auto simp: NewRabbitMQPublisher_def broker_extends_def topo_extends_def
      split: prod.splits sum.splits option.splits dest!: declare_all_view)

lemma new_publisher_dlq:
  assumes "NewRabbitMQPublisher conn qname q = (Inr p, q')"
  shows "queueName p = qname \<and> dlqName \<in> dead_letter_queues (view q') qname \<and> t_queues (view q') qname \<noteq> None"
proof -
  obtain ch q1 where "conn_Channel conn q = (Inr ch, q1)" "declare_all conn ch (topology qname) q1 = (None, q')"
    and p: "queueName p = qname"
    using assms by (auto simp: NewRabbitMQPublisher_def split: prod.splits sum.splits option.splits)
  with declare_all_view have "view q' = fold (\<lambda>(cmd, msg). declared cmd) (topology qname) (view q1)" by blast
  then show ?thesis
    by (auto simp: p topology_def dead_letter_queues_def dlxName_def dlqName_def dlqRoutingKey_def)
qed

lemma Publish_hands:
  assumes "Publish conn p ctx ev q = (res, q')"
  shows "view q' = view q \<and>
    (res = None \<longrightarrow> (\<exists>body. marshal_event ev = Inr body \<and>
       handed q' = handed q @ [('''', queueName p, \<lparr>ContentType = ''application/json'', PubBody = body\<rparr>)]))"
  using assms by (auto simp: Publish_def split: sum.splits prod.splits option.splits dest!: publish_view)

end

section \<open>Properties\<close>

text \<open>
  C26: A publisher that was created has its dead letter path: whatever the broker held before,
  a message rejected from the main queue goes to \<^verbatim>\<open>webhook_dlq\<close>; and neither a successful
  nor a failed set-up changes an existing queue, exchange or binding, or publishes anything.
\<close>

theorem publisher_topology:
  assumes "amqp_broker conn view handed" and "NewRabbitMQPublisher conn qname q = (res, q')"
  shows "topo_extends (view q) (view q') \<and> handed q' = handed q \<and>
    (case res of
       Inl err \<Rightarrow> True
     | Inr p \<Rightarrow> queueName p = qname \<and> t_queues (view q') qname \<noteq> None \<and>
         ''webhook_dlq'' \<in> dead_letter_queues (view q') qname)"
  using amqp_broker.new_publisher_extends [OF assms] amqp_broker.new_publisher_dlq [OF assms(1), of qname q _ q'] assms(2)
  unfolding broker_extends_def dlqName_def by (auto split: sum.splits)

theorem publisher_topology_witness:
  "\<exists>p q'. NewRabbitMQPublisher ref_conn ''webhook_queue'' ref_broker0 = (Inr p, q') \<and>
     ''webhook_dlq'' \<in> dead_letter_queues (fst q') ''webhook_queue''"
proof -
  have "\<exists>p q'. NewRabbitMQPublisher ref_conn ''webhook_queue'' ref_broker0 = (Inr p, q')"
    by (simp add: NewRabbitMQPublisher_def ref_conn_def ref_broker0_def topology_def dlqName_def dlxName_def)
  then obtain p q' where "NewRabbitMQPublisher ref_conn ''webhook_queue'' ref_broker0 = (Inr p, q')" by blast
  with publisher_topology [OF refmq.amqp_broker_axioms this] show ?thesis by simp
qed

end
