(* ===== verification/Shield_Metrics.thy ===== *)
theory Shield_Metrics
  imports Shield_Prelude
begin

text \<open>
  The Prometheus counters (\<^verbatim>\<open>src/internal/metrics/metrics.go\<close>). A counter vector is
  modelled by the calls \<^verbatim>\<open>WithLabelValues(...).Inc()\<close> it received, in order: one entry
  per call, its label values. The value of a counter is how often its labels occur.
\<close>

record Metrics =
  GatewayRequestsTotal :: "(string \<times> string \<times> string) list" \<comment> \<open>tier, route, status\<close>
  WebhookDeliveryAttempts :: "string list" \<comment> \<open>status\<close>
  CircuitBreakerTrips :: "string list" \<comment> \<open>target URL\<close>

definition new_metrics :: Metrics where
  "new_metrics = \<lparr>GatewayRequestsTotal = [], WebhookDeliveryAttempts = [], CircuitBreakerTrips = []\<rparr>"

definition inc_requests :: "string \<Rightarrow> string \<Rightarrow> string \<Rightarrow> Metrics \<Rightarrow> Metrics" where
  "inc_requests tier route status m =
     m\<lparr>GatewayRequestsTotal := GatewayRequestsTotal m @ [(tier, route, status)]\<rparr>"

definition inc_attempts :: "string \<Rightarrow> Metrics \<Rightarrow> Metrics" where
  "inc_attempts status m = m\<lparr>WebhookDeliveryAttempts := WebhookDeliveryAttempts m @ [status]\<rparr>"

definition inc_trips :: "string \<Rightarrow> Metrics \<Rightarrow> Metrics" where
  "inc_trips url m = m\<lparr>CircuitBreakerTrips := CircuitBreakerTrips m @ [url]\<rparr>"

lemma new_metrics_sel [simp]:
  "GatewayRequestsTotal new_metrics = []" "WebhookDeliveryAttempts new_metrics = []"
  "CircuitBreakerTrips new_metrics = []"
  by (simp_all add: new_metrics_def)

lemma inc_sel [simp]:
  "GatewayRequestsTotal (inc_requests tier route status m) = GatewayRequestsTotal m @ [(tier, route, status)]"
  "WebhookDeliveryAttempts (inc_attempts s m) = WebhookDeliveryAttempts m @ [s]"
  "CircuitBreakerTrips (inc_trips url m) = CircuitBreakerTrips m @ [url]"
  "WebhookDeliveryAttempts (inc_trips url m) = WebhookDeliveryAttempts m"
  "CircuitBreakerTrips (inc_attempts s m) = CircuitBreakerTrips m"
  "GatewayRequestsTotal (inc_trips url m) = GatewayRequestsTotal m"
  "GatewayRequestsTotal (inc_attempts s m) = GatewayRequestsTotal m"
  by (simp_all add: inc_requests_def inc_attempts_def inc_trips_def)

end
