(* ===== verification/Gateway.thy ===== *)
theory Gateway
  imports Middleware Message_Queue Shield_Metrics
begin

text \<open>
  The gateway (\<^verbatim>\<open>src/cmd/gateway/main.go\<close>): its own middleware (metrics, CORS), the chain
  in front of every route, the health check, and the handlers that accept and replay webhooks,
  and those for load shedding and the mock payment route.

  The state is the record \<open>gateway\<close>: the limiter, the database, the broker connection, the
  metrics and the three counters. The routing table \<open>mux\<close> is an argument of the chain. The
  event store, the publisher and the single-row query of the replay handler are the record
  \<open>gw_deps\<close>.
\<close>

section \<open>Definitions\<close>

record ('l, 'd, 'q) gateway =
  gw_limiter :: 'l
  gw_db :: 'd
  gw_mq :: 'q
  gw_metrics :: Metrics
  totalRequestsCount :: int
  rateLimitHitsCount :: int
  currentLoad :: int

subsection \<open>Middleware of the gateway\<close>

definition isControlPath :: "Request \<Rightarrow> bool" where
  "isControlPath r \<longleftrightarrow>
     Path r = ''/v1/stats'' \<or> Path r = ''/metrics'' \<or> Path r = ''/v1/policies'' \<or> Path r = ''/v1/load-shedding'' \<or>
     (length (Path r) \<ge> 9 \<and> take 9 (Path r) = ''/v1/admin'')"

definition metricsMiddleware :: "('l, 'd, 'q) gateway middleware" where
  "metricsMiddleware next r ws =
     (let (w, s) = ws;
          s1 = (if isControlPath r then s else s\<lparr>totalRequestsCount := i64 (totalRequestsCount s + 1)\<rparr>);
          (sw, s2) = next r (w\<lparr>statusCode := Some 200\<rparr>, s1);
          code = (case statusCode sw of None \<Rightarrow> 200 | Some c \<Rightarrow> c);
          w' = sw\<lparr>statusCode := statusCode w\<rparr>
      in if isControlPath r then (w', s2)
         else
           let s3 = (if code = 429 then s2\<lparr>rateLimitHitsCount := i64 (rateLimitHitsCount s2 + 1)\<rparr> else s2);
               tier = (if ctx_string r TierKey = '''' then ''unknown'' else ctx_string r TierKey)
           in (w', s3\<lparr>gw_metrics := inc_requests tier (Path r) (show_int code) (gw_metrics s3)\<rparr>))"

definition corsMiddleware :: "'s middleware" where
  "corsMiddleware next r ws =
     (let (w, s) = ws;
          w1 = set_header ''Access-Control-Allow-Origin'' ''*'' w;
          w2 = set_header ''Access-Control-Allow-Methods'' ''GET, POST, OPTIONS, PUT, DELETE'' w1;
          w3 = set_header ''Access-Control-Allow-Headers''
                 ''Content-Type, X-API-Key, X-Idempotency-Key, Idempotency-Key'' w2
      in if Method r = ''OPTIONS'' then (WriteHeader 200 w3, s) else next r (w3, s))"

text \<open>The limiter as a part of the gateway's state.\<close>

definition gw_allow ::
  "(allow_call \<Rightarrow> 'l \<Rightarrow> (limiter_error + bool) \<times> 'l) \<Rightarrow>
     allow_call \<Rightarrow> ('l, 'd, 'q) gateway \<Rightarrow> (limiter_error + bool) \<times> ('l, 'd, 'q) gateway" where
  "gw_allow allow a s = (case allow a (gw_limiter s) of (out, l) \<Rightarrow> (out, s\<lparr>gw_limiter := l\<rparr>))"

definition gateway_chain ::
  "req_env \<Rightarrow> Config \<Rightarrow> (allow_call \<Rightarrow> 'l \<Rightarrow> (limiter_error + bool) \<times> 'l) \<Rightarrow>
     ('l, 'd, 'q) gateway handler \<Rightarrow> ('l, 'd, 'q) gateway handler" where
  "gateway_chain env cfg allow mux =
     Chain mux [corsMiddleware, Tracing env, Auth, metricsMiddleware, LoadShedder currentLoad 80,
       RateLimit env cfg (gw_allow allow)]"

definition finalHandler ::
  "req_env \<Rightarrow> Config \<Rightarrow> (allow_call \<Rightarrow> 'l \<Rightarrow> (limiter_error + bool) \<times> 'l) \<Rightarrow>
     ('l, 'd, 'q) gateway handler \<Rightarrow> ('l, 'd, 'q) gateway handler" where
  "finalHandler env cfg allow mux r ws =
     (let (w, s) = ws in
      if Path r = ''/healthz'' then
        if Method r \<noteq> ''GET'' then (http_Error ''Method Not Allowed'' 405 w, s)
        else (Write ''OK'' (WriteHeader 200 (set_header ''Content-Type'' ''text/plain; charset=utf-8'' w)), s)
      else gateway_chain env cfg allow mux r (w, s))"

subsection \<open>Handlers\<close>

record ('d, 'q) gw_deps =
  dep_store :: "'d EventStore"
  dep_failed_row :: "bool \<Rightarrow> string \<Rightarrow> string \<Rightarrow> 'd \<Rightarrow> string + WebhookEvent"
  dep_publish :: "bool \<Rightarrow> WebhookEvent \<Rightarrow> 'q \<Rightarrow> string option \<times> 'q"

text \<open>\<^verbatim>\<open>json.NewEncoder(w).Encode(v)\<close>; a Go map is encoded with its keys sorted, a nil slice as null.\<close>

definition write_json :: "json \<Rightarrow> ResponseWriter \<Rightarrow> ResponseWriter" where
  "write_json v w = Write (print_json v @ [CHR 0x0A]) w"

definition webhook_event :: "req_env \<Rightarrow> Request \<Rightarrow> string \<Rightarrow> string \<Rightarrow> string \<Rightarrow> WebhookEvent" where
  "webhook_event env r apiKey target payload =
     (let k1 = Header_Get (ReqHeader r) ''X-Idempotency-Key'';
          idempKey = (if k1 = '''' then Header_Get (ReqHeader r) ''Idempotency-Key'' else k1)
      in zero_event\<lparr>ID := e_event env, APIKey := apiKey, EventURL := target, Payload := payload,
           Status := ''pending'', IdempotencyKey := idempKey\<rparr>)"

definition webhooksHandler :: "('d, 'q) gw_deps \<Rightarrow> req_env \<Rightarrow> ('l, 'd, 'q) gateway handler" where
  "webhooksHandler deps env r ws =
     (let (w, s) = ws in
      if Method r \<noteq> ''POST'' then (http_Error ''Method Not Allowed'' 405 w, s)
      else
        let apiKey = ctx_string r APIKeyKey in
        if apiKey = '''' then (http_Error ''Unauthorized: missing API Key'' 401 w, s)
        else case decode_webhook (Body r) of
          Inl err \<Rightarrow> (http_Error ''Bad Request: invalid JSON body'' 400 w, s)
        | Inr (target, payload) \<Rightarrow>
            if target = '''' then (http_Error ''Bad Request: target_url is required'' 400 w, s)
            else if payload = '''' then (http_Error ''Bad Request: payload is required'' 400 w, s)
            else
              let event = webhook_event env r apiKey target payload in
              case es_SaveEvent (dep_store deps) (CtxCancelled r) event (gw_db s) of
                (Some err, db) \<Rightarrow> (http_Error ''Internal Server Error'' 500 w, s\<lparr>gw_db := db\<rparr>)
              | (None, db) \<Rightarrow>
                  (case dep_publish deps (CtxCancelled r) event (gw_mq s) of
                     (Some err, q) \<Rightarrow> (http_Error ''Internal Server Error'' 500 w, s\<lparr>gw_db := db, gw_mq := q\<rparr>)
                   | (None, q) \<Rightarrow>
                       (write_json (JObj [(''event_id'', json_string (ID event)), (''status'', json_string ''accepted'')])
                          (WriteHeader 202 (set_header ''Content-Type'' ''application/json'' w)),
                        s\<lparr>gw_db := db, gw_mq := q\<rparr>)))"

text \<open>The loop over the failed events; \<^verbatim>\<open>continue\<close> on either error.\<close>

fun replay_loop ::
  "('d, 'q) gw_deps \<Rightarrow> bool \<Rightarrow> WebhookEvent list \<Rightarrow> string list \<Rightarrow> 'd \<Rightarrow> 'q \<Rightarrow> string list \<times> 'd \<times> 'q" where
  "replay_loop deps ctx [] ids db q = (ids, db, q)"
| "replay_loop deps ctx (event # evs) ids db q =
     (case es_UpdateEventStatus (dep_store deps) ctx (ID event) ''pending'' '''' db of
        (Some err, db') \<Rightarrow> replay_loop deps ctx evs ids db' q
      | (None, db') \<Rightarrow>
          (case dep_publish deps ctx (event\<lparr>Status := ''pending''\<rparr>) q of
             (Some err, q') \<Rightarrow> replay_loop deps ctx evs ids db' q'
           | (None, q') \<Rightarrow> replay_loop deps ctx evs (ids @ [ID event]) db' q'))"

definition failed_to_replay :: "('d, 'q) gw_deps \<Rightarrow> Request \<Rightarrow> string \<Rightarrow> 'd \<Rightarrow> string + WebhookEvent list" where
  "failed_to_replay deps r apiKey db =
     (let eventID = decode_replay (Body r) in
      if eventID \<noteq> '''' then
        (case dep_failed_row deps (CtxCancelled r) eventID apiKey db of
           Inr ev \<Rightarrow> Inr [ev]
         | Inl err \<Rightarrow> Inr [])
      else es_GetFailedEvents (dep_store deps) (CtxCancelled r) apiKey db)"

definition replayHandler :: "('d, 'q) gw_deps \<Rightarrow> ('l, 'd, 'q) gateway handler" where
  "replayHandler deps r ws =
     (let (w, s) = ws in
      if Method r \<noteq> ''POST'' then (http_Error ''Method Not Allowed'' 405 w, s)
      else
        let apiKey = ctx_string r APIKeyKey in
        if apiKey = '''' then (http_Error ''Unauthorized: missing API Key'' 401 w, s)
        else case failed_to_replay deps r apiKey (gw_db s) of
          Inl err \<Rightarrow> (http_Error ''Internal Server Error'' 500 w, s)
        | Inr evs \<Rightarrow>
            (case replay_loop deps (CtxCancelled r) evs [] (gw_db s) (gw_mq s) of
               (ids, db, q) \<Rightarrow>
                 (write_json (JObj [(''count'', json_int (int (length ids))),
                      (''event_ids'', if ids = [] then JNull else JArr (map json_string ids)),
                      (''status'', json_string ''replayed'')])
                    (set_header ''Content-Type'' ''application/json'' w),
                  s\<lparr>gw_db := db, gw_mq := q\<rparr>)))"

definition loadSheddingHandler :: "('l, 'd, 'q) gateway handler" where
  "loadSheddingHandler r ws =
     (let (w, s) = ws in
      if Method r \<noteq> ''GET'' then (http_Error ''Method Not Allowed'' 405 w, s)
      else
        let load = currentLoad s in
        (write_json (JObj [(''current_load'', json_int load), (''load_shedding_active'', JBool (load \<ge> 80))])
           (set_header ''Content-Type'' ''application/json'' w), s))"

definition payments_body :: string where
  "payments_body = [CHR 0x7B] @ [CHR 0x22] @ ''status'' @ [CHR 0x22] @ '':'' @ [CHR 0x22] @ ''success'' @ [CHR 0x22] @ '','' @
     [CHR 0x22] @ ''transaction_id'' @ [CHR 0x22] @ '':'' @ [CHR 0x22] @ ''txn_mock_12345'' @ [CHR 0x22] @ [CHR 0x7D]"

definition paymentsHandler :: "('l, 'd, 'q) gateway handler" where
  "paymentsHandler r ws =
     (let (w, s) = ws in
      (Write payments_body (WriteHeader 200 (set_header ''Content-Type'' ''application/json'' w)), s))"

subsection \<open>The pipeline as one decision\<close>

text \<open>A request is answered by the gateway itself with a status and a body, or forwarded to its route.\<close>

datatype 's verdict = Answer int string 's | Forward Request 's

definition counted :: "Request \<Rightarrow> string \<Rightarrow> int \<Rightarrow> ('l, 'd, 'q) gateway \<Rightarrow> ('l, 'd, 'q) gateway" where
  "counted r tier code s =
     (if isControlPath r then s
      else s\<lparr>rateLimitHitsCount := (if code = 429 then i64 (rateLimitHitsCount s + 1) else rateLimitHitsCount s),
             gw_metrics := inc_requests (if tier = '''' then ''unknown'' else tier) (Path r) (show_int code) (gw_metrics s)\<rparr>)"

definition arrived :: "Request \<Rightarrow> ('l, 'd, 'q) gateway \<Rightarrow> ('l, 'd, 'q) gateway" where
  "arrived r s = (if isControlPath r then s else s\<lparr>totalRequestsCount := i64 (totalRequestsCount s + 1)\<rparr>)"

definition request_tier :: "Request \<Rightarrow> string" where
  "request_tier r = (if Path r = ''/metrics'' then '''' else tier_of (Header_Get (ReqHeader r) ''X-API-Key''))"

definition trace_id :: "req_env \<Rightarrow> Request \<Rightarrow> string" where
  "trace_id env r = (let t = Header_Get (ReqHeader r) ''X-Trace-ID'' in if t = '''' then e_trace env else t)"

definition admitted_request :: "req_env \<Rightarrow> Request \<Rightarrow> Request" where
  "admitted_request env r =
     (let r1 = WithValue TraceIDKey (trace_id env r) r in
      if Path r = ''/metrics'' then r1
      else WithValue APIKeyKey (Header_Get (ReqHeader r) ''X-API-Key'') (WithValue TierKey (request_tier r) r1))"

definition gate ::
  "req_env \<Rightarrow> Config \<Rightarrow> (allow_call \<Rightarrow> 'l \<Rightarrow> (limiter_error + bool) \<times> 'l) \<Rightarrow> Request \<Rightarrow>
     ('l, 'd, 'q) gateway \<Rightarrow> ('l, 'd, 'q) gateway verdict" where
  "gate env cfg allow r s =
     (let apiKey = Header_Get (ReqHeader r) ''X-API-Key''; tier = request_tier r; nl = [CHR 0x0A] in
      if Path r = ''/healthz'' then
        if Method r = ''GET'' then Answer 200 ''OK'' s else Answer 405 (''Method Not Allowed'' @ nl) s
      else if Method r = ''OPTIONS'' then Answer 200 '''' s
      else if Path r \<noteq> ''/metrics'' \<and> apiKey = '''' then Answer 401 (''Unauthorized: missing API Key'' @ nl) s
      else if currentLoad s \<ge> 80 \<and> tier \<in> {''Free'', ''''} then
        Answer 503 (''Service Unavailable (Load Shedding)'' @ nl) (counted r tier 503 (arrived r s))
      else case GetLimit cfg tier (Path r) of
        (limit, False) \<Rightarrow> Forward (admitted_request env r) (arrived r s)
      | (limit, True) \<Rightarrow>
          (case allow (limiter_call env (rate_key tier (Path r) apiKey) limit) (gw_limiter s) of
             (Inl err, l) \<Rightarrow>
               Answer 500 (''Internal rate limiter error'' @ nl) (counted r tier 500 (arrived r s\<lparr>gw_limiter := l\<rparr>))
           | (Inr False, l) \<Rightarrow>
               Answer 429 (''Too Many Requests'' @ nl) (counted r tier 429 (arrived r s\<lparr>gw_limiter := l\<rparr>))
           | (Inr True, l) \<Rightarrow> Forward (admitted_request env r) (arrived r s\<lparr>gw_limiter := l\<rparr>)))"

text \<open>The writer a forwarded request's route gets, and what happens after the route returned.\<close>

definition forward_writer :: "req_env \<Rightarrow> Request \<Rightarrow> ResponseWriter" where
  "forward_writer env r =
     (set_header ''X-Trace-ID'' (trace_id env r)
       (set_header ''Access-Control-Allow-Headers'' ''Content-Type, X-API-Key, X-Idempotency-Key, Idempotency-Key''
         (set_header ''Access-Control-Allow-Methods'' ''GET, POST, OPTIONS, PUT, DELETE''
           (set_header ''Access-Control-Allow-Origin'' ''*'' new_writer))))\<lparr>statusCode := Some 200\<rparr>"

definition returned ::
  "Request \<Rightarrow> ResponseWriter \<times> ('l, 'd, 'q) gateway \<Rightarrow> ResponseWriter \<times> ('l, 'd, 'q) gateway" where
  "returned r ws =
     (case ws of (w, s) \<Rightarrow>
        (w\<lparr>statusCode := None\<rparr>, counted r (request_tier r) (case statusCode w of None \<Rightarrow> 200 | Some c \<Rightarrow> c) s))"

section \<open>Lemmas\<close>

lemma new_writer_sel [simp]:
  "sent new_writer = None" "wbody new_writer = ''''" "statusCode new_writer = None" "wheader new_writer = Map.empty"
  by (simp_all add: new_writer_def)

lemma http_Error_wrapped [simp]:
  "statusCode w = Some c \<Longrightarrow> statusCode (http_Error msg code w) = Some code"
  by simp

text \<open>The part of the chain behind authentication.\<close>

definition guarded :: "req_env \<Rightarrow> Config \<Rightarrow> (allow_call \<Rightarrow> 'l \<Rightarrow> (limiter_error + bool) \<times> 'l) \<Rightarrow>
  ('l, 'd, 'q) gateway handler \<Rightarrow> ('l, 'd, 'q) gateway handler" where
  "guarded env cfg allow mux =
     metricsMiddleware (LoadShedder currentLoad 80 (RateLimit env cfg (gw_allow allow) mux))"

lemma chain_guarded:
  "gateway_chain env cfg allow mux = corsMiddleware (Tracing env (Auth (guarded env cfg allow mux)))"
  by (simp add: gateway_chain_def guarded_def)

lemma arrived_sel [simp]:
  "currentLoad (arrived r s) = currentLoad s" "gw_limiter (arrived r s) = gw_limiter s"
  by (simp_all add: arrived_def)

lemma metrics_returned:
  assumes "statusCode w = None" and "ctx_string r TierKey = request_tier r0" and "Path r = Path r0"
  shows "metricsMiddleware next r (w, s) = returned r0 (next r (w\<lparr>statusCode := Some 200\<rparr>, arrived r0 s))"
proof -
  have "isControlPath r = isControlPath r0" using assms(3) by (simp add: isControlPath_def)
  with assms show ?thesis
    by (simp add: metricsMiddleware_def returned_def counted_def arrived_def case_prod_unfold Let_def)
qed

lemma guarded_eq:
  assumes w: "statusCode w = None" "sent w = None" "wbody w = ''''"
    and r: "ctx_string r TierKey = request_tier r0" "Path r = Path r0" "ReqHeader r = ReqHeader r0"
  shows "let tier = request_tier r0; apiKey = Header_Get (ReqHeader r0) ''X-API-Key''; nl = [CHR 0x0A];
           answers = (\<lambda>code body s'. \<exists>w'. guarded env cfg allow mux r (w, s) = (w', counted r0 tier code s') \<and>
             status_of w' = code \<and> wbody w' = body @ nl)
    in if currentLoad s \<ge> 80 \<and> tier \<in> {''Free'', ''''} then
         answers 503 ''Service Unavailable (Load Shedding)'' (arrived r0 s)
       else case GetLimit cfg tier (Path r0) of
         (limit, False) \<Rightarrow> guarded env cfg allow mux r (w, s) = returned r0 (mux r (w\<lparr>statusCode := Some 200\<rparr>, arrived r0 s))
       | (limit, True) \<Rightarrow>
          (case allow (limiter_call env (rate_key tier (Path r0) apiKey) limit) (gw_limiter s) of
             (Inl err, l) \<Rightarrow> answers 500 ''Internal rate limiter error'' (arrived r0 s\<lparr>gw_limiter := l\<rparr>)
           | (Inr False, l) \<Rightarrow> answers 429 ''Too Many Requests'' (arrived r0 s\<lparr>gw_limiter := l\<rparr>)
           | (Inr True, l) \<Rightarrow> guarded env cfg allow mux r (w, s) =
               returned r0 (mux r (w\<lparr>statusCode := Some 200\<rparr>, arrived r0 s\<lparr>gw_limiter := l\<rparr>)))"
proof -
  let ?w = "w\<lparr>statusCode := Some 200\<rparr>"
  have err: "status_of (http_Error m c ?w\<lparr>statusCode := None\<rparr>) = c"
    "wbody (http_Error m c ?w\<lparr>statusCode := None\<rparr>) = m @ [CHR 0x0A]" for m c
    using w http_Error_sel [of m c ?w] by (simp_all add: status_of_def)
  have eq: "guarded env cfg allow mux r (w, s) =
      returned r0 (LoadShedder currentLoad 80 (RateLimit env cfg (gw_allow allow) mux) r (?w, arrived r0 s))"
    unfolding guarded_def by (rule metrics_returned [OF w(1) r(1,2)])
  show ?thesis
    unfolding eq using r err
    by (auto simp: LoadShedder_def RateLimit_def gw_allow_def returned_def Let_def
        split: prod.splits sum.splits bool.splits)
qed

text \<open>Requests reach the guarded part with their tier, and only with an API key (or for the metrics route).\<close>

lemma chain_open:
  assumes "CtxValue r = Map.empty" and "Method r \<noteq> ''OPTIONS''"
    and "Path r = ''/metrics'' \<or> Header_Get (ReqHeader r) ''X-API-Key'' \<noteq> ''''"
  shows "gateway_chain env cfg allow mux r (new_writer, s) =
    guarded env cfg allow mux (admitted_request env r) (forward_writer env r\<lparr>statusCode := None\<rparr>, s)"
  using assms
  by (auto simp: chain_guarded corsMiddleware_def Tracing_def Auth_def admitted_request_def request_tier_def
      forward_writer_def trace_id_def Let_def set_header_def new_writer_def)

lemma admitted_sel [simp]:
  "Path (admitted_request env r) = Path r" "ReqHeader (admitted_request env r) = ReqHeader r"
  "Method (admitted_request env r) = Method r" "Body (admitted_request env r) = Body r"
  by (simp_all add: admitted_request_def Let_def)

lemma admitted_tier: "CtxValue r = Map.empty \<Longrightarrow> ctx_string (admitted_request env r) TierKey = request_tier r"
  by (simp add: admitted_request_def ctx_string_def request_tier_def Let_def)

lemma forward_writer_sel [simp]:
  "sent (forward_writer env r) = None" "wbody (forward_writer env r) = ''''"
  "statusCode (forward_writer env r) = Some 200"
  by (simp_all add: forward_writer_def)

subsection \<open>The program's own event store and publisher\<close>

definition program_deps ::
  "'d pg_pool \<Rightarrow> (bool \<Rightarrow> string \<Rightarrow> string \<Rightarrow> 'd \<Rightarrow> string + WebhookEvent) \<Rightarrow>
   'q amqp_conn \<Rightarrow> RabbitMQPublisher \<Rightarrow> ('d, 'q) gw_deps" where
  "program_deps pool failed_row conn p =
     \<lparr>dep_store = NewPostgresEventStore pool, dep_failed_row = failed_row, dep_publish = Publish conn p\<rparr>"

text \<open>What the replay handler relies on of its single-row query.\<close>

definition failed_row_law ::
  "('d \<Rightarrow> event_table) \<Rightarrow> (bool \<Rightarrow> string \<Rightarrow> string \<Rightarrow> 'd \<Rightarrow> string + WebhookEvent) \<Rightarrow> bool" where
  "failed_row_law table failed_row \<longleftrightarrow>
     (\<forall>ctx i a d ev. failed_row ctx i a d = Inr ev \<longrightarrow>
        (\<exists>row. table d (ID ev) = Some row \<and> r_api_key row = a \<and> r_status row = ''failed'' \<and> APIKey ev = a))"

definition queue_message :: "RabbitMQPublisher \<Rightarrow> string \<Rightarrow> string \<times> string \<times> Publishing" where
  "queue_message p body = ('''', queueName p, \<lparr>ContentType = ''application/json'', PubBody = body\<rparr>)"

definition replayable :: "event_table \<Rightarrow> string \<Rightarrow> string set" where
  "replayable t apiKey = keys_where (\<lambda>row. r_api_key row = apiKey \<and> r_status row = ''failed'') t"

definition uuid_ids :: "event_table \<Rightarrow> bool" where
  "uuid_ids t \<longleftrightarrow> (\<forall>i \<in> dom t. uuid_text i)"

text \<open>A single-row query on the reference database.\<close>

definition ref_failed_row :: "bool \<Rightarrow> string \<Rightarrow> string \<Rightarrow> ref_db \<Rightarrow> string + WebhookEvent" where
  "ref_failed_row ctx i a d =
     (if ctx then Inl ''context canceled''
      else case ref_table d i of
        None \<Rightarrow> Inl ''no rows in result set''
      | Some row \<Rightarrow> if r_api_key row = a \<and> r_status row = ''failed'' then failed_row_event i row
                    else Inl ''no rows in result set'')"

subsection \<open>Lemmas on the handlers\<close>

lemma program_deps_sel [simp]:
  "dep_store (program_deps pool fr conn p) = NewPostgresEventStore pool"
  "dep_failed_row (program_deps pool fr conn p) = fr"
  "dep_publish (program_deps pool fr conn p) = Publish conn p"
  by (simp_all add: program_deps_def)

lemma webhook_event_sel [simp]:
  "ID (webhook_event env r a u p) = e_event env" "APIKey (webhook_event env r a u p) = a"
  "EventURL (webhook_event env r a u p) = u" "Payload (webhook_event env r a u p) = p"
  "Status (webhook_event env r a u p) = ''pending''"
  by (simp_all add: webhook_event_def zero_event_def Let_def)

lemma ref_failed_row_law: "failed_row_law ref_table ref_failed_row"
  unfolding failed_row_law_def ref_failed_row_def
  by (auto split: option.splits if_splits dest!: failed_row_event_Inr)

text \<open>The ways through the webhook handler.\<close>

lemma webhooks_refused:
  assumes "Method r \<noteq> ''POST'' \<or> ctx_string r APIKeyKey = '''' \<or>
    (case decode_webhook (Body r) of Inl e \<Rightarrow> True | Inr (t, p) \<Rightarrow> t = '''' \<or> p = '''')" and "sent w = None"
  shows "\<exists>w'. webhooksHandler deps env r (w, s) = (w', s) \<and> status_of w' \<in> {400, 401, 405}"
  using assms by (auto simp: webhooksHandler_def Let_def split: sum.splits)

lemma webhooks_valid:
  assumes "Method r = ''POST''" and "ctx_string r APIKeyKey = apiKey" "apiKey \<noteq> ''''"
    and "decode_webhook (Body r) = Inr (target, payload)" "target \<noteq> ''''" "payload \<noteq> ''''"
    and "es_SaveEvent (dep_store deps) (CtxCancelled r) (webhook_event env r apiKey target payload) (gw_db s) = (e1, db)"
    and "dep_publish deps (CtxCancelled r) (webhook_event env r apiKey target payload) (gw_mq s) = (e2, q)"
    and "sent w = None"
  shows "\<exists>w'. webhooksHandler deps env r (w, s) =
      (w', if e1 \<noteq> None then s\<lparr>gw_db := db\<rparr> else s\<lparr>gw_db := db, gw_mq := q\<rparr>) \<and>
    status_of w' = (if e1 = None \<and> e2 = None then 202 else 500)"
  using assms by (cases e1; cases e2) (simp_all add: webhooksHandler_def write_json_def)

lemma webhooks_cases:
  assumes h: "webhooksHandler deps env r (w, s) = (w', s')" and w: "sent w = None"
  obtains (refused) "status_of w' \<in> {400, 401, 405}" "s' = s"
  | (failed) "status_of w' = 500"
  | (accepted) target payload db q where "status_of w' = 202" "ctx_string r APIKeyKey \<noteq> ''''"
      "decode_webhook (Body r) = Inr (target, payload)" "target \<noteq> ''''" "payload \<noteq> ''''"
      "es_SaveEvent (dep_store deps) (CtxCancelled r)
         (webhook_event env r (ctx_string r APIKeyKey) target payload) (gw_db s) = (None, db)"
      "dep_publish deps (CtxCancelled r)
         (webhook_event env r (ctx_string r APIKeyKey) target payload) (gw_mq s) = (None, q)"
      "s' = s\<lparr>gw_db := db, gw_mq := q\<rparr>"
proof (cases "Method r \<noteq> ''POST'' \<or> ctx_string r APIKeyKey = '''' \<or>
    (case decode_webhook (Body r) of Inl e \<Rightarrow> True | Inr (t, p) \<Rightarrow> t = '''' \<or> p = '''')")
  case True
  from webhooks_refused [OF True w, where deps = deps and env = env and s = s] h show ?thesis using refused by auto
next
  case False
  then obtain target payload where d: "decode_webhook (Body r) = Inr (target, payload)"
    "target \<noteq> ''''" "payload \<noteq> ''''" by (auto split: sum.splits prod.splits)
  let ?ev = "webhook_event env r (ctx_string r APIKeyKey) target payload"
  obtain e1 db where sv: "es_SaveEvent (dep_store deps) (CtxCancelled r) ?ev (gw_db s) = (e1, db)" by (metis surj_pair)
  obtain e2 q where pb: "dep_publish deps (CtxCancelled r) ?ev (gw_mq s) = (e2, q)" by (metis surj_pair)
  from webhooks_valid [OF _ refl _ d sv pb w] False h
  have "(w', s') = (w', if e1 \<noteq> None then s\<lparr>gw_db := db\<rparr> else s\<lparr>gw_db := db, gw_mq := q\<rparr>)"
    "status_of w' = (if e1 = None \<and> e2 = None then 202 else 500)" by auto
  with accepted [of target payload db q] failed False d sv pb show ?thesis
    by (cases "e1 = None \<and> e2 = None") auto
qed

context amqp_broker
begin

lemma Publish_message:
  assumes "Publish conn p ctx ev q = (res, q')"
  shows "\<exists>ms. handed q' = handed q @ ms \<and> (res = None \<longrightarrow> ms \<noteq> []) \<and> length ms \<le> 1 \<and>
    (\<forall>m \<in> set ms. \<exists>body. marshal_event ev = Inr body \<and> m = queue_message p body)"
proof (cases "marshal_event ev")
  case (Inl err)
  with assms show ?thesis by (auto simp: Publish_def)
next
  case (Inr body)
  let ?m = "\<lparr>ContentType = ''application/json'', PubBody = body\<rparr>"
  obtain r q1 where c: "ch_Publish conn (channel p) ctx '''' (queueName p) False False ?m q = (r, q1)" by (metis surj_pair)
  have "handed q1 = handed q @ [queue_message p body] \<or> r \<noteq> None \<and> handed q1 = handed q"
    using publish_view [OF c] publish_failed [of "channel p" ctx "''''" "queueName p" False False ?m q _ q1] c
    by (cases r) (auto simp: queue_message_def)
  moreover have "q' = q1" "res = None \<longleftrightarrow> r = None"
    using assms Inr c by (auto simp: Publish_def split: option.splits)
  ultimately show ?thesis using Inr by auto
qed

lemma Publish_one:
  assumes "Publish conn p ctx ev q = (None, q')"
  shows "\<exists>body. marshal_event ev = Inr body \<and> handed q' = handed q @ [queue_message p body]"
proof -
  from Publish_message [OF assms] obtain ms where "handed q' = handed q @ ms" "ms \<noteq> []" "length ms \<le> 1"
    "\<forall>m \<in> set ms. \<exists>body. marshal_event ev = Inr body \<and> m = queue_message p body" by blast
  then show ?thesis by (cases ms) auto
qed

end

lemma replay_loop_effects:
  assumes pg: "postgres pool table jsonb to_char" and mq: "amqp_broker conn view handed"
    and "list_all (\<lambda>ev. uuid_text (ID ev)) evs"
    and "replay_loop (program_deps pool fr conn p) ctx evs ids db q = (ids', db', q')"
  shows "(\<forall>i. i \<notin> ID ` set evs \<longrightarrow> table db' i = table db i) \<and>
    (\<exists>ms. handed q' = handed q @ ms \<and>
      (\<forall>m \<in> set ms. \<exists>ev \<in> set evs. \<exists>body. marshal_event (ev\<lparr>Status := ''pending''\<rparr>) = Inr body \<and> m = queue_message p body)) \<and>
    set ids' \<subseteq> set ids \<union> ID ` set evs"
  using assms(3,4)
proof (induction evs arbitrary: ids db q)
  case (Cons ev evs)
  obtain r1 db1 where u: "UpdateEventStatus pool ctx (ID ev) ''pending'' '''' db = (r1, db1)" by (metis surj_pair)
  obtain r2 q1 where pb: "Publish conn p ctx (ev\<lparr>Status := ''pending''\<rparr>) q = (r2, q1)" by (metis surj_pair)
  have db1: "table db1 i = table db i" if "i \<noteq> ID ev" for i
    using postgres.UpdateEventStatus_law [OF pg u] Cons.prems(1) that by (auto simp: set_status_def)
  from amqp_broker.Publish_message [OF mq pb] obtain ms1 where ms1: "handed q1 = handed q @ ms1"
    "\<forall>m \<in> set ms1. \<exists>body. marshal_event (ev\<lparr>Status := ''pending''\<rparr>) = Inr body \<and> m = queue_message p body" by blast
  define q2 where "q2 = (if r1 = None then q1 else q)"
  define ids2 where "ids2 = (if r1 = None \<and> r2 = None then ids @ [ID ev] else ids)"
  have "replay_loop (program_deps pool fr conn p) ctx evs ids2 db1 q2 = (ids', db', q')"
    using Cons.prems(2) u pb by (auto simp: q2_def ids2_def split: option.splits)
  from Cons.IH [OF _ this] Cons.prems(1) have IH:
    "\<forall>i. i \<notin> ID ` set evs \<longrightarrow> table db' i = table db1 i" "set ids' \<subseteq> set ids2 \<union> ID ` set evs"
    "\<exists>ms. handed q' = handed q2 @ ms \<and>
      (\<forall>m \<in> set ms. \<exists>ev \<in> set evs. \<exists>body. marshal_event (ev\<lparr>Status := ''pending''\<rparr>) = Inr body \<and> m = queue_message p body)"
    by simp_all
  obtain ms where ms: "handed q' = handed q2 @ ms"
    "\<forall>m \<in> set ms. \<exists>ev \<in> set evs. \<exists>body. marshal_event (ev\<lparr>Status := ''pending''\<rparr>) = Inr body \<and> m = queue_message p body"
    using IH(3) by blast
  have "handed q' = handed q @ (if r1 = None then ms1 else []) @ ms"
    using ms(1) ms1(1) by (simp add: q2_def)
  moreover have "\<forall>m \<in> set ((if r1 = None then ms1 else []) @ ms). \<exists>ev' \<in> set (ev # evs). \<exists>body.
      marshal_event (ev'\<lparr>Status := ''pending''\<rparr>) = Inr body \<and> m = queue_message p body"
    using ms(2) ms1(2) by (auto split: if_splits)
  moreover have "\<forall>i. i \<notin> ID ` set (ev # evs) \<longrightarrow> table db' i = table db i"
    using IH(1) db1 by simp
  moreover have "set ids' \<subseteq> set ids \<union> ID ` set (ev # evs)"
    using IH(2) by (auto simp: ids2_def split: if_splits)
  ultimately show ?case by blast
qed simp

lemma replay_cases:
  assumes h: "replayHandler deps r (w, s) = (w', s')"
  obtains (unchanged) "s' = s"
  | (replayed) evs ids db q where "failed_to_replay deps r (ctx_string r APIKeyKey) (gw_db s) = Inr evs"
      "replay_loop deps (CtxCancelled r) evs [] (gw_db s) (gw_mq s) = (ids, db, q)" "s' = s\<lparr>gw_db := db, gw_mq := q\<rparr>"
proof (cases "Method r \<noteq> ''POST'' \<or> ctx_string r APIKeyKey = ''''")
  case True
  with h have "s' = s" by (auto simp: replayHandler_def Let_def split: if_splits)
  then show ?thesis by (rule unchanged)
next
  case False
  show ?thesis
  proof (cases "failed_to_replay deps r (ctx_string r APIKeyKey) (gw_db s)")
    case (Inl err)
    with h False have "s' = s" by (simp add: replayHandler_def)
    then show ?thesis by (rule unchanged)
  next
    case (Inr evs)
    obtain ids db q where l: "replay_loop deps (CtxCancelled r) evs [] (gw_db s) (gw_mq s) = (ids, db, q)"
      by (metis prod_cases3)
    with h False Inr have "s' = s\<lparr>gw_db := db, gw_mq := q\<rparr>" by (simp add: replayHandler_def)
    with Inr l show ?thesis by (rule replayed)
  qed
qed

lemma failed_to_replay_own:
  assumes pg: "postgres pool table jsonb to_char" and fr: "failed_row_law table fr"
    and "failed_to_replay (program_deps pool fr conn p) r apiKey db = Inr evs" and "ev \<in> set evs"
  shows "ID ev \<in> replayable (table db) apiKey \<and> APIKey ev = apiKey"
proof (cases "decode_replay (Body r) = ''''")
  case True
  with assms(3) have g: "GetFailedEvents pool (CtxCancelled r) apiKey db = Inr evs" by (simp add: failed_to_replay_def)
  note law = postgres.GetFailedEvents_law [OF pg g]
  from law assms(4) have i: "ID ev \<in> replayable (table db) apiKey" unfolding replayable_def by (metis image_eqI list.set_map)
  then obtain row where "table db (ID ev) = Some row" "r_api_key row = apiKey"
    by (auto simp: replayable_def keys_where_def)
  with law assms(4) failed_row_event_Inr [of "ID ev" row ev] i show ?thesis by auto
next
  case False
  with assms(3,4) have "fr (CtxCancelled r) (decode_replay (Body r)) apiKey db = Inr ev"
    by (auto simp: failed_to_replay_def Let_def split: sum.splits)
  with fr show ?thesis by (fastforce simp: failed_row_law_def replayable_def keys_where_def)
qed

section \<open>Properties\<close>

text \<open>
  Every request is decided as \<open>gate\<close> says, in this order: the health check and preflight
  requests are answered at once; a request without API key gets 401 (the metrics route needs
  none); above the load threshold free requests get 503; the limiter of the request's tier,
  path and key may answer 429 or fail with 500; and only a request that passes all of them
  reaches its route, once, with tier and API key in its context. Whatever the route does, it
  cannot influence any of the rejections.
\<close>

theorem gateway_pipeline:
  assumes "CtxValue r = Map.empty"
  shows "case gate env cfg allow r s of
     Answer code body s' \<Rightarrow>
       (\<exists>w'. finalHandler env cfg allow mux r (new_writer, s) = (w', s') \<and> status_of w' = code \<and> wbody w' = body)
   | Forward r' s' \<Rightarrow>
       finalHandler env cfg allow mux r (new_writer, s) = returned r (mux r' (forward_writer env r, s'))"
proof -
  consider "Path r = ''/healthz''"
    | "Path r \<noteq> ''/healthz''" "Method r = ''OPTIONS''"
    | "Path r \<noteq> ''/healthz''" "Method r \<noteq> ''OPTIONS''" "Path r \<noteq> ''/metrics''" "Header_Get (ReqHeader r) ''X-API-Key'' = ''''"
    | (passes) "Path r \<noteq> ''/healthz''" "Method r \<noteq> ''OPTIONS''"
        "Path r = ''/metrics'' \<or> Header_Get (ReqHeader r) ''X-API-Key'' \<noteq> ''''"
    by blast
  then show ?thesis
  proof cases
    case passes
    let ?w = "forward_writer env r\<lparr>statusCode := None\<rparr>"
    have f: "finalHandler env cfg allow mux r (new_writer, s) =
        guarded env cfg allow mux (admitted_request env r) (?w, s)"
      using passes by (simp add: finalHandler_def chain_open [OF assms])
    have w: "statusCode ?w = None" "sent ?w = None" "wbody ?w = ''''" "?w\<lparr>statusCode := Some 200\<rparr> = forward_writer env r"
      by (simp_all add: forward_writer_def)
    show ?thesis
      using guarded_eq [OF w(1-3) admitted_tier [OF assms], where env = env and cfg = cfg and allow = allow and mux = mux and s = s] passes
      unfolding f w(4)
      by (auto simp: gate_def Let_def split: if_splits prod.splits sum.splits bool.splits)
  qed (auto simp: gate_def finalHandler_def chain_guarded corsMiddleware_def Tracing_def Auth_def Let_def)
qed

definition sample_req :: "string \<Rightarrow> string \<Rightarrow> string \<Rightarrow> Request" where
  "sample_req method path key =
     \<lparr>Method = method, Path = path, EscapedPath = path, RawQuery = '''', ReqHeader = [''X-Api-Key'' \<mapsto> [key]], Body = ''b'',
      CtxValue = Map.empty, CtxCancelled = False\<rparr>"

definition sample_renv :: req_env where
  "sample_renv = \<lparr>e_trace = uuid_a, e_t_get = 0, e_t_now = 0, e_t_set = 0, e_t_srv = 0, e_member = uuid_b, e_event = uuid_b\<rparr>"

definition sample_gateway :: "int \<Rightarrow> 'l \<Rightarrow> ('l, ref_db, ref_broker) gateway" where
  "sample_gateway load l = \<lparr>gw_limiter = l, gw_db = ref_db0, gw_mq = ref_broker0, gw_metrics = new_metrics,
     totalRequestsCount = 0, rateLimitHitsCount = 0, currentLoad = load\<rparr>"

lemma canon_api_key [simp]: "CanonicalMIMEHeaderKey ''X-API-Key'' = ''X-Api-Key''"
  by code_simp

theorem gateway_pipeline_witness:
  "\<exists>w' s'. finalHandler sample_renv shipped_policy Stub_Allow (\<lambda>r ws. ws) (sample_req ''POST'' ''/v1/webhooks'' ''k'')
     (new_writer, sample_gateway 90 NewStubRateLimiter) = (w', s') \<and> status_of w' = 503"
proof -
  let ?r = "sample_req ''POST'' ''/v1/webhooks'' ''k''"
  have "\<exists>b s'. gate sample_renv shipped_policy Stub_Allow ?r (sample_gateway 90 NewStubRateLimiter) = Answer 503 b s'"
    by (simp add: gate_def sample_req_def sample_gateway_def Header_Get_def request_tier_def tier_of_def Let_def)
  then obtain b s' where g: "gate sample_renv shipped_policy Stub_Allow ?r (sample_gateway 90 NewStubRateLimiter) = Answer 503 b s'"
    by blast
  from gateway_pipeline [where r = ?r and env = sample_renv and cfg = shipped_policy and allow = Stub_Allow and
      s = "sample_gateway 90 NewStubRateLimiter" and mux = "\<lambda>r ws. ws"]
  show ?thesis unfolding g by (auto simp: sample_req_def)
qed

definition sample_deps :: "(ref_db, ref_broker) gw_deps" where
  "sample_deps = program_deps ref_pool ref_failed_row ref_conn \<lparr>channel = 1, queueName = ''webhook_queue''\<rparr>"

definition sample_request_body :: string where
  "sample_request_body = print_json (JObj [(''target_url'', json_string ''http://x''), (''payload'', JObj [])])"

lemma sample_request_decodes [simp]:
  "decode_webhook sample_request_body = Inr (''http://x'', ''{}'')" "decode_replay sample_request_body = ''''"
  by code_simp+

definition sample_auth_req :: "string \<Rightarrow> Request" where
  "sample_auth_req idem = (sample_req ''POST'' ''/v1/webhooks'' ''acme'')
     \<lparr>ReqHeader := [''X-Idempotency-Key'' \<mapsto> [idem]], Body := sample_request_body, CtxValue := [APIKeyKey \<mapsto> ''acme'']\<rparr>"

lemma canon_idem [simp]: "CanonicalMIMEHeaderKey ''X-Idempotency-Key'' = ''X-Idempotency-Key''"
  by code_simp

lemma sample_auth_sel [simp]:
  "Method (sample_auth_req i) = ''POST''" "ctx_string (sample_auth_req i) APIKeyKey = ''acme''"
  "CtxCancelled (sample_auth_req i) = False" "Body (sample_auth_req i) = sample_request_body"
  by (simp_all add: sample_auth_req_def sample_req_def ctx_string_def)

lemma sample_webhook_idem:
  "idem_key (webhook_event sample_renv (sample_auth_req ''k'') a u p) = ''k''"
  by (simp add: idem_key_def webhook_event_def sample_auth_req_def sample_req_def Header_Get_def zero_event_def)

definition sample_message :: string where
  "sample_message =
     (case marshal_event (webhook_event sample_renv (sample_auth_req ''k'') ''acme'' ''http://x'' ''{}'') of
        Inl e \<Rightarrow> '''' | Inr body \<Rightarrow> body)"

lemma marshal_sample_message:
  "marshal_event (webhook_event sample_renv (sample_auth_req ''k'') ''acme'' ''http://x'' ''{}'') = Inr sample_message"
  by (simp add: sample_message_def marshal_sample del: print_json.simps)

lemma sample_webhook_runs:
  assumes "e_event sample_renv \<notin> dom (map_of rows)"
  shows "\<exists>w' s'. webhooksHandler sample_deps sample_renv (sample_auth_req ''k'')
    (new_writer, (sample_gateway 0 NewStubRateLimiter)\<lparr>gw_db := (rows, n)\<rparr>) = (w', s') \<and> status_of w' = 202"
proof -
  let ?s = "(sample_gateway 0 NewStubRateLimiter)\<lparr>gw_db := (rows, n)\<rparr>"
  let ?ev = "webhook_event sample_renv (sample_auth_req ''k'') ''acme'' ''http://x'' ''{}''"
  have none: "map_of rows (e_event sample_renv) = None" using assms by (simp add: domIff)
  have "fst (es_SaveEvent (dep_store sample_deps) False ?ev (gw_db ?s)) = None"
    by (auto simp: sample_deps_def SaveEvent_def ref_pool_def Let_def none)
  moreover have "fst (dep_publish sample_deps False ?ev (gw_mq ?s)) = None"
    by (simp add: sample_deps_def Publish_def marshal_sample_message ref_conn_def sample_gateway_def ref_broker0_def)
  ultimately have sv: "es_SaveEvent (dep_store sample_deps) (CtxCancelled (sample_auth_req ''k'')) ?ev (gw_db ?s) =
      (None, snd (es_SaveEvent (dep_store sample_deps) False ?ev (gw_db ?s)))"
    and pb: "dep_publish sample_deps (CtxCancelled (sample_auth_req ''k'')) ?ev (gw_mq ?s) =
      (None, snd (dep_publish sample_deps False ?ev (gw_mq ?s)))"
    by (simp_all add: prod_eq_iff)
  from webhooks_valid [OF _ _ _ _ _ _ sv pb, of new_writer] show ?thesis by (auto simp: sample_deps_def)
qed

text \<open>
  C23: A webhook request is answered 202 only when its event was stored and handed to the
  broker: the row is saved under the idempotency key of the request (or was there already),
  and exactly one message, the encoding of that event, is published to the queue. A request
  refused with 400, 401 or 405 changes nothing, and every other outcome is a 500.
\<close>

theorem webhook_accepted:
  assumes "postgres pool table jsonb to_char" and "amqp_broker conn view handed"
    and "webhooksHandler (program_deps pool fr conn p) env r (w, s) = (w', s')"
    and "sent w = None" and "uuid_text (e_event env)"
  shows "status_of w' \<in> {202, 400, 401, 405, 500} \<and>
    (status_of w' \<in> {400, 401, 405} \<longrightarrow> s' = s) \<and>
    (status_of w' = 202 \<longrightarrow>
      (\<exists>target payload body. decode_webhook (Body r) = Inr (target, payload) \<and> ctx_string r APIKeyKey \<noteq> '''' \<and>
        marshal_event (webhook_event env r (ctx_string r APIKeyKey) target payload) = Inr body \<and>
        saves jsonb (webhook_event env r (ctx_string r APIKeyKey) target payload) (table (gw_db s)) (table (gw_db s')) \<and>
        handed (gw_mq s') = handed (gw_mq s) @ [queue_message p body]))"
  using assms(3,4)
proof (cases rule: webhooks_cases)
  case (accepted target payload db q)
  let ?ev = "webhook_event env r (ctx_string r APIKeyKey) target payload"
  have "saves jsonb ?ev (table (gw_db s)) (table db)"
    using postgres.SaveEvent_law [OF assms(1)] accepted assms(5) by fastforce
  moreover obtain body where "marshal_event ?ev = Inr body" "handed q = handed (gw_mq s) @ [queue_message p body]"
    using amqp_broker.Publish_one [OF assms(2), of p "CtxCancelled r" ?ev "gw_mq s" q] accepted by auto
  ultimately show ?thesis using accepted by auto
qed auto

theorem webhook_accepted_witness:
  "\<exists>w' s'. webhooksHandler sample_deps sample_renv (sample_auth_req ''k'') (new_writer, sample_gateway 0 NewStubRateLimiter) = (w', s') \<and>
     snd (gw_mq s') = [queue_message \<lparr>channel = 1, queueName = ''webhook_queue''\<rparr> sample_message]"
proof -
  have g: "(sample_gateway 0 NewStubRateLimiter)\<lparr>gw_db := ([], 0)\<rparr> = sample_gateway 0 NewStubRateLimiter"
    by (simp add: sample_gateway_def ref_db0_def)
  obtain w' s' where h: "webhooksHandler sample_deps sample_renv (sample_auth_req ''k'')
      (new_writer, sample_gateway 0 NewStubRateLimiter) = (w', s')" "status_of w' = 202"
    using sample_webhook_runs [of "[]" 0] unfolding g by auto
  have "uuid_text (e_event sample_renv)" by (simp add: sample_renv_def)
  from webhook_accepted [OF refdb.postgres_axioms refmq.amqp_broker_axioms h(1) [unfolded sample_deps_def] _ this] h
  show ?thesis by (auto simp: marshal_sample_message sample_gateway_def ref_broker0_def)
qed





end
