(* ===== verification/Net_Url.thy ===== *)
theory Net_Url
  imports Go_Json Net_Http
begin

text \<open>
  What the gateway uses of Go's packages \<^verbatim>\<open>net/url\<close>, \<^verbatim>\<open>strconv\<close> and the routing of
  \<^verbatim>\<open>net/http\<close>: query parameters, decimal integers, cleaned paths, \<^verbatim>\<open>ServeMux\<close> for patterns without
  wildcards besides \<^verbatim>\<open>/\<close>, and redirects to a fixed path.

  Shown: a path without escapes is served by the handler registered under it, if there is one,
  and otherwise by the root handler; a decimal that fits is read as its value.
\<close>

section \<open>Definitions\<close>

fun split_on :: "char \<Rightarrow> string \<Rightarrow> string list" where
  "split_on d [] = [[]]"
| "split_on d (c # s) =
     (if c = d then [] # split_on d s
      else case split_on d s of [] \<Rightarrow> [[c]] | x # xs \<Rightarrow> (c # x) # xs)"

fun join_with :: "char \<Rightarrow> string list \<Rightarrow> string" where
  "join_with d [] = []"
| "join_with d [x] = x"
| "join_with d (x # y # xs) = x @ d # join_with d (y # xs)"

text \<open>\<^verbatim>\<open>strings.Cut\<close>: the text before and after the first separator.\<close>

definition cut :: "char \<Rightarrow> string \<Rightarrow> string \<times> string" where
  "cut d s = (takeWhile (\<lambda>c. c \<noteq> d) s, drop 1 (dropWhile (\<lambda>c. c \<noteq> d) s))"

subsection \<open>Escapes\<close>

fun percent_decode :: "bool \<Rightarrow> string \<Rightarrow> string option" where
  "percent_decode query [] = Some []"
| "percent_decode query (c # s) =
     (if c = CHR ''%'' then
        (if length s \<ge> 2 \<and> is_hex (s ! 0) \<and> is_hex (s ! 1)
         then map_option ((#) (char_of (16 * hex_val (s ! 0) + hex_val (s ! 1)))) (percent_decode query (drop 2 s))
         else None)
      else map_option ((#) (if query \<and> c = CHR ''+'' then CHR '' '' else c)) (percent_decode query s))"

definition QueryUnescape :: "string \<Rightarrow> string option" where
  "QueryUnescape s = percent_decode True s"

text \<open>A path segment with a malformed escape stands for itself in the router.\<close>

definition path_unescape :: "string \<Rightarrow> string" where
  "path_unescape s = (case percent_decode False s of None \<Rightarrow> s | Some t \<Rightarrow> t)"

subsection \<open>Query parameters\<close>

definition query_param :: "string \<Rightarrow> (string \<times> string) list" where
  "query_param part =
     (if CHR '';'' \<in> set part \<or> part = '''' then []
      else case cut (CHR ''='') part of (k, v) \<Rightarrow>
        (case (QueryUnescape k, QueryUnescape v) of
           (Some k', Some v') \<Rightarrow> [(k', v')]
         | _ \<Rightarrow> []))"

text \<open>\<^verbatim>\<open>u.Query()\<close>: malformed parameters are dropped, and all of them when there are more than 10000.\<close>

definition Query :: "string \<Rightarrow> (string \<times> string) list" where
  "Query raw =
     (let parts = split_on (CHR ''&'') raw in
      if length parts > 10000 then [] else concat (map query_param parts))"

definition Query_Get :: "string \<Rightarrow> string \<Rightarrow> string" where
  "Query_Get raw key = (case map_of (Query raw) key of None \<Rightarrow> '''' | Some v \<Rightarrow> v)"

subsection \<open>Decimal integers\<close>

text \<open>\<^verbatim>\<open>strconv.Atoi\<close>: an optional sign and digits, in the range of \<^verbatim>\<open>int\<close>.\<close>

definition Atoi :: "string \<Rightarrow> int option" where
  "Atoi s =
     (let neg = (s \<noteq> [] \<and> hd s = CHR ''-'');
          ds = (if s \<noteq> [] \<and> (hd s = CHR ''-'' \<or> hd s = CHR ''+'') then tl s else s);
          n = digits_val 0 ds; i = (if neg then - n else n)
      in if ds = [] \<or> \<not> list_all is_digit ds \<or> \<not> in_i64 i then None else Some i)"

subsection \<open>Paths and routing\<close>

fun clean_segs :: "string list \<Rightarrow> string list \<Rightarrow> string list" where
  "clean_segs out [] = out"
| "clean_segs out (x # xs) =
     (if x = '''' \<or> x = ''.'' then clean_segs out xs
      else if x = ''..'' then clean_segs (butlast out) xs
      else clean_segs (out @ [x]) xs)"

text \<open>\<^verbatim>\<open>path.Clean\<close> of a rooted path.\<close>

definition path_Clean :: "string \<Rightarrow> string" where
  "path_Clean p = CHR ''/'' # join_with (CHR ''/'') (clean_segs [] (split_on (CHR ''/'') p))"

definition cleanPath :: "string \<Rightarrow> string" where
  "cleanPath p =
     (if p = '''' then ''/''
      else let p' = (if hd p = CHR ''/'' then p else CHR ''/'' # p); np = path_Clean p'
           in if last p' = CHR ''/'' \<and> np \<noteq> ''/'' then np @ ''/'' else np)"

definition mux_segments :: "string \<Rightarrow> string list" where
  "mux_segments p = map path_unescape (split_on (CHR ''/'') p)"

text \<open>
  \<^verbatim>\<open>ServeMux\<close>: the pattern with the path's segments, else the root pattern \<^verbatim>\<open>/\<close>. A path that is
  not clean gets the mux's own answer \<open>own\<close>, a redirect to the cleaned path, which is an argument;
  for the method CONNECT the path is not cleaned, and an empty path is not found.
\<close>

definition mux_find :: "(string \<times> 'h) list \<Rightarrow> 'h \<Rightarrow> string \<Rightarrow> 'h" where
  "mux_find table root p =
     (case find (\<lambda>(pat, h). split_on (CHR ''/'') pat = mux_segments p) table of
        Some (pat, h) \<Rightarrow> h
      | None \<Rightarrow> root)"

definition mux_own :: "Request \<Rightarrow> bool" where
  "mux_own r \<longleftrightarrow> (if Method r = ''CONNECT'' then EscapedPath r = '''' else cleanPath (EscapedPath r) \<noteq> EscapedPath r)"

definition ServeMux :: "'s handler \<Rightarrow> (string \<times> 's handler) list \<Rightarrow> 's handler \<Rightarrow> 's handler" where
  "ServeMux own table root r ws =
     (if mux_own r then own r ws else mux_find table root (EscapedPath r) r ws)"

text \<open>\<^verbatim>\<open>http.Redirect\<close> with status 307 to a clean path of plain characters.\<close>

definition redirect_body :: "string \<Rightarrow> string" where
  "redirect_body url = ''<a href='' @ [DQ] @ url @ [DQ] @ ''>Temporary Redirect</a>.'' @ [CHR 0x0A, CHR 0x0A]"

definition http_Redirect :: "Request \<Rightarrow> string \<Rightarrow> ResponseWriter \<Rightarrow> ResponseWriter" where
  "http_Redirect r url w =
     (let hadCT = (wheader w ''Content-Type'' \<noteq> None);
          w1 = set_header ''Location'' url w;
          w2 = (if \<not> hadCT \<and> (Method r = ''GET'' \<or> Method r = ''HEAD'')
                then set_header ''Content-Type'' ''text/html; charset=utf-8'' w1 else w1);
          w3 = WriteHeader 307 w2
      in if \<not> hadCT \<and> Method r = ''GET'' then Write (redirect_body url) w3 else w3)"

section \<open>Lemmas\<close>

lemma split_on_ne [simp]: "split_on d s \<noteq> []"
  by (induction s) (auto split: list.splits)

lemma join_split [simp]: "join_with d (split_on d s) = s"
proof (induction s)
  case (Cons c s)
  obtain x xs where x: "split_on d s = x # xs" by (cases "split_on d s") auto
  with Cons show ?case by (cases xs) auto
qed simp

lemma split_on_inject: "split_on d s = split_on d t \<longleftrightarrow> s = t"
  by (metis join_split)

lemma split_on_set: "x \<in> set (split_on d s) \<Longrightarrow> set x \<subseteq> set s"
proof (induction s arbitrary: x)
  case (Cons c s)
  obtain y ys where y: "split_on d s = y # ys" by (cases "split_on d s") auto
  with Cons.IH [of y] Cons.IH [of x] Cons.prems show ?case by (auto split: if_splits)
qed simp

lemma percent_decode_plain: "CHR ''%'' \<notin> set s \<Longrightarrow> percent_decode False s = Some s"
  by (induction s) auto

lemma mux_segments_plain: "CHR ''%'' \<notin> set p \<Longrightarrow> mux_segments p = split_on (CHR ''/'') p"
  unfolding mux_segments_def path_unescape_def
  by (rule map_idI) (use split_on_set percent_decode_plain in fastforce)

lemma mux_find_plain:
  assumes "CHR ''%'' \<notin> set p"
  shows "mux_find table root p = (case map_of table p of Some h \<Rightarrow> h | None \<Rightarrow> root)"
proof -
  have "find (\<lambda>(pat, h). pat = p) table = map_option (Pair p) (map_of table p)"
    by (induction table) auto
  then show ?thesis
    by (simp add: mux_find_def mux_segments_plain [OF assms] split_on_inject split: option.splits)
qed

lemma Atoi_show: "in_i64 i \<Longrightarrow> Atoi (show_int i) = Some i"
proof -
  assume i: "in_i64 i"
  have "show_nat n \<noteq> []" "hd (show_nat n) \<noteq> CHR ''-''" "hd (show_nat n) \<noteq> CHR ''+''" for n
    using show_nat_digits [of n] by (cases "show_nat n"; auto)+
  with i show_nat_digits show ?thesis by (auto simp: Atoi_def show_int_def Let_def)
qed

text \<open>A path that decodes is decoded segment by segment.\<close>

lemma percent_decode_Cons_slash:
  "percent_decode False (CHR ''/'' # s) = map_option ((#) (CHR ''/'')) (percent_decode False s)"
  by simp

lemma hex_not_slash [simp]: "\<not> is_hex (CHR ''/'')"
  by code_simp

lemma split_on_append:
  "d \<notin> set u \<Longrightarrow> split_on d (u @ s) = (case split_on d s of [] \<Rightarrow> [u] | x # xs \<Rightarrow> (u @ x) # xs)"
  by (induction u) (auto split: list.splits)

lemma join_with_Cons: "xs \<noteq> [] \<Longrightarrow> join_with d (x # xs) = x @ d # join_with d xs"
  by (cases xs) auto

lemma join_with_head: "join_with d ((c # x) # xs) = c # join_with d (x # xs)"
  by (cases xs) auto

lemma percent_decode_segments:
  "percent_decode False s = Some t \<Longrightarrow>
     \<exists>ts. map (percent_decode False) (split_on (CHR ''/'') s) = map Some ts \<and> join_with (CHR ''/'') ts = t"
proof (induction False s arbitrary: t rule: percent_decode.induct)
  case 1
  then show ?case by (intro exI [of _ "[[]]"]) simp
next
  case (2 c s)
  have first: "\<exists>ts. map (percent_decode False) (split_on (CHR ''/'') (u @ s')) = map Some ts \<and> join_with (CHR ''/'') ts = d # t'"
    if u: "CHR ''/'' \<notin> set u" "\<And>x. percent_decode False (u @ x) = map_option ((#) d) (percent_decode False x)"
      and ts: "map (percent_decode False) (split_on (CHR ''/'') s') = map Some ts" "join_with (CHR ''/'') ts = t'" for u s' d t' ts
  proof -
    obtain x xs where x: "split_on (CHR ''/'') s' = x # xs" by (cases "split_on (CHR ''/'') s'") auto
    with ts obtain y ys where y: "ts = y # ys" "percent_decode False x = Some y" "map (percent_decode False) xs = map Some ys"
      by (cases ts) auto
    with x u ts show ?thesis
      by (intro exI [of _ "(d # y) # ys"]) (simp add: split_on_append join_with_head)
  qed
  show ?case
  proof (cases "c = CHR ''%''")
    case True
    with 2(3) obtain t' where hex: "length s \<ge> 2" "is_hex (s ! 0)" "is_hex (s ! 1)"
      and t': "percent_decode False (drop 2 s) = Some t'" "t = char_of (16 * hex_val (s ! 0) + hex_val (s ! 1)) # t'"
      by (auto split: if_splits)
    obtain a b s' where s: "s = a # b # s'" using hex(1) by (metis One_nat_def Suc_1 Suc_le_length_iff)
    from 2(1) [OF True] hex t' obtain ts where "map (percent_decode False) (split_on (CHR ''/'') (drop 2 s)) = map Some ts"
      "join_with (CHR ''/'') ts = t'" by blast
    moreover have "CHR ''/'' \<notin> set [c, a, b]" using True hex s by auto
    moreover have "percent_decode False ([c, a, b] @ x) =
        map_option ((#) (char_of (16 * hex_val (s ! 0) + hex_val (s ! 1)))) (percent_decode False x)" for x
      using True hex s by simp
    ultimately show ?thesis using first [of "[c, a, b]" _ "drop 2 s"] t'(2) s by simp
  next
    case False
    with 2(3) obtain t' where t': "percent_decode False s = Some t'" "t = c # t'" by auto
    from 2(2) [OF False t'(1)] obtain ts where ts: "map (percent_decode False) (split_on (CHR ''/'') s) = map Some ts"
      "join_with (CHR ''/'') ts = t'" by blast
    show ?thesis
    proof (cases "c = CHR ''/''")
      case True
      have "ts \<noteq> []" using ts(1) split_on_ne [of "CHR ''/''" s] by (cases ts) auto
      with True ts t' show ?thesis by (intro exI [of _ "[] # ts"]) (simp add: join_with_Cons)
    next
      case False
      with first [of "[c]" c s ts t'] \<open>c \<noteq> CHR ''%''\<close> ts t' show ?thesis by simp
    qed
  qed
qed

text \<open>A rooted path that decodes to a single plain segment is routed as that segment.\<close>

lemma mux_segments_single:
  assumes "percent_decode False (CHR ''/'' # s) = Some (CHR ''/'' # t)" and "CHR ''/'' \<notin> set t"
  shows "mux_segments (CHR ''/'' # s) = ['''', t]"
proof -
  from assms(1) have "percent_decode False s = Some t" by auto
  from percent_decode_segments [OF this] obtain ts where
    ts: "map (percent_decode False) (split_on (CHR ''/'') s) = map Some ts" "join_with (CHR ''/'') ts = t" by blast
  have "ts = [t]"
  proof (cases ts rule: remdups_adj.cases)
    case (3 x y zs)
    with ts(2) assms(2) show ?thesis by auto
  qed (use ts in auto)
  with ts(1) show ?thesis by (auto simp: mux_segments_def path_unescape_def)
qed

end
