(* ===== verification/Dashboard.thy ===== *)
theory Dashboard
  imports Gateway Net_Url Go_Float Redis_Service
begin

text \<open>
  The dashboard routes of the gateway (\<^verbatim>\<open>src/cmd/gateway/main.go\<close>): statistics, events, circuit
  breakers, API keys, policies, and the two redirects.

  The database queries are the record \<open>dash_db\<close>, on the state \<open>'d\<close> of the gateway; everything
  else a request meets is a \<open>dash_env\<close>: the Redis hash of the breakers (its entries in the order
  in which Go's iteration takes them), the answer of the worker's API, the readings of the clock
  and the local time of day. A Go map is encoded with sorted keys, a nil slice or map as null;
  \<open>generic\<close> is what decoding into \<^verbatim>\<open>interface{}\<close> and encoding again makes of a value.
\<close>

section \<open>Definitions\<close>

subsection \<open>Untyped values\<close>

fun bytes_less :: "string \<Rightarrow> string \<Rightarrow> bool" where
  "bytes_less s [] = False"
| "bytes_less [] (d # t) = True"
| "bytes_less (c # s) (d # t) = (byte c < byte d \<or> c = d \<and> bytes_less s t)"

fun put_key :: "string \<Rightarrow> 'a \<Rightarrow> (string \<times> 'a) list \<Rightarrow> (string \<times> 'a) list" where
  "put_key k v [] = [(k, v)]"
| "put_key k v ((k', v') # ms) =
     (if k = k' then (k, v) # ms
      else if bytes_less k k' then (k, v) # (k', v') # ms
      else (k', v') # put_key k v ms)"

definition go_map :: "(string \<times> 'a) list \<Rightarrow> (string \<times> 'a) list" where
  "go_map ms = foldl (\<lambda>out (k, v). put_key k v out) [] ms"

text \<open>None is a number that does not fit a \<^verbatim>\<open>float64\<close>.\<close>

fun generic :: "json \<Rightarrow> json option" where
  "generic JNull = Some JNull"
| "generic (JBool b) = Some (JBool b)"
| "generic (JNum tok) = map_option (\<lambda>(neg, x). json_float neg x) (parse_float tok)"
| "generic (JStr raw) = Some (json_string (unquote raw))"
| "generic (JArr vs) = map_option JArr (all_some (map generic vs))"
| "generic (JObj ms) =
     map_option (\<lambda>vs. JObj (map (\<lambda>(k, v). (quote k, v)) (go_map (zip (map (\<lambda>(k, v). unquote k) ms) vs))))
       (all_some (map (\<lambda>(k, v). generic v) ms))"

text \<open>A member of a decoded map; of repeated members the last counts.\<close>

definition map_member :: "json \<Rightarrow> string \<Rightarrow> json option" where
  "map_member v key =
     (case v of JObj ms \<Rightarrow> map_of (rev (map (\<lambda>(k, x). (unquote k, x)) ms)) key | _ \<Rightarrow> None)"

definition says_open :: "json \<Rightarrow> bool" where
  "says_open v =
     (case map_member v ''state'' of Some (JStr raw) \<Rightarrow> unquote raw = ''Open'' | _ \<Rightarrow> False)"

fun is_map :: "json \<Rightarrow> bool" where
  "is_map JNull = True"
| "is_map (JObj ms) = True"
| "is_map v = False"

text \<open>\<^verbatim>\<open>json.Unmarshal\<close> into a map; null gives a nil map.\<close>

definition decode_map :: "string \<Rightarrow> json option" where
  "decode_map s =
     (case decode_all s of
        None \<Rightarrow> None
      | Some v \<Rightarrow> if is_map v \<and> generic v \<noteq> None then Some v else None)"

text \<open>\<^verbatim>\<open>Decode\<close> into a slice of values or of maps; null gives a nil slice.\<close>

definition decode_slice :: "string \<Rightarrow> json list option" where
  "decode_slice s =
     (case decode_first s of
        Some JNull \<Rightarrow> Some []
      | Some (JArr vs) \<Rightarrow> if generic (JArr vs) \<noteq> None then Some vs else None
      | _ \<Rightarrow> None)"

subsection \<open>Environment and database\<close>

record dash_env =
  d_hash :: "string \<Rightarrow> string + (string \<times> string) list"
  d_worker :: "string \<Rightarrow> string + string"
  d_now :: gotime
  d_unix :: "int \<Rightarrow> int \<times> int"
  d_clock :: "gotime \<Rightarrow> string"

record key_row =
  k_hash :: string
  k_name :: string
  k_tier :: string
  k_active :: bool
  k_created :: string

datatype count_query = CountSuccess | CountFailed | CountKeys

record 'd dash_db =
  q_count :: "bool \<Rightarrow> count_query \<Rightarrow> 'd \<Rightarrow> string + nat"
  q_seed :: "bool \<Rightarrow> (string \<times> string \<times> string \<times> bool) list \<Rightarrow> 'd \<Rightarrow> string option \<times> 'd"
  q_keys :: "bool \<Rightarrow> 'd \<Rightarrow> string + (string + key_row) list"

text \<open>\<^verbatim>\<open>_ = pool.QueryRow(...).Scan(&count)\<close>: on an error the variable keeps its zero.\<close>

definition scan_count :: "'d dash_db \<Rightarrow> bool \<Rightarrow> count_query \<Rightarrow> 'd \<Rightarrow> nat" where
  "scan_count db ctx q d = (case q_count db ctx q d of Inl err \<Rightarrow> 0 | Inr n \<Rightarrow> n)"

subsection \<open>Statistics\<close>

definition success_rate :: "nat \<Rightarrow> nat \<Rightarrow> float64" where
  "success_rate successCount failedCount =
     (let totalWebhookDeliveries = i64 (int successCount + int failedCount) in
      if totalWebhookDeliveries > 0 then percentage successCount (nat totalWebhookDeliveries) else (100, 0))"

definition activeCBs :: "dash_env \<Rightarrow> string \<Rightarrow> int" where
  "activeCBs env workerURL =
     (let from_worker =
            (case d_worker env (workerURL @ ''/v1/circuit-breakers'') of
               Inl err \<Rightarrow> 0
             | Inr body \<Rightarrow>
                 (case decode_slice body of
                    Some vs \<Rightarrow> if list_all is_map vs then int (length (filter says_open vs)) else 0
                  | None \<Rightarrow> 0))
      in case d_hash env breakers_key of
           Inl err \<Rightarrow> from_worker
         | Inr [] \<Rightarrow> from_worker
         | Inr result \<Rightarrow>
             int (length (filter (\<lambda>(f, val). case decode_map val of Some v \<Rightarrow> says_open v | None \<Rightarrow> False) result)))"

definition Minute :: duration where
  "Minute = 60 * Second"

text \<open>Go's \<^verbatim>\<open>%\<close>, which truncates.\<close>

definition go_rem :: "int \<Rightarrow> int \<Rightarrow> int" where
  "go_rem x n = (if x < 0 then - ((- x) mod n) else x mod n)"

definition time_point :: "dash_env \<Rightarrow> int \<Rightarrow> int \<Rightarrow> int \<Rightarrow> json" where
  "time_point env requests hits i =
     (let traffic = (if i = 0 then requests else 100 + i * 20 + go_rem (fst (d_unix env i)) 15);
          limited = (if i = 0 then hits else 5 + i * 2 + go_rem (snd (d_unix env i)) 5)
      in JObj [(''rate_limited'', json_int limited), (''timestamp'', json_string (d_clock env (d_now env - i * 10 * Minute))),
               (''traffic'', json_int traffic)])"

definition stats_json :: "dash_env \<Rightarrow> string \<Rightarrow> nat \<Rightarrow> nat \<Rightarrow> int \<Rightarrow> int \<Rightarrow> json" where
  "stats_json env workerURL successCount failedCount requests hits =
     JObj [(''active_circuit_breakers'', json_int (activeCBs env workerURL)),
           (''rate_limit_hits_429'', json_int hits),
           (''time_series'', JArr (map (time_point env requests hits) [5, 4, 3, 2, 1, 0])),
           (''total_requests_24h'', json_int requests),
           (''webhook_success_rate'', json_float False (success_rate successCount failedCount))]"

definition statsHandler :: "'d dash_db \<Rightarrow> dash_env \<Rightarrow> string \<Rightarrow> ('l, 'd, 'q) gateway handler" where
  "statsHandler db env workerURL r ws =
     (let (w, s) = ws in
      if Method r \<noteq> ''GET'' then (http_Error ''Method Not Allowed'' 405 w, s)
      else
        (write_json (stats_json env workerURL (scan_count db (CtxCancelled r) CountSuccess (gw_db s))
             (scan_count db (CtxCancelled r) CountFailed (gw_db s)) (totalRequestsCount s) (rateLimitHitsCount s))
           (set_header ''Content-Type'' ''application/json'' w), s))"

subsection \<open>Events\<close>

text \<open>\<^verbatim>\<open>Encode(eventList)\<close>: nothing is written when a payload is not JSON.\<close>

definition write_events :: "WebhookEvent list \<Rightarrow> ResponseWriter \<Rightarrow> ResponseWriter" where
  "write_events evs w =
     (let w1 = set_header ''Content-Type'' ''application/json'' w in
      case all_some (map event_json evs) of
        None \<Rightarrow> w1
      | Some vs \<Rightarrow> write_json (if vs = [] then JNull else JArr vs) w1)"

definition answer_events :: "('d, 'q) gw_deps \<Rightarrow> int \<Rightarrow> ('l, 'd, 'q) gateway handler" where
  "answer_events deps limit r ws =
     (let (w, s) = ws; status = Query_Get (RawQuery r) ''status'' in
      case es_GetEvents (dep_store deps) (CtxCancelled r) limit status (gw_db s) of
        Inl err \<Rightarrow> (http_Error ''Internal Server Error'' 500 w, s)
      | Inr evs \<Rightarrow> (write_events evs w, s))"

definition adminEventsHandler :: "('d, 'q) gw_deps \<Rightarrow> ('l, 'd, 'q) gateway handler" where
  "adminEventsHandler deps r ws =
     (let (w, s) = ws in
      if Method r \<noteq> ''GET'' then (http_Error ''Method Not Allowed'' 405 w, s) else answer_events deps 50 r (w, s))"

definition event_limit :: "Request \<Rightarrow> int" where
  "event_limit r =
     (let limitStr = Query_Get (RawQuery r) ''limit'' in
      if limitStr = '''' then 50 else case Atoi limitStr of None \<Rightarrow> 50 | Some l \<Rightarrow> l)"

definition eventsHandler :: "('d, 'q) gw_deps \<Rightarrow> ('l, 'd, 'q) gateway handler" where
  "eventsHandler deps r ws =
     (let (w, s) = ws in
      if Method r \<noteq> ''GET'' then (http_Error ''Method Not Allowed'' 405 w, s)
      else answer_events deps (event_limit r) r (w, s))"

subsection \<open>Circuit breakers\<close>

definition breaker_entry :: "string \<Rightarrow> json list" where
  "breaker_entry val =
     (case decode_map val of
        None \<Rightarrow> []
      | Some v \<Rightarrow> (case generic v of None \<Rightarrow> [] | Some g \<Rightarrow> [g]))"

definition adminBreakersHandler :: "dash_env \<Rightarrow> string \<Rightarrow> ('l, 'd, 'q) gateway handler" where
  "adminBreakersHandler env workerURL r ws =
     (let (w, s) = ws in
      if Method r \<noteq> ''GET'' then (http_Error ''Method Not Allowed'' 405 w, s)
      else
        let w1 = set_header ''Content-Type'' ''application/json'' w;
            entries = (case d_hash env breakers_key of Inl err \<Rightarrow> [] | Inr result \<Rightarrow> result)
        in if entries = [] then
             (case d_worker env (workerURL @ ''/v1/circuit-breakers'') of
                Inl err \<Rightarrow> (Write ''[]'' w1, s)
              | Inr body \<Rightarrow>
                  (case decode_first body of
                     Some JNull \<Rightarrow> (write_json JNull w1, s)
                   | Some (JArr vs) \<Rightarrow>
                       (case generic (JArr vs) of Some v \<Rightarrow> (write_json v w1, s) | None \<Rightarrow> (Write ''[]'' w1, s))
                   | _ \<Rightarrow> (Write ''[]'' w1, s)))
           else
             let breakers = concat (map (\<lambda>(f, val). breaker_entry val) entries)
             in (write_json (if breakers = [] then JNull else JArr breakers) w1, s))"

subsection \<open>API keys\<close>

definition seed_keys :: "(string \<times> string \<times> string \<times> bool) list" where
  "seed_keys =
     [(''pro-key'', ''Internal Payments Service'', ''Pro'', True),
      (''ent-key'', ''Internal Enterprise Sync'', ''Enterprise'', True),
      (''free-key'', ''Public Metrics Dashboard'', ''Free'', True)]"

definition mask_key :: "string \<Rightarrow> string" where
  "mask_key hash =
     (if length hash > 4 then ''sk_live_****'' @ drop (length hash - 4) hash else ''sk_live_****'' @ hash)"

definition key_json :: "key_row \<Rightarrow> json" where
  "key_json row =
     JObj [(''key_name'', json_string (k_name row)), (''masked_key'', json_string (mask_key (k_hash row))),
           (''tier'', json_string (k_tier row)), (''created_at'', json_string (k_created row)),
           (''is_active'', JBool (k_active row))]"

text \<open>A row that cannot be scanned is skipped.\<close>

fun scan_keys :: "(string + key_row) list \<Rightarrow> key_row list" where
  "scan_keys [] = []"
| "scan_keys (Inl err # rows) = scan_keys rows"
| "scan_keys (Inr row # rows) = row # scan_keys rows"

definition adminKeysHandler :: "'d dash_db \<Rightarrow> ('l, 'd, 'q) gateway handler" where
  "adminKeysHandler db r ws =
     (let (w, s) = ws in
      if Method r \<noteq> ''GET'' then (http_Error ''Method Not Allowed'' 405 w, s)
      else
        let count = scan_count db (CtxCancelled r) CountKeys (gw_db s);
            d1 = (if count = 0 then snd (q_seed db (CtxCancelled r) seed_keys (gw_db s)) else gw_db s)
        in case q_keys db (CtxCancelled r) d1 of
             Inl err \<Rightarrow> (http_Error ''Internal Server Error'' 500 w, s\<lparr>gw_db := d1\<rparr>)
           | Inr rows \<Rightarrow>
               let keys = scan_keys rows in
               (write_json (if keys = [] then JNull else JArr (map key_json keys))
                  (set_header ''Content-Type'' ''application/json'' w), s\<lparr>gw_db := d1\<rparr>))"

subsection \<open>Redirects and policies\<close>

definition keysHandler :: "('l, 'd, 'q) gateway handler" where
  "keysHandler r ws = (let (w, s) = ws in (http_Redirect r ''/v1/admin/keys'' w, s))"

definition breakersHandler :: "('l, 'd, 'q) gateway handler" where
  "breakersHandler r ws = (let (w, s) = ws in (http_Redirect r ''/v1/admin/circuit-breakers'' w, s))"

text \<open>
  \<^verbatim>\<open>Encode(cfg)\<close>: the structs have no JSON tags, so the fields keep their Go names, and the window
  is a number of nanoseconds. \<open>names\<close> are the keys of the tier map in sorted order. An absent
  list or map of the configuration is nil.
\<close>

definition limit_json :: "Limit \<Rightarrow> json" where
  "limit_json l =
     JObj [(''Algorithm'', json_string (Algorithm l)), (''Requests'', json_int (Requests l)), (''Window'', json_int (Window l))]"

definition rule_json :: "RouteRule \<Rightarrow> json" where
  "rule_json r = JObj [(''Route'', json_string (Route r)), (''Limit'', limit_json (RuleLimit r))]"

definition tier_json :: "TierRules \<Rightarrow> json" where
  "tier_json t = JObj [(''Limits'', if Limits t = [] then JNull else JArr (map rule_json (Limits t)))]"

definition config_json :: "string list \<Rightarrow> Config \<Rightarrow> json" where
  "config_json names cfg =
     JObj [(''Tiers'',
       if names = [] then JNull
       else JObj (concat (map (\<lambda>n. case Tiers cfg n of None \<Rightarrow> [] | Some t \<Rightarrow> [(quote n, tier_json t)]) names)))]"

definition policiesHandler :: "string list \<Rightarrow> Config \<Rightarrow> ('l, 'd, 'q) gateway handler" where
  "policiesHandler names cfg r ws =
     (let (w, s) = ws in
      if Method r \<noteq> ''GET'' then (http_Error ''Method Not Allowed'' 405 w, s)
      else (write_json (config_json names cfg) (set_header ''Content-Type'' ''application/json'' w), s))"

section \<open>Lemmas\<close>

text \<open>What \<^verbatim>\<open>Encode\<close> writes, a value and a newline, reads back.\<close>

lemma decode_body:
  assumes "wf_json v" and "depth v \<le> 10000"
  shows "decode_all (print_json v @ [CHR 0x0A]) = Some v"
proof -
  have stop: "num_stop [CHR 0x0A]" by (simp add: num_stop_def) code_simp
  have "parse_val (2 * length (print_json v @ [CHR 0x0A]) + 2) (print_json v @ [CHR 0x0A]) = Some (v, [CHR 0x0A])"
    using print_reads_back [OF assms(1)] stop unfolding reads_back_def by simp
  with assms(2) show ?thesis by (simp add: decode_all_def parse_doc_def skip_ws_def is_space_def)
qed

lemma wbody_write_json [simp]: "wbody (write_json v w) = wbody w @ print_json v @ [CHR 0x0A]"
  by (simp add: write_json_def)

lemma sent_write_json [simp]: "sent w = None \<Longrightarrow> sent (write_json v w) = Some (200, wheader w)"
  by (simp add: write_json_def)

lemma status_fresh: "sent w = None \<Longrightarrow> status_of w = 200"
  by (simp add: status_of_def)

lemma status_write_json [simp]: "status_of (write_json v w) = status_of w"
  by (simp add: write_json_def)

lemma raw_stats_names [simp]:
  "raw_ok ''rate_limited''" "raw_ok ''timestamp''" "raw_ok ''traffic''" "raw_ok ''active_circuit_breakers''"
  "raw_ok ''rate_limit_hits_429''" "raw_ok ''time_series''" "raw_ok ''total_requests_24h''" "raw_ok ''webhook_success_rate''"
  by code_simp+

lemma stats_json_ok: "wf_json (stats_json env url a b n h)" "depth (stats_json env url a b n h) = 3"
  by (simp_all add: stats_json_def time_point_def Let_def)

lemma success_rate_sum:
  "a + b < 2 ^ 53 \<Longrightarrow> success_rate a b = (if a + b = 0 then (100, 0) else percentage a (a + b))"
proof -
  assume "a + b < 2 ^ 53"
  then have "int (a + b) < 2 ^ 53" by (metis of_nat_less_iff of_nat_numeral of_nat_power)
  then have "i64 (int a + int b) = int a + int b" by (intro i64_id) (simp add: in_i64_def)
  then show ?thesis by (simp add: success_rate_def Let_def nat_add_distrib)
qed

lemma success_rate_bounds:
  assumes "a + b < 2 ^ 53" and "success_rate a b = (m, k)"
  shows "m \<le> 100 * 2 ^ k" and "m = 100 * 2 ^ k \<longleftrightarrow> b = 0"
proof -
  consider "a + b = 0" | "0 < a" "b = 0" | "0 < b" by linarith
  then have "m \<le> 100 * 2 ^ k \<and> (m = 100 * 2 ^ k \<longleftrightarrow> b = 0)"
  proof cases
    case 1
    with assms show ?thesis by (simp add: success_rate_sum)
  next
    case 2
    with assms percentage_full [of a] show ?thesis by (auto simp: success_rate_sum)
  next
    case 3
    with assms have "percentage a (a + b) = (m, k)" by (auto simp: success_rate_sum)
    from percentage_less [OF _ assms(1) this] 3 show ?thesis by auto
  qed
  then show "m \<le> 100 * 2 ^ k" and "m = 100 * 2 ^ k \<longleftrightarrow> b = 0" by auto
qed

lemma unquote_stats_names:
  "unquote ''total_requests_24h'' = ''total_requests_24h''" "unquote ''rate_limit_hits_429'' = ''rate_limit_hits_429''"
  "unquote ''webhook_success_rate'' = ''webhook_success_rate''" "unquote ''time_series'' = ''time_series''"
  "unquote ''active_circuit_breakers'' = ''active_circuit_breakers''"
  by code_simp+

text \<open>A listed event shows its ID, its status and the API key of the client that sent it.\<close>

definition shows_event :: "json \<Rightarrow> WebhookEvent \<Rightarrow> bool" where
  "shows_event v ev \<longleftrightarrow>
     map_member v ''id'' = Some (json_string (ID ev)) \<and> map_member v ''api_key'' = Some (json_string (APIKey ev)) \<and>
     map_member v ''status'' = Some (json_string (Status ev))"

definition payload_fits :: "WebhookEvent \<Rightarrow> bool" where
  "payload_fits ev \<longleftrightarrow> (case decode_all (Payload ev) of None \<Rightarrow> False | Some v \<Rightarrow> depth v \<le> 9998)"

lemma unquote_event_names [simp]:
  "unquote ''id'' = ''id''" "unquote ''api_key'' = ''api_key''" "unquote ''target_url'' = ''target_url''"
  "unquote ''payload'' = ''payload''" "unquote ''status'' = ''status''" "unquote ''idempotency_key'' = ''idempotency_key''"
  "unquote ''retry_count'' = ''retry_count''" "unquote ''error_message'' = ''error_message''" "unquote ''created_at'' = ''created_at''"
  by code_simp+

lemma event_json_shown:
  assumes "payload_fits ev"
  shows "\<exists>v. event_json ev = Some v \<and> wf_json v \<and> depth v \<le> 9999 \<and> shows_event v ev"
proof -
  from assms obtain q where q: "decode_all (Payload ev) = Some q" "depth q \<le> 9998"
    by (auto simp: payload_fits_def split: option.splits)
  then obtain p where p: "payload_json (Payload ev) = Some p" by (cases "Payload ev = ''''") (auto simp: payload_json_def)
  have wf: "wf_json p" by (rule payload_json_wf [OF p]) (use q in auto)
  have "depth p \<le> 9998" using p q decode_all_wf [OF q(1)] html_escape_sound [of q] by (auto simp: payload_json_def split: if_splits)
  moreover have "shows_event (JObj (event_fields ev p)) ev"
    by (auto simp: shows_event_def map_member_def event_fields_def split: option.splits)
  ultimately show ?thesis
    using p event_fields_wf [OF wf] by (auto simp: event_json_def event_fields_depth simp del: depth.simps wf_json.simps)
qed

lemma events_json_shown:
  "list_all payload_fits evs \<Longrightarrow> \<exists>vs. all_some (map event_json evs) = Some vs \<and>
     list_all wf_json vs \<and> foldr (\<lambda>v d. max (depth v) d) vs 0 \<le> 9999 \<and> list_all2 shows_event vs evs"
proof (induction evs)
  case (Cons ev evs)
  then obtain v vs where "event_json ev = Some v" "wf_json v" "depth v \<le> 9999" "shows_event v ev"
    "all_some (map event_json evs) = Some vs" "list_all wf_json vs" "foldr (\<lambda>v d. max (depth v) d) vs 0 \<le> 9999"
    "list_all2 shows_event vs evs"
    using event_json_shown [of ev] by auto
  then show ?case by simp
qed simp

text \<open>What the keys route leaves visible of a row.\<close>

definition same_shown :: "key_row \<Rightarrow> key_row \<Rightarrow> bool" where
  "same_shown a b \<longleftrightarrow>
     k_name a = k_name b \<and> k_tier a = k_tier b \<and> k_active a = k_active b \<and> k_created a = k_created b \<and>
     (k_hash a = k_hash b \<or> length (k_hash a) > 4 \<and> length (k_hash b) > 4 \<and>
        drop (length (k_hash a) - 4) (k_hash a) = drop (length (k_hash b) - 4) (k_hash b))"

lemma shown_key: "same_shown a b \<Longrightarrow> key_json a = key_json b"
  by (auto simp: same_shown_def key_json_def mask_key_def)

lemma shown_rows:
  "list_all2 (rel_sum (\<lambda>_ _. True) same_shown) rows rows' \<Longrightarrow> map key_json (scan_keys rows) = map key_json (scan_keys rows')"
  by (induction rows rows' rule: list_all2_induct) (auto elim!: rel_sum.cases simp: shown_key)

text \<open>A request and a gateway, and a database with one key.\<close>

definition sample_get :: Request where
  "sample_get = \<lparr>Method = ''GET'', Path = ''/v1/stats'', EscapedPath = ''/v1/stats'', RawQuery = '''', ReqHeader = Map.empty, Body = '''',
     CtxValue = Map.empty, CtxCancelled = False\<rparr>"

definition dash_gateway :: "(unit, unit, unit) gateway" where
  "dash_gateway = \<lparr>gw_limiter = (), gw_db = (), gw_mq = (), gw_metrics = new_metrics,
     totalRequestsCount = 7, rateLimitHitsCount = 2, currentLoad = 0\<rparr>"

definition sample_keys :: "string \<Rightarrow> unit dash_db" where
  "sample_keys key = \<lparr>q_count = \<lambda>c q d. Inr 1, q_seed = \<lambda>c ks d. (None, d),
     q_keys = \<lambda>c d. Inr [Inr \<lparr>k_hash = key, k_name = ''client'', k_tier = ''Pro'', k_active = True, k_created = ''now''\<rparr>]\<rparr>"

lemma sample_keys_rows:
  "q_keys (sample_keys key) c d = Inr [Inr \<lparr>k_hash = key, k_name = ''client'', k_tier = ''Pro'', k_active = True, k_created = ''now''\<rparr>]"
  by (simp add: sample_keys_def)

text \<open>A table with one event.\<close>

definition listed_event :: WebhookEvent where
  "listed_event = (sample_event uuid_a ''k'')\<lparr>Status := ''failed'', CreatedAt := ''0''\<rparr>"

definition listed_db :: ref_db where
  "listed_db = ([(uuid_a, \<lparr>r_idem = Some ''k'', r_api_key = ''acme'', r_url = ''http://x'', r_payload = ''{}'',
     r_status = ''failed'', r_retry = 0, r_error = None, r_created = 0\<rparr>)], 1)"

lemma listed_query: "GetEvents ref_pool False 50 '''' listed_db = Inr [listed_event]"
  by code_simp

lemma sample_queries: "event_limit sample_get = 50" "Query_Get (RawQuery sample_get) ''status'' = ''''" "\<not> CtxCancelled sample_get"
  by code_simp+

section \<open>Properties\<close>

text \<open>
  C20: The statistics route answers with valid JSON that reports the two counters of the gateway
  and a success rate that never exceeds 100 and is 100 exactly when no delivery has failed,
  rounding of the two float operations included (fewer than 2^53 deliveries). It changes nothing.
\<close>

theorem stats_report:
  assumes "Method r = ''GET''" and "sent w = None" and "wbody w = ''''"
    and "q_count db (CtxCancelled r) CountSuccess (gw_db s) = Inr a"
    and "q_count db (CtxCancelled r) CountFailed (gw_db s) = Inr b" and "a + b < 2 ^ 53"
  shows "\<exists>w' m k v. statsHandler db env workerURL r (w, s) = (w', s) \<and> status_of w' = 200 \<and>
    decode_all (wbody w') = Some v \<and>
    map_member v ''total_requests_24h'' = Some (json_int (totalRequestsCount s)) \<and>
    map_member v ''rate_limit_hits_429'' = Some (json_int (rateLimitHitsCount s)) \<and>
    map_member v ''webhook_success_rate'' = Some (json_float False (m, k)) \<and>
    m \<le> 100 * 2 ^ k \<and> (m = 100 * 2 ^ k \<longleftrightarrow> b = 0)"
proof -
  let ?v = "stats_json env workerURL a b (totalRequestsCount s) (rateLimitHitsCount s)"
  obtain m k where mk: "success_rate a b = (m, k)" by (metis surj_pair)
  have run: "statsHandler db env workerURL r (w, s) = (write_json ?v (set_header ''Content-Type'' ''application/json'' w), s)"
    using assms by (simp add: statsHandler_def scan_count_def)
  have status: "status_of (write_json ?v (set_header ''Content-Type'' ''application/json'' w)) = 200"
    using assms(2) by (simp add: status_fresh)
  note run
  moreover have "decode_all (print_json ?v @ [CHR 0x0A]) = Some ?v"
    by (rule decode_body) (simp_all add: stats_json_ok)
  moreover have "map_member ?v ''total_requests_24h'' = Some (json_int (totalRequestsCount s))"
    "map_member ?v ''rate_limit_hits_429'' = Some (json_int (rateLimitHitsCount s))"
    "map_member ?v ''webhook_success_rate'' = Some (json_float False (m, k))"
    by (simp_all add: map_member_def stats_json_def unquote_stats_names mk)
  moreover note success_rate_bounds [OF assms(6) mk]
  ultimately show ?thesis using status assms(3) by auto
qed

theorem stats_report_witness:
  "\<exists>w' m k v. statsHandler \<lparr>q_count = \<lambda>c q d. Inr (if q = CountSuccess then 2 else 1), q_seed = \<lambda>c ks d. (None, d), q_keys = \<lambda>c d. Inr []\<rparr>
      \<lparr>d_hash = \<lambda>k. Inl ''down'', d_worker = \<lambda>u. Inl ''down'', d_now = 0, d_unix = \<lambda>i. (0, 0), d_clock = \<lambda>t. ''00:00''\<rparr> ''''
      sample_get (new_writer, dash_gateway) = (w', dash_gateway) \<and>
    status_of w' = 200 \<and> decode_all (wbody w') = Some v \<and>
    map_member v ''webhook_success_rate'' = Some (json_float False (m, k)) \<and> m < 100 * 2 ^ k"
proof -
  let ?db = "\<lparr>q_count = \<lambda>c q d. Inr (if q = CountSuccess then 2 else 1), q_seed = \<lambda>c ks d. (None, d), q_keys = \<lambda>c d. Inr []\<rparr> :: unit dash_db"
  let ?env = "\<lparr>d_hash = \<lambda>k. Inl ''down'', d_worker = \<lambda>u. Inl ''down'', d_now = 0, d_unix = \<lambda>i. (0, 0), d_clock = \<lambda>t. ''00:00''\<rparr>"
  have "\<exists>w' m k v. statsHandler ?db ?env '''' sample_get (new_writer, dash_gateway) = (w', dash_gateway) \<and>
    status_of w' = 200 \<and> decode_all (wbody w') = Some v \<and>
    map_member v ''total_requests_24h'' = Some (json_int (totalRequestsCount dash_gateway)) \<and>
    map_member v ''rate_limit_hits_429'' = Some (json_int (rateLimitHitsCount dash_gateway)) \<and>
    map_member v ''webhook_success_rate'' = Some (json_float False (m, k)) \<and>
    m \<le> 100 * 2 ^ k \<and> (m = 100 * 2 ^ k \<longleftrightarrow> (1 :: nat) = 0)"
    by (rule stats_report [where a = 2]) (simp_all add: sample_get_def)
  then show ?thesis by (auto simp: le_less)
qed

text \<open>
  C25: The keys route shows at most the last four bytes of a stored key: two tables whose rows
  agree in everything but the hidden parts of their keys give the same response.
\<close>

theorem keys_masked:
  assumes "scan_count db (CtxCancelled r) CountKeys (gw_db s) \<noteq> 0" and "scan_count db' (CtxCancelled r) CountKeys (gw_db s') \<noteq> 0"
    and "q_keys db (CtxCancelled r) (gw_db s) = Inr rows" and "q_keys db' (CtxCancelled r) (gw_db s') = Inr rows'"
    and "list_all2 (rel_sum (\<lambda>_ _. True) same_shown) rows rows'"
  shows "fst (adminKeysHandler db r (w, s)) = fst (adminKeysHandler db' r (w, s'))"
proof -
  have "map key_json (scan_keys rows) = map key_json (scan_keys rows')"
    using assms(5) by (rule shown_rows)
  then have "map key_json (scan_keys rows) = map key_json (scan_keys rows')" "scan_keys rows = [] \<longleftrightarrow> scan_keys rows' = []"
    by (auto dest: map_eq_imp_length_eq)
  with assms(1-4) show ?thesis by (auto simp: adminKeysHandler_def Let_def)
qed

theorem keys_masked_witness:
  "fst (adminKeysHandler (sample_keys ''top-secret-0001'') sample_get (new_writer, dash_gateway)) =
   fst (adminKeysHandler (sample_keys ''other-0001'') sample_get (new_writer, dash_gateway))"
  by (rule keys_masked [OF _ _ sample_keys_rows sample_keys_rows]) (simp_all add: sample_keys_def scan_count_def same_shown_def)

text \<open>
  C31: The events route lists what \<^verbatim>\<open>GetEvents\<close> returns for the limit and the status of the query
  string, as valid JSON, to every caller alike: nothing in the answer depends on the caller's API
  key or tier, and every entry shows the API key of the client the event belongs to.
\<close>

theorem events_shown_to_all:
  assumes "Method r = ''GET''" and "sent w = None" and "wbody w = ''''"
    and "es_GetEvents (dep_store deps) (CtxCancelled r) (event_limit r) (Query_Get (RawQuery r) ''status'') (gw_db s) = Inr evs"
    and "list_all payload_fits evs"
  shows "\<exists>w' vs. (\<forall>c h. eventsHandler deps (r\<lparr>CtxValue := c, ReqHeader := h\<rparr>) (w, s) = (w', s)) \<and> status_of w' = 200 \<and>
    decode_all (wbody w') = Some (if evs = [] then JNull else JArr vs) \<and> list_all2 shows_event vs evs"
proof -
  obtain vs where vs: "all_some (map event_json evs) = Some vs" "list_all wf_json vs"
    "foldr (\<lambda>v d. max (depth v) d) vs 0 \<le> 9999" "list_all2 shows_event vs evs"
    using events_json_shown [OF assms(5)] by blast
  let ?w = "write_json (if vs = [] then JNull else JArr vs) (set_header ''Content-Type'' ''application/json'' w)"
  have "eventsHandler deps (r\<lparr>CtxValue := c, ReqHeader := h\<rparr>) (w, s) = (?w, s)" for c h
    using assms(1,4) vs(1) by (simp add: eventsHandler_def answer_events_def event_limit_def write_events_def Let_def)
  moreover have "decode_all (print_json (if vs = [] then JNull else JArr vs) @ [CHR 0x0A]) = Some (if vs = [] then JNull else JArr vs)"
    by (rule decode_body) (use vs in auto)
  moreover have "vs = [] \<longleftrightarrow> evs = []" using list_all2_lengthD [OF vs(4)] by auto
  ultimately show ?thesis using vs(4) assms(2,3) by (intro exI [of _ ?w] exI [of _ vs]) (simp add: status_fresh)
qed

theorem events_shown_to_all_witness:
  "\<exists>w' v. eventsHandler sample_deps sample_get (new_writer, (sample_gateway 0 ())\<lparr>gw_db := listed_db\<rparr>) =
      (w', (sample_gateway 0 ())\<lparr>gw_db := listed_db\<rparr>) \<and>
    status_of w' = 200 \<and> decode_all (wbody w') = Some (JArr [v]) \<and> map_member v ''api_key'' = Some (json_string ''acme'')"
proof -
  let ?s = "(sample_gateway 0 ())\<lparr>gw_db := listed_db\<rparr>"
  have "es_GetEvents (dep_store sample_deps) (CtxCancelled sample_get) (event_limit sample_get)
      (Query_Get (RawQuery sample_get) ''status'') (gw_db ?s) = Inr [listed_event]"
    using listed_query by (simp add: sample_deps_def NewPostgresEventStore_def sample_queries)
  moreover have "list_all payload_fits [listed_event]"
    by (simp add: listed_event_def payload_fits_def empty_object)
  ultimately obtain w' vs where w: "\<forall>c h. eventsHandler sample_deps (sample_get\<lparr>CtxValue := c, ReqHeader := h\<rparr>) (new_writer, ?s) = (w', ?s)"
    "status_of w' = 200" "decode_all (wbody w') = Some (JArr vs)" "list_all2 shows_event vs [listed_event]"
    using events_shown_to_all [of sample_get new_writer sample_deps ?s "[listed_event]"] by (auto simp: sample_get_def)
  then obtain v where "vs = [v]" "shows_event v listed_event" by (auto simp: list_all2_Cons2)
  moreover have "sample_get\<lparr>CtxValue := Map.empty, ReqHeader := Map.empty\<rparr> = sample_get" by (simp add: sample_get_def)
  ultimately show ?thesis using w by (intro exI [of _ w'] exI [of _ v]) (auto simp: shows_event_def listed_event_def, metis)
qed

end
