(* ===== verification/Gateway_Main.thy ===== *)
theory Gateway_Main
  imports Dashboard Env_Config
begin

text \<open>
  The gateway program (\<^verbatim>\<open>src/cmd/gateway/main.go\<close>, \<^verbatim>\<open>main\<close>): the routing table, the handler
  that serves every request, start-up and shutdown.

  A \<open>program\<close> is what \<^verbatim>\<open>main\<close> has put together when it starts to listen. The Prometheus
  handler, the reverse proxy and the answers \<^verbatim>\<open>ServeMux\<close> gives on its own are handlers that are
  arguments. What start-up meets outside the program is a \<open>boot\<close>: files, environment, the YAML
  decoder, and the clients of Redis, PostgreSQL and RabbitMQ, each with its errors; an exit
  through \<^verbatim>\<open>log.Fatalf\<close> is \<open>Inl\<close> with its message.
\<close>

section \<open>Definitions\<close>

subsection \<open>The limiter\<close>

text \<open>The interface \<^verbatim>\<open>RateLimiter\<close> with its two implementations; the Redis server is part of the state.\<close>

datatype RateLimiter = TwoTier TwoTierRateLimiter | Stub StubRateLimiter

definition Limiter_Allow ::
  "'r redis_client \<Rightarrow> allow_call \<Rightarrow> RateLimiter \<times> 'r \<Rightarrow> (limiter_error + bool) \<times> RateLimiter \<times> 'r" where
  "Limiter_Allow rdb a s =
     (case s of
        (TwoTier t, r) \<Rightarrow> (case TwoTier_Allow rdb a (t, r) of (out, t', r') \<Rightarrow> (out, TwoTier t', r'))
      | (Stub st, r) \<Rightarrow> (case Stub_Allow a st of (out, st') \<Rightarrow> (out, Stub st', r)))"

definition Limiter_Stats :: "RateLimiter \<times> 'r \<Rightarrow> Stats" where
  "Limiter_Stats s = (case fst s of TwoTier t \<Rightarrow> TwoTier_Stats t | Stub st \<Rightarrow> Stub_Stats st)"

definition choose_limiter :: "string option \<Rightarrow> RateLimiter" where
  "choose_limiter ping =
     (case ping of
        Some err \<Rightarrow> Stub NewStubRateLimiter
      | None \<Rightarrow> TwoTier (NewTwoTierRateLimiter NewShardedCache))"

subsection \<open>Routing\<close>

record ('l, 'd, 'q) program =
  p_config :: Config
  p_tiers :: "string list"
  p_workerURL :: string
  p_allow :: "allow_call \<Rightarrow> 'l \<Rightarrow> (limiter_error + bool) \<times> 'l"
  p_deps :: "('d, 'q) gw_deps"
  p_dash :: "'d dash_db"
  p_metrics :: "('l, 'd, 'q) gateway handler"
  p_proxy :: "('l, 'd, 'q) gateway handler"
  p_own :: "('l, 'd, 'q) gateway handler"

definition gateway_routes ::
  "('l, 'd, 'q) program \<Rightarrow> req_env \<Rightarrow> dash_env \<Rightarrow> (string \<times> ('l, 'd, 'q) gateway handler) list" where
  "gateway_routes p env denv =
     [(''/metrics'', p_metrics p),
      (''/v1/stats'', statsHandler (p_dash p) denv (p_workerURL p)),
      (''/v1/admin/events'', adminEventsHandler (p_deps p)),
      (''/v1/admin/circuit-breakers'', adminBreakersHandler denv (p_workerURL p)),
      (''/v1/admin/keys'', adminKeysHandler (p_dash p)),
      (''/v1/events'', eventsHandler (p_deps p)),
      (''/v1/keys'', keysHandler),
      (''/v1/circuit-breakers'', breakersHandler),
      (''/v1/policies'', policiesHandler (p_tiers p) (p_config p)),
      (''/v1/load-shedding'', loadSheddingHandler),
      (''/api/v1/payments'', paymentsHandler),
      (''/v1/webhooks'', webhooksHandler (p_deps p) env),
      (''/v1/webhooks/replay'', replayHandler (p_deps p))]"

definition gateway_mux ::
  "('l, 'd, 'q) program \<Rightarrow> req_env \<Rightarrow> dash_env \<Rightarrow> ('l, 'd, 'q) gateway handler" where
  "gateway_mux p env denv = ServeMux (p_own p) (gateway_routes p env denv) (p_proxy p)"

definition gateway_handler ::
  "('l, 'd, 'q) program \<Rightarrow> req_env \<Rightarrow> dash_env \<Rightarrow> ('l, 'd, 'q) gateway handler" where
  "gateway_handler p env denv = finalHandler env (p_config p) (p_allow p) (gateway_mux p env denv)"

text \<open>Requests served one after the other, each with a fresh writer.\<close>

fun gateway_run ::
  "('l, 'd, 'q) program \<Rightarrow> (req_env \<times> dash_env \<times> Request) list \<Rightarrow> ('l, 'd, 'q) gateway \<Rightarrow>
     ResponseWriter list \<times> ('l, 'd, 'q) gateway" where
  "gateway_run p [] s = ([], s)"
| "gateway_run p ((env, denv, r) # rs) s =
     (let (w, s') = gateway_handler p env denv r (new_writer, s); (ws, s'') = gateway_run p rs s' in (w # ws, s''))"

subsection \<open>Start-up\<close>

record ('d, 'q, 'r, 'o) boot =
  b_read :: "string \<Rightarrow> string + string"
  b_environ :: environ
  b_yaml :: "string \<Rightarrow> string + Config"
  b_tiers :: "Config \<Rightarrow> string list"
  b_ParseURL :: "string \<Rightarrow> string + 'o"
  b_client :: "'o redis_options \<Rightarrow> 'r redis_client"
  b_ping :: "'o redis_options \<Rightarrow> string option"
  b_pool :: "string \<Rightarrow> string + 'd pg_pool"
  b_failed_row :: "'d pg_pool \<Rightarrow> bool \<Rightarrow> string \<Rightarrow> string \<Rightarrow> 'd \<Rightarrow> string + WebhookEvent"
  b_dash :: "'d pg_pool \<Rightarrow> 'd dash_db"
  b_dial :: "string \<Rightarrow> string + 'q amqp_conn"
  b_metrics :: "(RateLimiter \<times> 'r, 'd, 'q) gateway handler"
  b_proxy :: "string \<Rightarrow> string + (RateLimiter \<times> 'r, 'd, 'q) gateway handler"
  b_own :: "(RateLimiter \<times> 'r, 'd, 'q) gateway handler"

definition gateway_program ::
  "('d, 'q, 'r, 'o) boot \<Rightarrow> AppConfig \<Rightarrow> Config \<Rightarrow> 'o redis_options \<Rightarrow> 'd pg_pool \<Rightarrow> 'q amqp_conn \<Rightarrow> RabbitMQPublisher \<Rightarrow>
     (RateLimiter \<times> 'r, 'd, 'q) gateway handler \<Rightarrow> (RateLimiter \<times> 'r, 'd, 'q) program" where
  "gateway_program b app cfg opts pool conn publisher proxy =
     \<lparr>p_config = cfg, p_tiers = b_tiers b cfg, p_workerURL = WorkerAPIURL app, p_allow = Limiter_Allow (b_client b opts),
      p_deps = program_deps pool (b_failed_row b pool) conn publisher, p_dash = b_dash b pool,
      p_metrics = b_metrics b, p_proxy = proxy, p_own = b_own b\<rparr>"

definition new_gateway :: "'l \<Rightarrow> 'd \<Rightarrow> 'q \<Rightarrow> ('l, 'd, 'q) gateway" where
  "new_gateway l d q = \<lparr>gw_limiter = l, gw_db = d, gw_mq = q, gw_metrics = new_metrics,
     totalRequestsCount = 0, rateLimitHitsCount = 0, currentLoad = 0\<rparr>"

text \<open>\<open>r\<close>, \<open>d\<close> and \<open>q\<close> are the states of Redis, the database and the broker.\<close>

definition gateway_start ::
  "('d, 'q, 'r, 'o) boot \<Rightarrow> 'r \<Rightarrow> 'd \<Rightarrow> 'q \<Rightarrow>
     (string + (RateLimiter \<times> 'r, 'd, 'q) program \<times> (RateLimiter \<times> 'r, 'd, 'q) gateway) \<times> 'd \<times> 'q" where
  "gateway_start b r d q =
     (case fst (Load (b_read b) (b_environ b)) of
        Inl msg \<Rightarrow> (Inl msg, d, q)
      | Inr app \<Rightarrow>
     (case LoadConfig (b_read b) (b_yaml b) (PolicyConfigPath app) of
        Inl err \<Rightarrow> (Inl (''Failed to load policy configuration: '' @ err), d, q)
      | Inr cfg \<Rightarrow>
     (case NewRedisClient (b_ParseURL b) (RedisAddr app) of
        Inl err \<Rightarrow> (Inl (''Failed to initialize Redis client: '' @ err), d, q)
      | Inr opts \<Rightarrow>
     (case b_pool b (DatabaseURL app) of
        Inl err \<Rightarrow> (Inl (''Failed to connect to PostgreSQL: '' @ err), d, q)
      | Inr pool \<Rightarrow>
     (case InitSchema pool False d of
        (Some err, d1) \<Rightarrow> (Inl (''Failed to initialize database schema: '' @ err), d1, q)
      | (None, d1) \<Rightarrow>
     (case b_dial b (RabbitMQURL app) of
        Inl err \<Rightarrow> (Inl (''Failed to connect to RabbitMQ: '' @ err), d1, q)
      | Inr conn \<Rightarrow>
     (case NewRabbitMQPublisher conn ''webhook_queue'' q of
        (Inl err, q1) \<Rightarrow> (Inl (''Failed to initialize RabbitMQ publisher: '' @ err), d1, q1)
      | (Inr publisher, q1) \<Rightarrow>
     (case b_proxy b (ProxyTargetURL app) of
        Inl err \<Rightarrow> (Inl (''Invalid reverse proxy target URL: '' @ err), d1, q1)
      | Inr proxy \<Rightarrow>
          (Inr (gateway_program b app cfg opts pool conn publisher proxy,
                new_gateway (choose_limiter (b_ping b opts), r) d1 q1), d1, q1)))))))))"

text \<open>
  The end of the program: the listener failed, or a signal arrived and \<^verbatim>\<open>Shutdown\<close> returned within
  its ten seconds or with an error. The exit status and the last line of the log.
\<close>

datatype ending = ListenError string | Signal "string option"

fun gateway_end :: "ending \<Rightarrow> int \<times> string" where
  "gateway_end (ListenError err) = (1, ''Listen and serve error: '' @ err)"
| "gateway_end (Signal (Some err)) = (1, ''Graceful shutdown failed: '' @ err)"
| "gateway_end (Signal None) = (0, ''API Gateway stopped.'')"

section \<open>Lemmas\<close>

subsection \<open>The limiter\<close>

definition limiter_ok :: "RateLimiter \<times> 'r \<Rightarrow> bool" where
  "limiter_ok s = (case fst s of TwoTier t \<Rightarrow> wf_cache (l1 t) | Stub st \<Rightarrow> True)"

interpretation lim: rate_limiter "Limiter_Allow rdb" Limiter_Stats limiter_ok for rdb
proof (unfold_locales, goal_cases)
  case (1 a s out s')
  then show ?case
    using twotier.ok_step
    by (cases "fst s"; cases s) (fastforce simp: Limiter_Allow_def limiter_ok_def split: prod.splits)+
next
  case (2 a s out s')
  obtain l r where s: "s = (l, r)" by fastforce
  show ?case
  proof (cases l)
    case (TwoTier t)
    with 2 s obtain t' r' where "TwoTier_Allow rdb a (t, r) = (out, t', r')" "s' = (TwoTier t', r')"
      by (auto simp: Limiter_Allow_def split: prod.splits)
    with twotier.stats_step [OF this(1)] 2(2) s TwoTier show ?thesis by (simp add: Limiter_Stats_def limiter_ok_def split: sum.splits bool.splits)
  next
    case (Stub st)
    with 2 s show ?thesis by (auto simp: Limiter_Allow_def Limiter_Stats_def Stub_Allow_def Stub_Stats_def)
  qed
qed

lemma limiter_no_panic: "limiter_ok s \<Longrightarrow> Limiter_Allow rdb a s = (out, s') \<Longrightarrow> out \<noteq> Inl IndexPanic"
  using TwoTier_no_panic
  by (cases "fst s"; cases s) (fastforce simp: Limiter_Allow_def limiter_ok_def Stub_Allow_def split: prod.splits)+

lemma limiter_ok_new [simp]: "limiter_ok (choose_limiter ping, r)"
  by (simp add: limiter_ok_def choose_limiter_def NewTwoTierRateLimiter_def split: option.splits)

subsection \<open>The state behind the routes\<close>

text \<open>A handler that leaves the gateway's own state alone, and one that leaves database and broker alone too.\<close>

definition own :: "('l, 'd, 'q) gateway \<Rightarrow> 'l \<times> Metrics \<times> int \<times> int \<times> int" where
  "own s = (gw_limiter s, gw_metrics s, totalRequestsCount s, rateLimitHitsCount s, currentLoad s)"

definition keeps_own :: "('l, 'd, 'q) gateway handler \<Rightarrow> bool" where
  "keeps_own h \<longleftrightarrow> (\<forall>r w s. own (snd (h r (w, s))) = own s)"

definition keeps_all :: "('l, 'd, 'q) gateway handler \<Rightarrow> bool" where
  "keeps_all h \<longleftrightarrow> (\<forall>r w s. snd (h r (w, s)) = s)"

lemma keeps_all_own: "keeps_all h \<Longrightarrow> keeps_own h"
  by (simp add: keeps_all_def keeps_own_def)

lemma own_update [simp]: "own (s\<lparr>gw_db := d\<rparr>) = own s" "own (s\<lparr>gw_mq := q\<rparr>) = own s"
  by (simp_all add: own_def)

lemma dashboard_keeps:
  "keeps_all (statsHandler db denv u)" "keeps_all (adminEventsHandler deps)" "keeps_all (adminBreakersHandler denv u)"
  "keeps_all (eventsHandler deps)" "keeps_all keysHandler" "keeps_all breakersHandler"
  "keeps_all (policiesHandler names cfg)" "keeps_all loadSheddingHandler" "keeps_all paymentsHandler"
  by (auto simp: keeps_all_def statsHandler_def adminEventsHandler_def answer_events_def adminBreakersHandler_def
      eventsHandler_def keysHandler_def breakersHandler_def policiesHandler_def loadSheddingHandler_def paymentsHandler_def Let_def
      split: sum.splits option.splits json.splits)

lemma writers_keep:
  "keeps_own (adminKeysHandler db)" "keeps_own (webhooksHandler deps env)" "keeps_own (replayHandler deps)"
  by (auto simp: keeps_own_def adminKeysHandler_def webhooksHandler_def replayHandler_def Let_def
      split: sum.splits option.splits prod.splits)

text \<open>The routes and what is behind them.\<close>

definition outside_ok :: "('l, 'd, 'q) program \<Rightarrow> bool" where
  "outside_ok p \<longleftrightarrow> keeps_own (p_metrics p) \<and> keeps_own (p_proxy p) \<and> keeps_own (p_own p)"

lemma routes_keep: "outside_ok p \<Longrightarrow> (pat, h) \<in> set (gateway_routes p env denv) \<Longrightarrow> keeps_own h"
  by (auto simp: gateway_routes_def outside_ok_def writers_keep dashboard_keeps [THEN keeps_all_own])

lemma mux_find_cases: "mux_find table root p = root \<or> (\<exists>pat. (pat, mux_find table root p) \<in> set table)"
  by (auto simp: mux_find_def find_Some_iff split: option.splits) (metis nth_mem)

lemma mux_keeps:
  assumes "outside_ok p"
  shows "keeps_own (gateway_mux p env denv)"
proof -
  have "keeps_own (mux_find (gateway_routes p env denv) (p_proxy p) x)" for x
    using mux_find_cases [of "gateway_routes p env denv" "p_proxy p" x]
  proof
    assume "mux_find (gateway_routes p env denv) (p_proxy p) x = p_proxy p"
    with assms show ?thesis by (simp add: outside_ok_def)
  next
    assume "\<exists>pat. (pat, mux_find (gateway_routes p env denv) (p_proxy p) x) \<in> set (gateway_routes p env denv)"
    with routes_keep [OF assms] show ?thesis by blast
  qed
  moreover have "keeps_own (p_own p)" using assms by (simp add: outside_ok_def)
  ultimately show ?thesis by (simp add: keeps_own_def gateway_mux_def ServeMux_def)
qed

subsection \<open>Invariants of a running gateway\<close>

text \<open>
  A predicate on the gateway's own state that the gates and the counting after a request keep is
  an invariant of every run of requests.
\<close>

locale gateway_invariant =
  fixes allow :: "allow_call \<Rightarrow> 'l \<Rightarrow> (limiter_error + bool) \<times> 'l"
    and inv :: "('l, 'd, 'q) gateway \<Rightarrow> bool"
  assumes inv_own: "own s' = own s \<Longrightarrow> inv s \<Longrightarrow> inv s'"
    and inv_arrived: "inv s \<Longrightarrow> inv (arrived r s)"
    and inv_counted: "inv s \<Longrightarrow> inv (counted r tier code s)"
    and inv_allow: "inv s \<Longrightarrow> allow a (gw_limiter s) = (out, l) \<Longrightarrow> inv (s\<lparr>gw_limiter := l\<rparr>)"
begin

lemma inv_gate:
  assumes "inv s"
  shows "case gate env cfg allow r s of Answer code body s' \<Rightarrow> inv s' | Forward r' s' \<Rightarrow> inv s'"
  using assms inv_allow [OF inv_arrived [OF assms, of r]] inv_counted inv_arrived
  by (auto simp: gate_def Let_def split: prod.splits sum.splits bool.splits)

lemma inv_handler:
  assumes "inv s" and "outside_ok p" and "p_allow p = allow" and "CtxValue r = Map.empty"
    and "gateway_handler p env denv r (new_writer, s) = (w', s')"
  shows "inv s'"
proof -
  note pipe = gateway_pipeline [OF assms(4), where env = env and cfg = "p_config p" and allow = allow and s = s and mux = "gateway_mux p env denv"]
  show ?thesis
  proof (cases "gate env (p_config p) allow r s")
    case (Answer code body s1)
    with pipe inv_gate [OF assms(1), of env "p_config p" r] assms(3,5) show ?thesis by (auto simp: gateway_handler_def)
  next
    case (Forward r' s1)
    have "inv (snd (gateway_mux p env denv r' (forward_writer env r, s1)))"
      using Forward inv_gate [OF assms(1), of env "p_config p" r]
        inv_own [OF mux_keeps [OF assms(2), unfolded keeps_own_def, rule_format]] by simp
    then have "inv (snd (returned r (gateway_mux p env denv r' (forward_writer env r, s1))))"
      using inv_counted by (simp add: returned_def case_prod_unfold)
    with Forward pipe assms(3,5) show ?thesis by (simp add: gateway_handler_def)
  qed
qed

lemma inv_run:
  assumes "outside_ok p" and "p_allow p = allow"
  shows "inv s \<Longrightarrow> list_all (\<lambda>(env, denv, r). CtxValue r = Map.empty) rs \<Longrightarrow> gateway_run p rs s = (ws, s') \<Longrightarrow> inv s'"
proof (induction rs arbitrary: s ws)
  case (Cons x rs)
  obtain env denv r where x: "x = (env, denv, r)" by (metis prod_cases3)
  obtain w s1 where step: "gateway_handler p env denv r (new_writer, s) = (w, s1)" by (metis surj_pair)
  from inv_handler [OF Cons.prems(1) assms _ step] Cons.prems(2) x have "inv s1" by simp
  with Cons x step show ?case by (auto split: prod.splits)
qed simp

end

subsection \<open>The state of a running gateway\<close>

text \<open>The counters are \<^verbatim>\<open>int64\<close> values, the cache has its shards, and the load is zero.\<close>

definition typed :: "(RateLimiter \<times> 'r, 'd, 'q) gateway \<Rightarrow> bool" where
  "typed s \<longleftrightarrow> in_i64 (totalRequestsCount s) \<and> in_i64 (rateLimitHitsCount s) \<and> currentLoad s = 0 \<and>
     limiter_ok (gw_limiter s) \<and> in_i64 (AllowedRequests (Limiter_Stats (gw_limiter s))) \<and>
     in_i64 (RejectedRequests (Limiter_Stats (gw_limiter s)))"

lemma typed_own: "own s' = own s \<Longrightarrow> typed s' \<longleftrightarrow> typed s"
  by (simp add: typed_def own_def)

lemma typed_arrived [simp]: "typed s \<Longrightarrow> typed (arrived r s)"
  by (simp add: typed_def arrived_def)

lemma typed_counted [simp]: "typed s \<Longrightarrow> typed (counted r tier code s)"
  by (simp add: typed_def counted_def)

lemma typed_limiter:
  assumes "typed s" and "Limiter_Allow rdb a (gw_limiter s) = (out, l)"
  shows "typed (s\<lparr>gw_limiter := l\<rparr>)"
  using assms lim.ok_step [OF assms(2)] lim.stats_step [OF assms(2)]
  by (cases out) (auto simp: typed_def split: bool.splits)

interpretation typed: gateway_invariant "Limiter_Allow rdb" typed for rdb
proof (unfold_locales, goal_cases)
  case (1 s' s)
  then show ?case using typed_own by blast
next
  case (4 s a out l)
  then show ?case by (rule typed_limiter)
qed (rule typed_arrived typed_counted, assumption)+

lemma typed_never_sheds:
  "typed s \<Longrightarrow> case gate env cfg allow r s of Answer code body s' \<Rightarrow> code \<noteq> 503 | Forward r' s' \<Rightarrow> True"
  by (simp add: typed_def gate_def Let_def split: prod.splits sum.splits bool.splits)

text \<open>The stub stays the stub, and admits everything.\<close>

definition on_stub :: "(RateLimiter \<times> 'r, 'd, 'q) gateway \<Rightarrow> bool" where
  "on_stub s \<longleftrightarrow> currentLoad s = 0 \<and> (\<exists>st. fst (gw_limiter s) = Stub st)"

lemma on_stub_allows: "on_stub s \<Longrightarrow> Limiter_Allow rdb a (gw_limiter s) = (out, l) \<Longrightarrow> out = Inr True \<and> (\<exists>st. fst l = Stub st)"
  by (cases "gw_limiter s") (auto simp: on_stub_def Limiter_Allow_def Stub_Allow_def)

interpretation on_stub: gateway_invariant "Limiter_Allow rdb" on_stub for rdb
proof (unfold_locales, goal_cases)
  case (1 s' s)
  then show ?case by (simp add: on_stub_def own_def)
next
  case (4 s a out l)
  from on_stub_allows [OF 4] 4(1) show ?case by (simp add: on_stub_def)
qed (simp_all add: on_stub_def arrived_def counted_def)

lemma on_stub_gate:
  assumes "on_stub s"
  shows "case gate env cfg (Limiter_Allow rdb) r s of Answer code body s' \<Rightarrow> code \<in> {200, 401, 405} | Forward r' s' \<Rightarrow> True"
proof -
  obtain limit ok where g: "GetLimit cfg (request_tier r) (Path r) = (limit, ok)" by fastforce
  let ?call = "limiter_call env (rate_key (request_tier r) (Path r) (Header_Get (ReqHeader r) ''X-API-Key'')) limit"
  obtain l where l: "Limiter_Allow rdb ?call (gw_limiter s) = (Inr True, l)"
    using on_stub_allows [OF assms] by (metis surj_pair)
  have "currentLoad s = 0" using assms by (simp add: on_stub_def)
  then show ?thesis by (cases ok) (simp_all add: gate_def Let_def g l)
qed

subsection \<open>Start-up\<close>

lemma gateway_start_Inr:
  assumes "gateway_start b r d q = (Inr (p, s), d', q')"
  shows "\<exists>app cfg opts pool conn publisher proxy.
    LoadConfig (b_read b) (b_yaml b) (PolicyConfigPath app) = Inr cfg \<and> NewRedisClient (b_ParseURL b) (RedisAddr app) = Inr opts \<and>
    b_proxy b (ProxyTargetURL app) = Inr proxy \<and> p = gateway_program b app cfg opts pool conn publisher proxy \<and>
    s = new_gateway (choose_limiter (b_ping b opts), r) d' q'"
  using assms by (auto simp: gateway_start_def split: sum.splits prod.splits option.splits) blast+

lemma typed_new: "typed (new_gateway (choose_limiter ping, r) d q)"
  by (simp add: typed_def new_gateway_def in_i64_def Limiter_Stats_def choose_limiter_def NewStubRateLimiter_def
      NewTwoTierRateLimiter_def Stub_Stats_def TwoTier_Stats_def split: option.splits)
    (simp add: limiter_ok_def choose_limiter_def NewTwoTierRateLimiter_def)

text \<open>The steps of \<^verbatim>\<open>main\<close> that can fail, each with its error, given the configuration.\<close>

definition start_steps :: "('d, 'q, 'r, 'o) boot \<Rightarrow> AppConfig \<Rightarrow> 'd \<Rightarrow> 'q \<Rightarrow> (string \<times> string option) list" where
  "start_steps b app d q =
     [(''Failed to load policy configuration: '', err_of (LoadConfig (b_read b) (b_yaml b) (PolicyConfigPath app))),
      (''Failed to initialize Redis client: '', err_of (NewRedisClient (b_ParseURL b) (RedisAddr app))),
      (''Failed to connect to PostgreSQL: '', err_of (b_pool b (DatabaseURL app))),
      (''Failed to initialize database schema: '',
         case b_pool b (DatabaseURL app) of Inl err \<Rightarrow> None | Inr pool \<Rightarrow> fst (InitSchema pool False d)),
      (''Failed to connect to RabbitMQ: '', err_of (b_dial b (RabbitMQURL app))),
      (''Failed to initialize RabbitMQ publisher: '',
         case b_dial b (RabbitMQURL app) of Inl err \<Rightarrow> None | Inr conn \<Rightarrow> err_of (fst (NewRabbitMQPublisher conn ''webhook_queue'' q))),
      (''Invalid reverse proxy target URL: '', err_of (b_proxy b (ProxyTargetURL app)))]"

subsection \<open>Anonymous requests\<close>

text \<open>The path of a request is rooted and is the decoded form of the escaped path.\<close>

definition wf_path :: "Request \<Rightarrow> bool" where
  "wf_path r \<longleftrightarrow> has_prefix (EscapedPath r) ''/'' \<and> percent_decode False (EscapedPath r) = Some (Path r)"

lemma admitted_escaped [simp]: "EscapedPath (admitted_request env r) = EscapedPath r"
  by (simp add: admitted_request_def Let_def)

lemma metrics_routed:
  assumes "wf_path r" and "Path r = ''/metrics''"
  shows "mux_find (gateway_routes p env denv) root (EscapedPath r) = p_metrics p"
proof -
  obtain s where s: "EscapedPath r = CHR ''/'' # s"
    using assms(1) by (cases "EscapedPath r") (auto simp: wf_path_def has_prefix_def)
  have "mux_segments (CHR ''/'' # s) = ['''', ''metrics'']"
    by (rule mux_segments_single) (use assms s in \<open>auto simp: wf_path_def\<close>)
  then show ?thesis by (simp add: s mux_find_def gateway_routes_def)
qed

lemma anonymous_gate:
  assumes "Header_Get (ReqHeader r) ''X-API-Key'' = ''''"
  shows "case gate env cfg allow r s of
      Answer code body s' \<Rightarrow> gw_db s' = gw_db s \<and> gw_mq s' = gw_mq s
    | Forward r' s' \<Rightarrow> Path r = ''/metrics'' \<and> r' = admitted_request env r \<and> gw_db s' = gw_db s \<and> gw_mq s' = gw_mq s"
  using assms
  by (auto simp: gate_def arrived_def counted_def Let_def split: prod.splits sum.splits bool.splits)

subsection \<open>A gateway that starts\<close>

definition sample_boot :: "string option \<Rightarrow> (ref_db, ref_broker, unit, unit) boot" where
  "sample_boot ping =
     \<lparr>b_read = \<lambda>f. if f = ''config.yaml'' then Inr ''tiers'' else Inl ''no such file'', b_environ = Map.empty,
      b_yaml = \<lambda>s. Inr shipped_policy, b_tiers = \<lambda>cfg. [''Enterprise'', ''Free'', ''Pro''],
      b_ParseURL = \<lambda>u. Inr (), b_client = \<lambda>opts. \<lparr>rdb_Eval = \<lambda>t k n w l m r. (Inl ''down'', r), rdb_Publish = \<lambda>c m r. r\<rparr>,
      b_ping = \<lambda>opts. ping, b_pool = \<lambda>u. Inr ref_pool, b_failed_row = \<lambda>pool. ref_failed_row,
      b_dash = \<lambda>pool. \<lparr>q_count = \<lambda>c q d. Inr 0, q_seed = \<lambda>c ks d. (None, d), q_keys = \<lambda>c d. Inr []\<rparr>,
      b_dial = \<lambda>u. Inr ref_conn, b_metrics = \<lambda>r ws. ws, b_proxy = \<lambda>u. Inr (\<lambda>r ws. ws), b_own = \<lambda>r ws. ws\<rparr>"

definition sample_denv :: dash_env where
  "sample_denv = \<lparr>d_hash = \<lambda>k. Inr [], d_worker = \<lambda>u. Inl ''down'', d_now = 0, d_unix = \<lambda>i. (0, 0), d_clock = \<lambda>t. ''00:00''\<rparr>"

lemma sample_load: "fst (Load (b_read (sample_boot ping)) Map.empty) = Inr (read_config Map.empty)"
  and sample_paths: "PolicyConfigPath (read_config Map.empty) = ''config.yaml''" "RedisAddr (read_config Map.empty) = ''localhost:6379''"
proof -
  have "lower_equals ''development'' ''production'' = False" by code_simp
  then show "fst (Load (b_read (sample_boot ping)) Map.empty) = Inr (read_config Map.empty)"
    by (simp add: Load_def LoadEnv_def loadFile_def sample_boot_def read_config_def GetEnv_def LookupEnv_def Let_def)
qed (simp_all add: read_config_def GetEnv_def LookupEnv_def)

lemma sample_steps: "first_failure (start_steps (sample_boot ping) (read_config Map.empty) ref_db0 ref_broker0) = None"
  by (simp add: start_steps_def sample_paths sample_boot_def err_of_def LoadConfig_def LoadConfigFromReader_def NewRedisClient_def
      has_prefix_def InitSchema_def schema_statements_def ref_pool_def NewRabbitMQPublisher_def topology_def ref_conn_def ref_broker0_def dlqName_def)

lemma sample_starts:
  "\<exists>p s d' q'. gateway_start (sample_boot ping) () ref_db0 ref_broker0 = (Inr (p, s), d', q') \<and> outside_ok p \<and>
     keeps_all (p_metrics p) \<and> keeps_all (p_own p)"
  using sample_load [of ping] sample_paths
  by (simp add: gateway_start_def sample_boot_def LoadConfig_def LoadConfigFromReader_def NewRedisClient_def
      has_prefix_def InitSchema_def schema_statements_def ref_pool_def NewRabbitMQPublisher_def topology_def ref_conn_def ref_broker0_def
      dlqName_def gateway_program_def outside_ok_def keeps_own_def keeps_all_def)

section \<open>Properties\<close>

text \<open>
  C16: A started gateway keeps its state well typed, whatever requests it serves: the request
  counters and the limiter's statistics stay \<^verbatim>\<open>int64\<close> values, no cache access is out of range,
  and the load stays zero, so that no request is ever shed.
\<close>

theorem gateway_state_typed:
  assumes "gateway_start b r d q = (Inr (p, s0), d', q')" and "outside_ok p"
    and "list_all (\<lambda>(env, denv, r). CtxValue r = Map.empty) rs" and "gateway_run p rs s0 = (ws, s)"
  shows "typed s \<and> (\<forall>env r. case gate env (p_config p) (p_allow p) r s of Answer code body s' \<Rightarrow> code \<noteq> 503 | Forward r' s' \<Rightarrow> True) \<and>
    (\<forall>a out l. p_allow p a (gw_limiter s) = (out, l) \<longrightarrow> out \<noteq> Inl IndexPanic)"
proof -
  from gateway_start_Inr [OF assms(1)] obtain rdb ping where allow: "p_allow p = Limiter_Allow rdb"
    and s0: "s0 = new_gateway (choose_limiter ping, r) d' q'" by (auto simp: gateway_program_def)
  have typed: "typed s" by (rule typed.inv_run [OF assms(2) allow _ assms(3,4)]) (simp add: s0 typed_new)
  moreover have "case gate env (p_config p) (p_allow p) r s of Answer code body s' \<Rightarrow> code \<noteq> 503 | Forward r' s' \<Rightarrow> True" for env r
    by (rule typed_never_sheds [OF typed])
  moreover have "p_allow p a (gw_limiter s) = (out, l) \<longrightarrow> out \<noteq> Inl IndexPanic" for a out l
    using limiter_no_panic [of "gw_limiter s" rdb a out l] typed by (auto simp: allow typed_def)
  ultimately show ?thesis by blast
qed

theorem gateway_state_typed_witness:
  "\<exists>p s0 d' q' ws s. gateway_start (sample_boot None) () ref_db0 ref_broker0 = (Inr (p, s0), d', q') \<and>
     gateway_run p [(sample_renv, sample_denv, sample_req ''GET'' ''/v1/policies'' ''k'')] s0 = (ws, s) \<and> typed s"
proof -
  obtain p s0 d' q' where st: "gateway_start (sample_boot None) () ref_db0 ref_broker0 = (Inr (p, s0), d', q')" "outside_ok p"
    using sample_starts by blast
  obtain ws s where run: "gateway_run p [(sample_renv, sample_denv, sample_req ''GET'' ''/v1/policies'' ''k'')] s0 = (ws, s)"
    by (metis surj_pair)
  have "typed s" using gateway_state_typed [OF st _ run] by (simp add: sample_req_def)
  with st run show ?thesis by blast
qed

text \<open>
  C12: Without an API key nothing is stored and nothing is published: a request without the
  header \<^verbatim>\<open>X-API-Key\<close>, for whatever method and path (escapes included), leaves the database and
  the broker as they are, because only the metrics route is reached without a key.
\<close>

theorem anonymous_changes_nothing:
  assumes "CtxValue r = Map.empty" and "Header_Get (ReqHeader r) ''X-API-Key'' = ''''" and "wf_path r"
    and "keeps_all (p_metrics p)" and "keeps_all (p_own p)"
    and "gateway_handler p env denv r (new_writer, s) = (w', s')"
  shows "gw_db s' = gw_db s \<and> gw_mq s' = gw_mq s"
proof (cases "gate env (p_config p) (p_allow p) r s")
  case (Answer code body s1)
  with anonymous_gate [OF assms(2), where env = env and cfg = "p_config p" and allow = "p_allow p" and s = s] assms(6)
    gateway_pipeline [OF assms(1), where env = env and cfg = "p_config p" and allow = "p_allow p" and s = s and mux = "gateway_mux p env denv"]
  show ?thesis by (auto simp: gateway_handler_def)
next
  case (Forward r' s1)
  note g = anonymous_gate [OF assms(2), where env = env and cfg = "p_config p" and allow = "p_allow p" and s = s, unfolded Forward, simplified]
  have "snd (gateway_mux p env denv r' (forward_writer env r, s1)) = s1"
    using assms(4,5) g metrics_routed [OF assms(3), of p env denv "p_proxy p"]
    by (simp add: gateway_mux_def ServeMux_def keeps_all_def)
  moreover have "s' = snd (returned r (gateway_mux p env denv r' (forward_writer env r, s1)))"
    using assms(6) Forward
      gateway_pipeline [OF assms(1), where env = env and cfg = "p_config p" and allow = "p_allow p" and s = s and mux = "gateway_mux p env denv"]
    by (simp add: gateway_handler_def) (metis snd_conv)
  ultimately show ?thesis using g by (simp add: returned_def counted_def case_prod_unfold)
qed

theorem anonymous_changes_nothing_witness:
  "\<exists>p s w' s'. gateway_handler p sample_renv sample_denv (sample_req ''POST'' ''/v1/webhooks'' '''') (new_writer, s) = (w', s') \<and>
     gw_db s' = gw_db s \<and> gw_mq s' = gw_mq (s :: (RateLimiter \<times> unit, ref_db, ref_broker) gateway)"
proof -
  let ?r = "sample_req ''POST'' ''/v1/webhooks'' ''''"
  obtain p s d' q' where "gateway_start (sample_boot None) () ref_db0 ref_broker0 = (Inr (p, s), d', q')"
    and p: "keeps_all (p_metrics p)" "keeps_all (p_own p)" using sample_starts by blast
  obtain w' s' where run: "gateway_handler p sample_renv sample_denv ?r (new_writer, s) = (w', s')" by (metis surj_pair)
  have "wf_path ?r" by code_simp
  from anonymous_changes_nothing [OF _ _ this p run] run show ?thesis
    by (auto simp: sample_req_def Header_Get_def)
qed

text \<open>
  C2: The gateway serves a request, for a clean path without escapes, in two stages: the gates
  (health check, preflight, authentication, load shedding, rate limiting) answer it themselves or
  admit it; an admitted request gets the handler registered under exactly its path, and every
  other path goes to the reverse proxy.
\<close>

theorem gateway_serves:
  assumes "CtxValue r = Map.empty" and "EscapedPath r = Path r" and "CHR ''%'' \<notin> set (Path r)"
    and "cleanPath (Path r) = Path r" and "Method r \<noteq> ''CONNECT''"
  shows "case gate env (p_config p) (p_allow p) r s of
      Answer code body s' \<Rightarrow>
        (\<exists>w'. gateway_handler p env denv r (new_writer, s) = (w', s') \<and> status_of w' = code \<and> wbody w' = body)
    | Forward r' s' \<Rightarrow>
        gateway_handler p env denv r (new_writer, s) =
          returned r ((case map_of (gateway_routes p env denv) (Path r) of Some h \<Rightarrow> h | None \<Rightarrow> p_proxy p) r' (forward_writer env r, s'))"
proof -
  have "r' = admitted_request env r" if "gate env (p_config p) (p_allow p) r s = Forward r' s'" for r' s'
    using that by (auto simp: gate_def Let_def split: prod.splits sum.splits bool.splits if_splits)
  moreover have "gateway_mux p env denv (admitted_request env r) ws =
      (case map_of (gateway_routes p env denv) (Path r) of Some h \<Rightarrow> h | None \<Rightarrow> p_proxy p) (admitted_request env r) ws" for ws
    using assms mux_find_plain [OF assms(3), of "gateway_routes p env denv" "p_proxy p"]
    by (simp add: gateway_mux_def ServeMux_def mux_own_def)
  ultimately show ?thesis
    using gateway_pipeline [OF assms(1), where env = env and cfg = "p_config p" and allow = "p_allow p" and s = s and mux = "gateway_mux p env denv"]
    by (auto simp: gateway_handler_def split: verdict.splits)
qed

theorem gateway_serves_witness:
  "\<exists>p s w' s'. gateway_handler p sample_renv sample_denv (sample_req ''GET'' ''/v1/policies'' '''')
     (new_writer, s :: (RateLimiter \<times> unit, ref_db, ref_broker) gateway) = (w', s') \<and> status_of w' = 401"
proof -
  let ?r = "sample_req ''GET'' ''/v1/policies'' ''''"
  obtain p s d' q' where "gateway_start (sample_boot None) () ref_db0 ref_broker0 = (Inr (p, s), d', q')"
    using sample_starts by blast
  have g: "gate sample_renv (p_config p) (p_allow p) ?r s = Answer 401 (''Unauthorized: missing API Key'' @ [CHR 0x0A]) s"
    by (simp add: gate_def sample_req_def Header_Get_def Let_def)
  have "cleanPath (Path ?r) = Path ?r" "EscapedPath ?r = Path ?r" "CHR ''%'' \<notin> set (Path ?r)" "Method ?r \<noteq> ''CONNECT''"
    by code_simp+
  with gateway_serves [where r = ?r and p = p and s = s and env = sample_renv and denv = sample_denv] g show ?thesis
    by (auto simp: sample_req_def)
qed

text \<open>
  C17: Start-up stops at the first of its steps that fails, with that step's message, and starts
  the gateway exactly when none fails; before the schema is created nothing was executed. A Redis
  that does not answer is no failure: the gateway then runs with the stub limiter.
\<close>

theorem gateway_start_order:
  assumes "fst (Load (b_read b) (b_environ b)) = Inr app" and "gateway_start b r d q = (res, d', q')"
  shows "(case res of
      Inl msg \<Rightarrow> first_failure (start_steps b app d q) = Some msg
    | Inr (p, s) \<Rightarrow> first_failure (start_steps b app d q) = None \<and>
        (\<exists>opts. NewRedisClient (b_ParseURL b) (RedisAddr app) = Inr opts \<and>
          (gw_limiter s = (Stub NewStubRateLimiter, r) \<longleftrightarrow> b_ping b opts \<noteq> None))) \<and>
    (first_failure (take 3 (start_steps b app d q)) \<noteq> None \<longrightarrow> d' = d \<and> q' = q)"
  using assms
  by (auto simp: gateway_start_def start_steps_def err_of_def new_gateway_def choose_limiter_def
      split: sum.splits prod.splits option.splits)

theorem gateway_start_order_witness:
  "\<exists>p s d' q'. gateway_start (sample_boot (Some ''connection refused'')) () ref_db0 ref_broker0 = (Inr (p, s), d', q') \<and>
     gw_limiter s = (Stub NewStubRateLimiter, ())"
proof -
  let ?b = "sample_boot (Some ''connection refused'')"
  obtain p s d' q' where st: "gateway_start ?b () ref_db0 ref_broker0 = (Inr (p, s), d', q')" using sample_starts by blast
  have "fst (Load (b_read ?b) (b_environ ?b)) = Inr (read_config Map.empty)"
    using sample_load [of "Some ''connection refused''"] by (simp add: sample_boot_def)
  from gateway_start_order [OF this st] have "gw_limiter s = (Stub NewStubRateLimiter, ())" by (simp add: sample_boot_def)
  with st show ?thesis by blast
qed

text \<open>
  C30: A Redis that is down at start-up switches rate limiting off for the life of the process:
  from then on, whatever is requested and whatever Redis does later, the gates answer no request
  with 429 or 500; they refuse nothing but missing API keys and wrong methods of the health check.
\<close>

theorem redis_down_fails_open:
  assumes "fst (Load (b_read b) (b_environ b)) = Inr app" and "NewRedisClient (b_ParseURL b) (RedisAddr app) = Inr opts"
    and "b_ping b opts = Some err" and "gateway_start b r d q = (Inr (p, s0), d', q')" and "outside_ok p"
    and "list_all (\<lambda>(env, denv, r). CtxValue r = Map.empty) rs" and "gateway_run p rs s0 = (ws, s)"
  shows "case gate env (p_config p) (p_allow p) req s of Answer code body s' \<Rightarrow> code \<in> {200, 401, 405} | Forward r' s' \<Rightarrow> True"
proof -
  from assms(1-4) obtain rdb where allow: "p_allow p = Limiter_Allow rdb" and "on_stub s0"
    by (auto simp: gateway_start_def gateway_program_def new_gateway_def choose_limiter_def on_stub_def
        split: sum.splits prod.splits option.splits)
  from on_stub.inv_run [OF assms(5) allow this(2) assms(6,7)] show ?thesis unfolding allow by (rule on_stub_gate)
qed

theorem redis_down_fails_open_witness:
  "\<exists>p s0 d' q'. gateway_start (sample_boot (Some ''connection refused'')) () ref_db0 ref_broker0 = (Inr (p, s0), d', q') \<and>
     (case gate sample_renv (p_config p) (p_allow p) (sample_req ''GET'' ''/x'' ''k'') s0 of
        Answer code body s' \<Rightarrow> code \<in> {200, 401, 405} | Forward r' s' \<Rightarrow> True)"
proof -
  let ?b = "sample_boot (Some ''connection refused'')"
  obtain p s0 d' q' where st: "gateway_start ?b () ref_db0 ref_broker0 = (Inr (p, s0), d', q')" "outside_ok p"
    using sample_starts by blast
  have "fst (Load (b_read ?b) (b_environ ?b)) = Inr (read_config Map.empty)"
    using sample_load [of "Some ''connection refused''"] by (simp add: sample_boot_def)
  moreover have "NewRedisClient (b_ParseURL ?b) (RedisAddr (read_config Map.empty)) = Inr (AddrOptions ''localhost:6379'')"
    by (simp add: sample_paths NewRedisClient_def has_prefix_def)
  moreover have "b_ping ?b opts = Some ''connection refused''" for opts by (simp add: sample_boot_def)
  ultimately have "case gate sample_renv (p_config p) (p_allow p) (sample_req ''GET'' ''/x'' ''k'') s0 of
      Answer code body s' \<Rightarrow> code \<in> {200, 401, 405} | Forward r' s' \<Rightarrow> True"
    by (rule redis_down_fails_open [OF _ _ _ st, of _ _ _ "[]" "[]"]) simp_all
  with st show ?thesis by blast
qed

end
