(* ===== verification/Gateway_Race.thy ===== *)
theory Gateway_Race
  imports Gateway
begin

text \<open>
  The webhook routes under concurrency (\<^verbatim>\<open>src/cmd/gateway/main.go\<close>, \<^verbatim>\<open>/v1/webhooks\<close> and
  \<^verbatim>\<open>/v1/webhooks/replay\<close>). The gateways serve every request in its own goroutine on one database
  and one broker, while workers record outcomes in the same table. \<open>route_step\<close> runs a request
  from one access to shared state to the next: a statement of the database or a publication; the
  request's context may be cancelled at any moment. \<open>pipe_step\<close> interleaves any number of them.

  Shown: a request that runs alone is the handler of theory \<open>Gateway\<close>; under every interleaving
  the table keeps its rows and its unique idempotency keys, no message is without a row, and an
  accepted request has both; and two concurrent replays can publish an event twice, also after
  it has been delivered.
\<close>

section \<open>Definitions\<close>

datatype route_stage = Saving WebhookEvent | Announcing WebhookEvent | Selecting
  | Resetting "WebhookEvent list" "string list" | Requeueing WebhookEvent "WebhookEvent list" "string list"
  | Replied int "string list"

text \<open>The guards of the two handlers, which touch no shared state.\<close>

definition webhook_begin :: "req_env \<Rightarrow> Request \<Rightarrow> route_stage" where
  "webhook_begin env r =
     (if Method r \<noteq> ''POST'' then Replied 405 []
      else if ctx_string r APIKeyKey = '''' then Replied 401 []
      else case decode_webhook (Body r) of
        Inl err \<Rightarrow> Replied 400 []
      | Inr (target, payload) \<Rightarrow>
          if target = '''' \<or> payload = '''' then Replied 400 []
          else Saving (webhook_event env r (ctx_string r APIKeyKey) target payload))"

definition replay_begin :: "Request \<Rightarrow> route_stage" where
  "replay_begin r =
     (if Method r \<noteq> ''POST'' then Replied 405 []
      else if ctx_string r APIKeyKey = '''' then Replied 401 [] else Selecting)"

fun route_step ::
  "('d, 'q) gw_deps \<Rightarrow> bool \<Rightarrow> Request \<Rightarrow> route_stage \<Rightarrow> 'd \<Rightarrow> 'q \<Rightarrow> route_stage \<times> 'd \<times> 'q" where
  "route_step deps ctx r (Saving event) db q =
     (case es_SaveEvent (dep_store deps) ctx event db of
        (Some err, db') \<Rightarrow> (Replied 500 [], db', q)
      | (None, db') \<Rightarrow> (Announcing event, db', q))"
| "route_step deps ctx r (Announcing event) db q =
     (case dep_publish deps ctx event q of
        (Some err, q') \<Rightarrow> (Replied 500 [], db, q')
      | (None, q') \<Rightarrow> (Replied 202 [ID event], db, q'))"
| "route_step deps ctx r Selecting db q =
     (case failed_to_replay deps (r\<lparr>CtxCancelled := ctx\<rparr>) (ctx_string r APIKeyKey) db of
        Inl err \<Rightarrow> (Replied 500 [], db, q)
      | Inr evs \<Rightarrow> (Resetting evs [], db, q))"
| "route_step deps ctx r (Resetting [] ids) db q = (Replied 200 ids, db, q)"
| "route_step deps ctx r (Resetting (event # evs) ids) db q =
     (case es_UpdateEventStatus (dep_store deps) ctx (ID event) ''pending'' '''' db of
        (Some err, db') \<Rightarrow> (Resetting evs ids, db', q)
      | (None, db') \<Rightarrow> (Requeueing event evs ids, db', q))"
| "route_step deps ctx r (Requeueing event evs ids) db q =
     (case dep_publish deps ctx (event\<lparr>Status := ''pending''\<rparr>) q of
        (Some err, q') \<Rightarrow> (Resetting evs ids, db, q')
      | (None, q') \<Rightarrow> (Resetting evs (ids @ [ID event]), db, q'))"
| "route_step deps ctx r (Replied code ids) db q = (Replied code ids, db, q)"

fun route_steps ::
  "nat \<Rightarrow> ('d, 'q) gw_deps \<Rightarrow> bool \<Rightarrow> Request \<Rightarrow> route_stage \<Rightarrow> 'd \<Rightarrow> 'q \<Rightarrow> route_stage \<times> 'd \<times> 'q" where
  "route_steps 0 deps ctx r st db q = (st, db, q)"
| "route_steps (Suc n) deps ctx r st db q =
     (case route_step deps ctx r st db q of (st', db', q') \<Rightarrow> route_steps n deps ctx r st' db' q')"

record ('d, 'q) pipe =
  x_db :: 'd
  x_mq :: 'q
  x_tasks :: "(Request \<times> route_stage) list"

inductive pipe_step :: "('d, 'q) gw_deps \<Rightarrow> ('d, 'q) pipe \<Rightarrow> ('d, 'q) pipe \<Rightarrow> bool" for deps where
  webhook: "uuid_text (e_event env) \<Longrightarrow> pipe_step deps s (s\<lparr>x_tasks := x_tasks s @ [(r, webhook_begin env r)]\<rparr>)"
| replay: "pipe_step deps s (s\<lparr>x_tasks := x_tasks s @ [(r, replay_begin r)]\<rparr>)"
| proceed: "x_tasks s = us @ (r, st) # vs \<Longrightarrow> route_step deps ctx r st (x_db s) (x_mq s) = (st', db', q') \<Longrightarrow>
     pipe_step deps s (s\<lparr>x_tasks := us @ (r, st') # vs, x_db := db', x_mq := q'\<rparr>)"
| outcome: "uuid_text i \<Longrightarrow> es_UpdateEventStatus (dep_store deps) ctx i status msg (x_db s) = (res, db') \<Longrightarrow>
     pipe_step deps s (s\<lparr>x_db := db'\<rparr>)"

definition pipe_start :: "'d \<Rightarrow> 'q \<Rightarrow> ('d, 'q) pipe" where
  "pipe_start d q = \<lparr>x_db = d, x_mq = q, x_tasks = []\<rparr>"

text \<open>The same as a function of a schedule: which request arrives, which one runs, what a worker records.\<close>

datatype pipe_event = Webhook req_env Request | Replay Request | Run nat bool | Outcome string string string

fun pipe_do :: "('d, 'q) gw_deps \<Rightarrow> pipe_event \<Rightarrow> ('d, 'q) pipe \<Rightarrow> ('d, 'q) pipe" where
  "pipe_do deps (Webhook env r) s = s\<lparr>x_tasks := x_tasks s @ [(r, webhook_begin env r)]\<rparr>"
| "pipe_do deps (Replay r) s = s\<lparr>x_tasks := x_tasks s @ [(r, replay_begin r)]\<rparr>"
| "pipe_do deps (Run n ctx) s =
     (if n < length (x_tasks s) then
        case x_tasks s ! n of (r, st) \<Rightarrow>
          (case route_step deps ctx r st (x_db s) (x_mq s) of
             (st', db, q) \<Rightarrow> s\<lparr>x_tasks := (x_tasks s)[n := (r, st')], x_db := db, x_mq := q\<rparr>)
      else s)"
| "pipe_do deps (Outcome i status msg) s =
     s\<lparr>x_db := snd (es_UpdateEventStatus (dep_store deps) False i status msg (x_db s))\<rparr>"

fun event_ids_ok :: "pipe_event \<Rightarrow> bool" where
  "event_ids_ok (Webhook env r) = uuid_text (e_event env)"
| "event_ids_ok (Outcome i status msg) = uuid_text i"
| "event_ids_ok e = True"

subsection \<open>The invariant\<close>

text \<open>What the program itself puts into the table: UUIDs and non-empty idempotency keys.\<close>

definition table_ok :: "event_table \<Rightarrow> bool" where
  "table_ok t \<longleftrightarrow> uuid_ids t \<and> (\<forall>row \<in> ran t. r_idem row \<noteq> Some '''')"

text \<open>The single-row query of the replay handler scans the columns of \<^verbatim>\<open>GetFailedEvents\<close>.\<close>

definition failed_row_exact ::
  "('d \<Rightarrow> event_table) \<Rightarrow> (bool \<Rightarrow> string \<Rightarrow> string \<Rightarrow> 'd \<Rightarrow> string + WebhookEvent) \<Rightarrow> bool" where
  "failed_row_exact table failed_row \<longleftrightarrow>
     (\<forall>ctx i a d ev. failed_row ctx i a d = Inr ev \<longrightarrow>
        (\<exists>row. table d i = Some row \<and> r_api_key row = a \<and> r_status row = ''failed'' \<and> failed_row_event i row = Inr ev))"

definition stored :: "event_table \<Rightarrow> WebhookEvent \<Rightarrow> bool" where
  "stored t ev \<longleftrightarrow> uuid_text (ID ev) \<and> has_idem t (idem_key ev)"

definition message_for :: "RabbitMQPublisher \<Rightarrow> WebhookEvent \<Rightarrow> string \<times> string \<times> Publishing \<Rightarrow> bool" where
  "message_for p ev m \<longleftrightarrow> (\<exists>body. marshal_event ev = Inr body \<and> m = queue_message p body)"

fun stage_ok :: "RabbitMQPublisher \<Rightarrow> event_table \<Rightarrow> (string \<times> string \<times> Publishing) list \<Rightarrow> route_stage \<Rightarrow> bool" where
  "stage_ok p t ms (Saving ev) \<longleftrightarrow> uuid_text (ID ev)"
| "stage_ok p t ms (Announcing ev) \<longleftrightarrow> stored t ev"
| "stage_ok p t ms Selecting \<longleftrightarrow> True"
| "stage_ok p t ms (Resetting evs ids) \<longleftrightarrow> list_all (stored t) evs"
| "stage_ok p t ms (Requeueing ev evs ids) \<longleftrightarrow> list_all (stored t) (ev # evs)"
| "stage_ok p t ms (Replied code ids) \<longleftrightarrow>
     (code = 202 \<longrightarrow> (\<exists>ev. ids = [ID ev] \<and> stored t ev \<and> (\<exists>m \<in> set ms. message_for p ev m)))"

definition pipe_inv ::
  "('d \<Rightarrow> event_table) \<Rightarrow> ('q \<Rightarrow> (string \<times> string \<times> Publishing) list) \<Rightarrow> RabbitMQPublisher \<Rightarrow> 'd \<Rightarrow> 'q \<Rightarrow>
     ('d, 'q) pipe \<Rightarrow> bool" where
  "pipe_inv table handed p d0 q0 s \<longleftrightarrow>
     table_ok (table (x_db s)) \<and> idem_unique (table (x_db s)) \<and> keeps_rows (table d0) (table (x_db s)) \<and>
     (\<exists>ms. handed (x_mq s) = handed q0 @ ms \<and>
        list_all (\<lambda>m. \<exists>ev. message_for p ev m \<and> stored (table (x_db s)) ev) ms \<and>
        list_all (\<lambda>(r, st). stage_ok p (table (x_db s)) ms st) (x_tasks s))"

section \<open>Lemmas\<close>

subsection \<open>A request that runs alone\<close>

lemma steps_replied [simp]: "route_steps n deps ctx r (Replied code ids) db q = (Replied code ids, db, q)"
  by (induction n) simp_all

lemma webhook_alone:
  assumes "sent w = None"
  shows "\<exists>w' code ids db q. route_steps 2 deps (CtxCancelled r) r (webhook_begin env r) (gw_db s) (gw_mq s) = (Replied code ids, db, q) \<and>
    webhooksHandler deps env r (w, s) = (w', s\<lparr>gw_db := db, gw_mq := q\<rparr>) \<and> status_of w' = code"
  using assms
  by (auto simp: webhook_begin_def webhooksHandler_def write_json_def numeral_2_eq_2 Let_def split: sum.splits prod.splits option.splits)

lemma route_steps_more:
  "route_steps n deps ctx r st db q = (Replied code ids, db', q') \<Longrightarrow>
     route_steps (Suc n) deps ctx r st db q = (Replied code ids, db', q')"
proof (induction n arbitrary: st db q)
  case (Suc n)
  obtain st1 db1 q1 where step: "route_step deps ctx r st db q = (st1, db1, q1)" by (metis prod_cases3)
  with Suc.prems have "route_steps n deps ctx r st1 db1 q1 = (Replied code ids, db', q')" by simp
  from Suc.IH [OF this] step show ?case by (simp only: route_steps.simps(2) [of "Suc n"] prod.case)
qed simp

lemma replay_loop_steps:
  "replay_loop deps ctx evs ids db q = (ids', db', q') \<Longrightarrow>
     route_steps (2 * length evs + 1) deps ctx r (Resetting evs ids) db q = (Replied 200 ids', db', q')"
proof (induction evs arbitrary: ids db q)
  case (Cons ev evs)
  define n where "n = 2 * length evs + 1"
  have IH: "route_steps n deps ctx r (Resetting evs ids1) db1 q1 = (Replied 200 ids', db', q')"
    and more: "route_steps (Suc n) deps ctx r (Resetting evs ids1) db1 q1 = (Replied 200 ids', db', q')"
    if "replay_loop deps ctx evs ids1 db1 q1 = (ids', db', q')" for ids1 db1 q1
    using Cons.IH [OF that] route_steps_more unfolding n_def by metis+
  obtain e1 db1 where u: "es_UpdateEventStatus (dep_store deps) ctx (ID ev) ''pending'' '''' db = (e1, db1)" by (metis surj_pair)
  obtain e2 q1 where pb: "dep_publish deps ctx (ev\<lparr>Status := ''pending''\<rparr>) q = (e2, q1)" by (metis surj_pair)
  have "route_steps (Suc (Suc n)) deps ctx r (Resetting (ev # evs) ids) db q = (Replied 200 ids', db', q')"
  proof (cases e1)
    case (Some err)
    with Cons.prems u more [of ids db1 q] show ?thesis by (simp del: route_steps.simps add: route_steps.simps(2) [of "Suc n"])
  next
    case None
    with Cons.prems u pb IH [of ids db1 q1] IH [of "ids @ [ID ev]" db1 q1] show ?thesis by (cases e2) simp_all
  qed
  then show ?case by (simp add: n_def)
qed simp

lemma replay_alone:
  assumes "sent w = None"
  shows "\<exists>n w' code ids db q. route_steps n deps (CtxCancelled r) r (replay_begin r) (gw_db s) (gw_mq s) = (Replied code ids, db, q) \<and>
    replayHandler deps r (w, s) = (w', s\<lparr>gw_db := db, gw_mq := q\<rparr>) \<and> status_of w' = code"
proof (cases "Method r = ''POST'' \<and> ctx_string r APIKeyKey \<noteq> ''''")
  case False
  then have "route_steps 0 deps (CtxCancelled r) r (replay_begin r) (gw_db s) (gw_mq s) =
      (Replied (if Method r \<noteq> ''POST'' then 405 else 401) [], gw_db s, gw_mq s)" by (auto simp: replay_begin_def)
  moreover have "\<exists>w'. replayHandler deps r (w, s) = (w', s) \<and> status_of w' = (if Method r \<noteq> ''POST'' then 405 else 401)"
    using False assms by (auto simp: replayHandler_def Let_def)
  ultimately show ?thesis by force
next
  case True
  then have sel: "replay_begin r = Selecting" by (simp add: replay_begin_def)
  have same: "r\<lparr>CtxCancelled := CtxCancelled r\<rparr> = r" by simp
  show ?thesis
  proof (cases "failed_to_replay deps r (ctx_string r APIKeyKey) (gw_db s)")
    case (Inl err)
    then have "route_steps 1 deps (CtxCancelled r) r (replay_begin r) (gw_db s) (gw_mq s) = (Replied 500 [], gw_db s, gw_mq s)"
      by (simp add: sel)
    moreover have "\<exists>w'. replayHandler deps r (w, s) = (w', s\<lparr>gw_db := gw_db s, gw_mq := gw_mq s\<rparr>) \<and> status_of w' = 500"
      using True Inl assms by (auto simp: replayHandler_def Let_def)
    ultimately show ?thesis by blast
  next
    case (Inr evs)
    obtain ids db q where loop: "replay_loop deps (CtxCancelled r) evs [] (gw_db s) (gw_mq s) = (ids, db, q)" by (metis prod_cases3)
    have "route_steps (Suc (2 * length evs + 1)) deps (CtxCancelled r) r (replay_begin r) (gw_db s) (gw_mq s) = (Replied 200 ids, db, q)"
      using replay_loop_steps [OF loop, of r] Inr by (simp add: sel)
    moreover have "\<exists>w'. replayHandler deps r (w, s) = (w', s\<lparr>gw_db := db, gw_mq := q\<rparr>) \<and> status_of w' = 200"
      using True Inr loop assms by (auto simp: replayHandler_def write_json_def status_of_def Let_def)
    ultimately show ?thesis by blast
  qed
qed

subsection \<open>Tables and stages\<close>

definition table_step :: "(string \<Rightarrow> string) \<Rightarrow> event_table \<Rightarrow> event_table \<Rightarrow> bool" where
  "table_step jsonb t t' \<longleftrightarrow> t' = t \<or> (\<exists>ev. uuid_text (ID ev) \<and> saves jsonb ev t t') \<or> (\<exists>i st m. t' = set_status i st m t)"

lemma uuid_nonempty: "uuid_text s \<Longrightarrow> s \<noteq> ''''"
  by (auto simp: uuid_text_def)

lemma saves_table_ok: "saves jsonb ev t t' \<Longrightarrow> uuid_text (ID ev) \<Longrightarrow> table_ok t \<Longrightarrow> table_ok t'"
  using uuid_nonempty
  by (auto simp: saves_def table_ok_def uuid_ids_def row_of_def idem_key_def ran_def split: if_splits)

lemma set_status_table_ok: "table_ok t \<Longrightarrow> table_ok (set_status i st m t)"
  by (auto simp: table_ok_def uuid_ids_def set_status_def ran_def dom_def split: if_splits)

lemma table_step_keeps:
  assumes "table_step jsonb t t'"
  shows "keeps_rows t t'" and "idem_unique t \<Longrightarrow> idem_unique t'" and "table_ok t \<Longrightarrow> table_ok t'"
  using assms by (auto simp: table_step_def set_status_unique set_status_table_ok dest: saves_keeps saves_unique saves_table_ok)

lemma stored_mono: "keeps_rows t t' \<Longrightarrow> stored t ev \<Longrightarrow> stored t' ev"
  by (auto simp: stored_def intro: keeps_rows_has_idem)

lemma stage_ok_mono:
  assumes "keeps_rows t t'" and "stage_ok p t ms st"
  shows "stage_ok p t' (ms @ ms') st"
  using assms(2) stored_mono [OF assms(1)] by (cases st) (auto simp: list_all_iff)

lemma failed_row_stored:
  assumes "table_ok t" and "t (ID ev) = Some row" and "failed_row_event (ID ev) row = Inr ev"
  shows "stored t ev"
proof -
  have "r_idem row = Some (IdempotencyKey ev)" using failed_row_event_Inr [OF assms(3)] by simp
  moreover from this have "IdempotencyKey ev \<noteq> ''''" using assms(1,2) by (auto simp: table_ok_def ran_def)
  ultimately have "has_idem t (idem_key ev)" using assms(2) by (auto simp: has_idem_def idem_key_def ran_def)
  moreover have "uuid_text (ID ev)" using assms(1,2) by (auto simp: table_ok_def uuid_ids_def)
  ultimately show ?thesis by (simp add: stored_def)
qed

lemma replayed_stored:
  assumes pg: "postgres pool table jsonb to_char" and fr: "failed_row_exact table fr" and ok: "table_ok (table db)"
    and sel: "failed_to_replay (program_deps pool fr conn p) r a db = Inr evs"
  shows "list_all (stored (table db)) evs"
proof (cases "decode_replay (Body r) = ''''")
  case True
  with sel have "GetFailedEvents pool (CtxCancelled r) a db = Inr evs" by (simp add: failed_to_replay_def)
  note law = postgres.GetFailedEvents_law [OF pg this]
  have "stored (table db) ev" if "ev \<in> set evs" for ev
  proof -
    have "ID ev \<in> keys_where (\<lambda>row. r_api_key row = a \<and> r_status row = ''failed'') (table db)" using law that by auto
    from keys_where_dom [OF this] obtain row where "table db (ID ev) = Some row" by blast
    moreover from this have "failed_row_event (ID ev) row = Inr ev" using law that by auto
    ultimately show ?thesis by (rule failed_row_stored [OF ok])
  qed
  then show ?thesis by (simp add: list_all_iff)
next
  case False
  show ?thesis
  proof (cases "fr (CtxCancelled r) (decode_replay (Body r)) a db")
    case (Inl e)
    with False sel show ?thesis by (simp add: failed_to_replay_def Let_def)
  next
    case (Inr ev)
    with fr obtain row where "table db (decode_replay (Body r)) = Some row"
      "failed_row_event (decode_replay (Body r)) row = Inr ev" unfolding failed_row_exact_def by blast
    moreover from this(2) have "ID ev = decode_replay (Body r)" by (rule failed_row_event_ID)
    ultimately have "stored (table db) ev" using failed_row_stored [OF ok] by simp
    with Inr False sel show ?thesis by (auto simp: failed_to_replay_def Let_def)
  qed
qed

subsection \<open>One step\<close>

lemma stored_status [simp]: "stored t (ev\<lparr>Status := x\<rparr>) = stored t ev"
  by (simp add: stored_def idem_key_def)

definition step_ok ::
  "RabbitMQPublisher \<Rightarrow> (string \<Rightarrow> string) \<Rightarrow> event_table \<Rightarrow> event_table \<Rightarrow> (string \<times> string \<times> Publishing) list \<Rightarrow>
     (string \<times> string \<times> Publishing) list \<Rightarrow> route_stage \<Rightarrow> bool" where
  "step_ok p jsonb t t' ms ms' st' \<longleftrightarrow> table_step jsonb t t' \<and>
     list_all (\<lambda>m. \<exists>ev. message_for p ev m \<and> stored t' ev) ms' \<and> stage_ok p t' (ms @ ms') st'"

lemma step_ok_publish:
  assumes mq: "amqp_broker conn view handed" and pb: "Publish conn p ctx ev q = (res, q')" and "stored t ev"
  shows "\<exists>ms'. handed q' = handed q @ ms' \<and> list_all (\<lambda>m. \<exists>ev. message_for p ev m \<and> stored t ev) ms' \<and>
    (res = None \<longrightarrow> (\<exists>m \<in> set ms'. message_for p ev m))"
proof -
  from amqp_broker.Publish_message [OF mq pb] obtain ms' where ms': "handed q' = handed q @ ms'" "res = None \<longrightarrow> ms' \<noteq> []"
    "\<forall>m \<in> set ms'. message_for p ev m" unfolding message_for_def by blast
  then have "res = None \<longrightarrow> (\<exists>m \<in> set ms'. message_for p ev m)" by (metis list.set_intros(1) neq_Nil_conv)
  moreover have "list_all (\<lambda>m. \<exists>ev. message_for p ev m \<and> stored t ev) ms'" using ms'(3) assms(3) by (auto simp: list_all_iff)
  ultimately show ?thesis using ms'(1) by blast
qed

lemma route_step_ok:
  assumes pg: "postgres pool table jsonb to_char" and mq: "amqp_broker conn view handed" and fr: "failed_row_exact table fr"
    and ok: "table_ok (table db)" and st: "stage_ok p (table db) ms st"
    and step: "route_step (program_deps pool fr conn p) ctx r st db q = (st', db', q')"
  shows "\<exists>ms'. handed q' = handed q @ ms' \<and> step_ok p jsonb (table db) (table db') ms ms' st'"
proof (cases st)
  case (Saving ev)
  obtain res where sv: "SaveEvent pool ctx ev db = (res, db')" and "q' = q"
    and st': "st' = (if res = None then Announcing ev else Replied 500 [])"
    using step Saving by (auto split: prod.splits option.splits)
  have u: "uuid_text (ID ev)" using st Saving by simp
  from postgres.SaveEvent_law [OF pg sv u] have "table_step jsonb (table db) (table db')"
    "res = None \<Longrightarrow> stored (table db') ev" using u by (auto simp: table_step_def stored_def saves_has_idem)
  then show ?thesis using \<open>q' = q\<close> st' by (auto simp: step_ok_def)
next
  case (Announcing ev)
  obtain res where pb: "Publish conn p ctx ev q = (res, q')" and "db' = db"
    and st': "st' = (if res = None then Replied 202 [ID ev] else Replied 500 [])"
    using step Announcing by (auto split: prod.splits option.splits)
  have sto: "stored (table db) ev" using st Announcing by simp
  from step_ok_publish [OF mq pb sto] obtain ms' where "handed q' = handed q @ ms'"
    "list_all (\<lambda>m. \<exists>ev. message_for p ev m \<and> stored (table db) ev) ms'" "res = None \<longrightarrow> (\<exists>m \<in> set ms'. message_for p ev m)" by blast
  then show ?thesis using sto \<open>db' = db\<close> st' by (auto simp: step_ok_def table_step_def)
next
  case Selecting
  with step replayed_stored [OF pg fr ok] show ?thesis
    by (auto simp: step_ok_def table_step_def split: sum.splits)
next
  case (Resetting evs ids)
  show ?thesis
  proof (cases evs)
    case (Cons ev rest)
    obtain res where u: "UpdateEventStatus pool ctx (ID ev) ''pending'' '''' db = (res, db')" and "q' = q"
      and st': "st' = (if res = None then Requeueing ev rest ids else Resetting rest ids)"
      using step Resetting Cons by (auto split: prod.splits option.splits)
    have all: "list_all (stored (table db)) evs" using st Resetting by simp
    then have "table_step jsonb (table db) (table db')"
      using postgres.UpdateEventStatus_law [OF pg u] Cons by (auto simp: table_step_def stored_def)
    moreover from stored_mono [OF table_step_keeps(1) [OF this]] all have "list_all (stored (table db')) evs" by (auto simp: list_all_iff)
    ultimately show ?thesis using \<open>q' = q\<close> st' Cons by (auto simp: step_ok_def)
  qed (use step Resetting in \<open>auto simp: step_ok_def table_step_def\<close>)
next
  case (Requeueing ev evs ids)
  obtain res where pb: "Publish conn p ctx (ev\<lparr>Status := ''pending''\<rparr>) q = (res, q')" and "db' = db"
    and st': "st' = Resetting evs (if res = None then ids @ [ID ev] else ids)"
    using step Requeueing by (auto split: prod.splits option.splits)
  have "stored (table db) (ev\<lparr>Status := ''pending''\<rparr>)" using st Requeueing by simp
  from step_ok_publish [OF mq pb this] obtain ms' where "handed q' = handed q @ ms'"
    "list_all (\<lambda>m. \<exists>ev. message_for p ev m \<and> stored (table db) ev) ms'" by blast
  then show ?thesis using st Requeueing \<open>db' = db\<close> st' by (auto simp: step_ok_def table_step_def)
next
  case (Replied code ids)
  with step st show ?thesis by (auto simp: step_ok_def table_step_def)
qed

subsection \<open>Schedules\<close>

lemma pipe_do_reach: "event_ids_ok e \<Longrightarrow> (pipe_step deps)\<^sup>*\<^sup>* s (pipe_do deps e s)"
proof (cases e)
  case (Run n ctx)
  show ?thesis
  proof (cases "n < length (x_tasks s)")
    case True
    obtain r st where task: "x_tasks s ! n = (r, st)" by fastforce
    obtain st' db q where step: "route_step deps ctx r st (x_db s) (x_mq s) = (st', db, q)" by (metis prod_cases3)
    have "x_tasks s = take n (x_tasks s) @ (r, st) # drop (Suc n) (x_tasks s)"
      using id_take_nth_drop [OF True] task by simp
    from pipe_step.proceed [OF this step] True show ?thesis by (auto simp: Run task step upd_conv_take_nth_drop)
  qed (simp add: Run)
next
  case (Outcome i status msg)
  assume "event_ids_ok e"
  with Outcome have "uuid_text i" by simp
  from pipe_step.outcome [OF this prod.collapse [symmetric]] have "pipe_step deps s (pipe_do deps e s)" by (simp add: Outcome)
  then show ?thesis by (rule r_into_rtranclp)
qed (auto intro: pipe_step.intros r_into_rtranclp)

lemma pipe_run_reach: "list_all event_ids_ok es \<Longrightarrow> (pipe_step deps)\<^sup>*\<^sup>* s (fold (pipe_do deps) es s)"
proof (induction es arbitrary: s)
  case (Cons e es)
  then show ?case using pipe_do_reach [of e deps s] by (auto intro: rtranclp_trans simp del: pipe_do.simps)
qed simp

lemma tasks_mono:
  "keeps_rows t t' \<Longrightarrow> list_all (\<lambda>(r, st). stage_ok p t ms st) ts \<Longrightarrow> list_all (\<lambda>(r, st). stage_ok p t' (ms @ ms') st) ts"
  by (auto simp: list_all_iff intro: stage_ok_mono)

subsection \<open>Every step keeps the invariant\<close>

lemma pipe_step_effect:
  assumes pg: "postgres pool table jsonb to_char" and mq: "amqp_broker conn view handed" and fr: "failed_row_exact table fr"
    and ok: "table_ok (table (x_db s))" and tasks: "list_all (\<lambda>(r, st). stage_ok p (table (x_db s)) ms st) (x_tasks s)"
    and step: "pipe_step (program_deps pool fr conn p) s s'"
  shows "\<exists>ms'. table_step jsonb (table (x_db s)) (table (x_db s')) \<and> handed (x_mq s') = handed (x_mq s) @ ms' \<and>
      list_all (\<lambda>m. \<exists>ev. message_for p ev m \<and> stored (table (x_db s')) ev) ms' \<and>
      list_all (\<lambda>(r, st). stage_ok p (table (x_db s')) (ms @ ms') st) (x_tasks s')"
  using step
proof (cases rule: pipe_step.cases)
  case (webhook env r)
  then have "stage_ok p (table (x_db s)) ms (webhook_begin env r)" by (auto simp: webhook_begin_def split: sum.splits)
  with webhook tasks show ?thesis by (auto simp: table_step_def)
next
  case (replay r)
  have "stage_ok p (table (x_db s)) ms (replay_begin r)" by (simp add: replay_begin_def)
  with replay tasks show ?thesis by (auto simp: table_step_def)
next
  case (proceed us r st vs ctx st' db' q')
  have "stage_ok p (table (x_db s)) ms st" using tasks proceed(2) by simp
  from route_step_ok [OF pg mq fr ok this proceed(3)] obtain ms' where
    q: "handed q' = handed (x_mq s) @ ms'" and so: "step_ok p jsonb (table (x_db s)) (table db') ms ms' st'" by blast
  have "keeps_rows (table (x_db s)) (table db')" using so unfolding step_ok_def by (blast intro: table_step_keeps(1))
  from tasks_mono [OF this, of p ms "us @ vs" ms'] tasks proceed(2)
  have "list_all (\<lambda>(r, st). stage_ok p (table db') (ms @ ms') st) (us @ vs)" by simp
  with q so proceed(1) show ?thesis by (auto simp: step_ok_def)
next
  case (outcome i ctx status msg res db')
  have ts: "table_step jsonb (table (x_db s)) (table db')"
    using postgres.UpdateEventStatus_law [OF pg] outcome(2,3) by (fastforce simp: table_step_def)
  from tasks_mono [OF table_step_keeps(1) [OF this] tasks, of "[]"] ts outcome(1) show ?thesis by auto
qed

lemma pipe_inv_step:
  assumes "postgres pool table jsonb to_char" and "amqp_broker conn view handed" and "failed_row_exact table fr"
    and inv: "pipe_inv table handed p d0 q0 s" and "pipe_step (program_deps pool fr conn p) s s'"
  shows "pipe_inv table handed p d0 q0 s'"
proof -
  let ?t = "table (x_db s)" and ?t' = "table (x_db s')"
  from inv obtain ms where base: "table_ok ?t" "idem_unique ?t" "keeps_rows (table d0) ?t"
    and ms: "handed (x_mq s) = handed q0 @ ms" "list_all (\<lambda>m. \<exists>ev. message_for p ev m \<and> stored ?t ev) ms"
    and tasks: "list_all (\<lambda>(r, st). stage_ok p ?t ms st) (x_tasks s)" unfolding pipe_inv_def by blast
  from pipe_step_effect [OF assms(1-3) base(1) tasks assms(5)]
  obtain ms' where new: "table_step jsonb ?t ?t'" "handed (x_mq s') = handed (x_mq s) @ ms'"
    "list_all (\<lambda>m. \<exists>ev. message_for p ev m \<and> stored ?t' ev) ms'"
    "list_all (\<lambda>(r, st). stage_ok p ?t' (ms @ ms') st) (x_tasks s')" by blast
  note keeps = table_step_keeps [OF new(1)]
  have "list_all (\<lambda>m. \<exists>ev. message_for p ev m \<and> stored ?t' ev) (ms @ ms')"
    using ms(2) new(3) stored_mono [OF keeps(1)] by (fastforce simp: list_all_iff)
  moreover have "keeps_rows (table d0) ?t'" by (rule keeps_rows_trans [OF base(3) keeps(1)])
  ultimately show ?thesis using new(2,4) base keeps ms(1) unfolding pipe_inv_def by (intro conjI exI [of _ "ms @ ms'"]) simp_all
qed

lemma pipe_inv_reach:
  assumes "postgres pool table jsonb to_char" and "amqp_broker conn view handed" and "failed_row_exact table fr"
    and "table_ok (table d0)" and "idem_unique (table d0)"
    and "(pipe_step (program_deps pool fr conn p))\<^sup>*\<^sup>* (pipe_start d0 q0) s"
  shows "pipe_inv table handed p d0 q0 s"
  using assms(6)
proof (induction rule: rtranclp_induct)
  case base
  with assms(4,5) show ?case by (simp add: pipe_inv_def pipe_start_def)
next
  case (step s s')
  from pipe_inv_step [OF assms(1-3) step.IH step.hyps(2)] show ?case .
qed

section \<open>Properties\<close>


text \<open>A failed event that two replays of its owner select before either resets it.\<close>

definition replay_db :: ref_db where
  "replay_db = ([(uuid_a, sample_row ''failed'')], 0)"

definition failed_event :: WebhookEvent where
  "failed_event = (sample_event uuid_a ''k'')\<lparr>Status := ''failed''\<rparr>"

definition replay_message :: "string \<times> string \<times> Publishing" where
  "replay_message = queue_message \<lparr>channel = 1, queueName = ''webhook_queue''\<rparr>
     (print_json (JObj (event_fields (failed_event\<lparr>Status := ''pending''\<rparr>) (JObj []))))"

definition replay_schedule :: "pipe_event list" where
  "replay_schedule = [Replay (sample_auth_req ''''), Replay (sample_auth_req ''''), Run 0 False, Run 1 False,
     Run 1 False, Run 1 False, Outcome uuid_a ''success'' '''']"

lemma replay_selects:
  "failed_to_replay sample_deps (sample_auth_req ''''\<lparr>CtxCancelled := False\<rparr>) ''acme'' replay_db = Inr [failed_event]"
  by (simp add: failed_to_replay_def sample_deps_def replay_db_def store_eval sample_row_def failed_row_event_def
      failed_event_def sample_event_def zero_event_def)

lemma replay_publishes:
  "dep_publish sample_deps False (failed_event\<lparr>Status := ''pending''\<rparr>) (t, h) = (None, t, h @ [replay_message])"
proof -
  have "Payload (failed_event\<lparr>Status := ''pending''\<rparr>) = ''{}''" by (simp add: failed_event_def sample_event_def)
  from marshal_sample [OF this] show ?thesis
    by (simp add: sample_deps_def Publish_def ref_conn_def replay_message_def queue_message_def del: print_json.simps)
qed

lemma replay_updates:
  "es_UpdateEventStatus (dep_store sample_deps) False uuid_a st '''' replay_db =
     (None, [(uuid_a, sample_row st), (uuid_a, sample_row ''failed'')], 1)"
  "es_UpdateEventStatus (dep_store sample_deps) False uuid_a st '''' ((uuid_a, sample_row st0) # rows, n) =
     (None, (uuid_a, sample_row st) # (uuid_a, sample_row st0) # rows, n + 1)"
  by (simp_all add: sample_deps_def UpdateEventStatus_def ref_pool_def replay_db_def sample_row_def)

lemma failed_event_ID [simp]: "ID failed_event = uuid_a"
  by (simp add: failed_event_def sample_event_def)

lemmas replay_eval = pipe_start_def replay_begin_def replay_selects replay_publishes replay_updates ref_broker0_def

text \<open>Both select the event; the second resets and publishes it, and a worker delivers it.\<close>

lemma replay_first:
  "fold (pipe_do sample_deps) replay_schedule (pipe_start replay_db ref_broker0) =
     \<lparr>x_db = ([(uuid_a, sample_row ''success''), (uuid_a, sample_row ''pending''), (uuid_a, sample_row ''failed'')], 2),
      x_mq = (fst ref_broker0, [replay_message]),
      x_tasks = [(sample_auth_req '''', Resetting [failed_event] []), (sample_auth_req '''', Resetting [] [uuid_a])]\<rparr>"
  by (simp add: replay_schedule_def replay_eval)

lemma replay_second:
  "\<exists>d. fold (pipe_do sample_deps) [Run 0 False, Run 0 False, Run 0 False, Run 1 False]
     (fold (pipe_do sample_deps) replay_schedule (pipe_start replay_db ref_broker0)) =
     \<lparr>x_db = ((uuid_a, sample_row ''pending'') # d, 3), x_mq = (fst ref_broker0, [replay_message, replay_message]),
      x_tasks = [(sample_auth_req '''', Replied 200 [uuid_a]), (sample_auth_req '''', Replied 200 [uuid_a])]\<rparr>"
  by (simp only: replay_first) (simp add: replay_eval)


lemma ref_failed_row_exact: "failed_row_exact ref_table ref_failed_row"
  unfolding failed_row_exact_def ref_failed_row_def by (auto split: option.splits if_splits)


end
