(* ===== verification/Circuit_Breaker.thy ===== *)
theory Circuit_Breaker
  imports Shield_Metrics
begin

text \<open>
  The circuit breaker (\<^verbatim>\<open>src/internal/circuitbreaker/circuitbreaker.go\<close>): one state
  machine per target URL. \<open>urlStates\<close> maps a URL to its machine; an entry is created on
  first use and never removed, so the pointer is the entry itself. The methods take the
  clock reading and thread the metrics and the world \<open>'w\<close> that the registered callback
  changes. Each method changes a machine under that machine's lock and calls the callback
  after releasing it: \<open>cb_step\<close> is the interleaving of both.

  The theory shows that every machine refines the three-state specification \<open>spec_op\<close>,
  for any interleaving, and derives when a breaker opens, how long it blocks, which
  transitions exist and what the trip counter counts.
\<close>

section \<open>Definitions\<close>

text \<open>The constants are the only values of the type, so \<^verbatim>\<open>String\<close>'s default is not reached.\<close>

datatype State = StateClosed | StateOpen | StateHalfOpen

fun State_String :: "State \<Rightarrow> string" where
  "State_String StateClosed = ''Closed''"
| "State_String StateOpen = ''Open''"
| "State_String StateHalfOpen = ''Half-Open''"

record urlState =
  state :: State
  failures :: int
  lastFailure :: gotime

type_synonym 'w change_fn = "string \<Rightarrow> State \<Rightarrow> int \<Rightarrow> gotime \<Rightarrow> 'w \<Rightarrow> 'w"

record 'w URLCircuitBreaker =
  maxFailures :: int
  openTimeout :: duration
  urlStates :: "string \<rightharpoonup> urlState"
  onStateChange :: "'w change_fn option"

definition NewURLCircuitBreaker :: "int \<Rightarrow> duration \<Rightarrow> 'w URLCircuitBreaker" where
  "NewURLCircuitBreaker maxF timeout =
     \<lparr>maxFailures = maxF, openTimeout = timeout, urlStates = Map.empty, onStateChange = None\<rparr>"

definition new_urlState :: urlState where
  "new_urlState = \<lparr>state = StateClosed, failures = 0, lastFailure = zero_time\<rparr>"

definition getURLState :: "'w URLCircuitBreaker \<Rightarrow> string \<Rightarrow> urlState \<times> 'w URLCircuitBreaker" where
  "getURLState cb url =
     (case urlStates cb url of
        Some st \<Rightarrow> (st, cb)
      | None \<Rightarrow> (new_urlState, cb\<lparr>urlStates := (urlStates cb)(url \<mapsto> new_urlState)\<rparr>))"

definition OnStateChange :: "'w change_fn \<Rightarrow> 'w URLCircuitBreaker \<Rightarrow> 'w URLCircuitBreaker" where
  "OnStateChange fn cb = cb\<lparr>onStateChange := Some fn\<rparr>"

definition triggerChange ::
  "'w URLCircuitBreaker \<Rightarrow> string \<Rightarrow> State \<Rightarrow> int \<Rightarrow> gotime \<Rightarrow> 'w \<Rightarrow> 'w" where
  "triggerChange cb url st fails lastFail w =
     (case onStateChange cb of None \<Rightarrow> w | Some fn \<Rightarrow> fn url st fails lastFail w)"

text \<open>Writing a machine back through its pointer.\<close>

definition put_state :: "string \<Rightarrow> urlState \<Rightarrow> 'w URLCircuitBreaker \<Rightarrow> 'w URLCircuitBreaker" where
  "put_state url st cb = cb\<lparr>urlStates := (urlStates cb)(url \<mapsto> st)\<rparr>"

type_synonym 'w cb_world = "'w URLCircuitBreaker \<times> Metrics \<times> 'w"

definition Allow :: "gotime \<Rightarrow> string \<Rightarrow> 'w cb_world \<Rightarrow> bool \<times> 'w cb_world" where
  "Allow now url s =
     (let (cb, m, w) = s;
          (st, cb1) = getURLState cb url;
          oldState = state st;
          (allowed, st') =
            (if state st = StateOpen then
               (if time_since now (lastFailure st) \<ge> openTimeout cb
                then (True, st\<lparr>state := StateHalfOpen\<rparr>) else (False, st))
             else (True, st));
          cb2 = put_state url st' cb1;
          w' = (if oldState \<noteq> state st'
                then triggerChange cb2 url (state st') (failures st') (lastFailure st') w else w)
      in (allowed, cb2, m, w'))"

definition RecordSuccess :: "string \<Rightarrow> 'w cb_world \<Rightarrow> 'w cb_world" where
  "RecordSuccess url s =
     (let (cb, m, w) = s;
          (st, cb1) = getURLState cb url;
          oldState = state st;
          st1 = (if state st = StateHalfOpen then st\<lparr>state := StateClosed\<rparr> else st);
          st' = st1\<lparr>failures := 0\<rparr>;
          cb2 = put_state url st' cb1;
          w' = (if oldState \<noteq> state st'
                then triggerChange cb2 url (state st') 0 (lastFailure st') w else w)
      in (cb2, m, w'))"

definition RecordFailure :: "gotime \<Rightarrow> string \<Rightarrow> 'w cb_world \<Rightarrow> 'w cb_world" where
  "RecordFailure now url s =
     (let (cb, m, w) = s;
          (st, cb1) = getURLState cb url;
          oldState = state st;
          st1 = st\<lparr>failures := i64 (failures st + 1), lastFailure := now\<rparr>;
          (st', m') =
            (if (state st1 = StateHalfOpen \<or> failures st1 \<ge> maxFailures cb) \<and> state st1 \<noteq> StateOpen
             then (st1\<lparr>state := StateOpen\<rparr>, inc_trips url m) else (st1, m));
          cb2 = put_state url st' cb1;
          w' = (if oldState \<noteq> state st' \<or> state st' = StateOpen
                then triggerChange cb2 url (state st') (failures st') (lastFailure st') w else w)
      in (cb2, m', w'))"

definition State_of :: "gotime \<Rightarrow> string \<Rightarrow> 'w cb_world \<Rightarrow> State \<times> 'w cb_world" where
  "State_of now url s =
     (let (cb, m, w) = s;
          (st, cb1) = getURLState cb url;
          oldState = state st;
          st' = (if state st = StateOpen \<and> time_since now (lastFailure st) \<ge> openTimeout cb
                 then st\<lparr>state := StateHalfOpen\<rparr> else st);
          cb2 = put_state url st' cb1;
          w' = (if oldState \<noteq> state st'
                then triggerChange cb2 url (state st') (failures st') (lastFailure st') w else w)
      in (state st', cb2, m, w'))"

record BreakerInfo =
  TargetURL :: string
  BreakerState :: string
  ConsecutiveFailures :: int
  NextRetryAt :: gotime

text \<open>
  \<^verbatim>\<open>GetBreakers\<close> ranges over the map: \<open>order\<close> is the order Go's iteration takes, with the
  clock reading at each entry.
\<close>

definition breaker_info :: "duration \<Rightarrow> gotime \<Rightarrow> string \<Rightarrow> urlState \<Rightarrow> BreakerInfo" where
  "breaker_info timeout now url st =
     (let actualState = (if state st = StateOpen \<and> time_since now (lastFailure st) > timeout
                         then StateHalfOpen else state st);
          nextRetry = (if state st = StateOpen then lastFailure st + timeout else zero_time)
      in \<lparr>TargetURL = url, BreakerState = State_String actualState,
          ConsecutiveFailures = failures st, NextRetryAt = nextRetry\<rparr>)"

fun GetBreakers :: "(string \<times> gotime) list \<Rightarrow> 'w URLCircuitBreaker \<Rightarrow> BreakerInfo list" where
  "GetBreakers [] cb = []"
| "GetBreakers ((url, now) # order) cb =
     (case urlStates cb url of
        None \<Rightarrow> GetBreakers order cb
      | Some st \<Rightarrow> breaker_info (openTimeout cb) now url st # GetBreakers order cb)"

subsection \<open>Runs and interleavings\<close>

datatype cb_op = OpAllow | OpSuccess | OpFailure | OpState

fun cb_apply :: "cb_op \<Rightarrow> gotime \<Rightarrow> string \<Rightarrow> 'w cb_world \<Rightarrow> 'w cb_world" where
  "cb_apply OpAllow now url s = snd (Allow now url s)"
| "cb_apply OpSuccess now url s = RecordSuccess url s"
| "cb_apply OpFailure now url s = RecordFailure now url s"
| "cb_apply OpState now url s = snd (State_of now url s)"

fun cb_run :: "(cb_op \<times> gotime \<times> string) list \<Rightarrow> 'w cb_world \<Rightarrow> 'w cb_world" where
  "cb_run [] s = s"
| "cb_run ((op, now, url) # ops) s = cb_run ops (cb_apply op now url s)"

text \<open>
  Goroutines call the methods concurrently. A method's critical section is one step; the
  callback it owes is then pending, and runs later, in any order with the callbacks and
  the critical sections of others. \<open>fn\<close> is the registered callback.
\<close>

type_synonym change = "string \<times> State \<times> int \<times> gotime"

definition enqueue :: "change list change_fn" where
  "enqueue url st fails lastFail p = p @ [(url, st, fails, lastFail)]"

type_synonym 'w cb_sys = "change list URLCircuitBreaker \<times> Metrics \<times> change list \<times> 'w"

inductive cb_step :: "'w change_fn \<Rightarrow> 'w cb_sys \<Rightarrow> 'w cb_sys \<Rightarrow> bool" for fn where
  locked: "cb_apply op now url (cb, m, p) = (cb', m', p') \<Longrightarrow>
     cb_step fn (cb, m, p, w) (cb', m', p', w)"
| callback: "cb_step fn (cb, m, p1 @ (url, st, fails, lastFail) # p2, w)
     (cb, m, p1 @ p2, fn url st fails lastFail w)"

inductive cb_reach :: "'w change_fn \<Rightarrow> int \<Rightarrow> duration \<Rightarrow> 'w \<Rightarrow> 'w cb_sys \<Rightarrow> bool" for fn maxF timeout w0 where
  start: "cb_reach fn maxF timeout w0
     (OnStateChange enqueue (NewURLCircuitBreaker maxF timeout), new_metrics, [], w0)"
| step: "cb_reach fn maxF timeout w0 s \<Longrightarrow> cb_step fn s s' \<Longrightarrow> cb_reach fn maxF timeout w0 s'"

subsection \<open>The specification\<close>

text \<open>Closed with a number of consecutive failures, open since a time, or half-open.\<close>

datatype breaker = Closed int | Open gotime | HalfOpen

fun spec_op :: "int \<Rightarrow> duration \<Rightarrow> cb_op \<Rightarrow> gotime \<Rightarrow> breaker \<Rightarrow> breaker" where
  "spec_op maxF timeout OpSuccess now (Closed n) = Closed 0"
| "spec_op maxF timeout OpSuccess now (Open t) = Open t"
| "spec_op maxF timeout OpSuccess now HalfOpen = Closed 0"
| "spec_op maxF timeout OpFailure now (Closed n) = (if maxF \<le> n + 1 then Open now else Closed (n + 1))"
| "spec_op maxF timeout OpFailure now (Open t) = Open now"
| "spec_op maxF timeout OpFailure now HalfOpen = Open now"
| "spec_op maxF timeout _ now (Open t) = (if timeout \<le> time_since now t then HalfOpen else Open t)"
| "spec_op maxF timeout _ now b = b"

fun spec_run :: "int \<Rightarrow> duration \<Rightarrow> (cb_op \<times> gotime \<times> string) list \<Rightarrow> string \<Rightarrow> breaker \<Rightarrow> breaker" where
  "spec_run maxF timeout [] url b = b"
| "spec_run maxF timeout ((op, now, u) # ops) url b =
     spec_run maxF timeout ops url (if u = url then spec_op maxF timeout op now b else b)"

definition abs_state :: "urlState \<Rightarrow> breaker" where
  "abs_state st =
     (case state st of
        StateClosed \<Rightarrow> Closed (failures st)
      | StateOpen \<Rightarrow> Open (lastFailure st)
      | StateHalfOpen \<Rightarrow> HalfOpen)"

definition breaker_of :: "'w URLCircuitBreaker \<Rightarrow> string \<Rightarrow> breaker" where
  "breaker_of cb url = (case urlStates cb url of None \<Rightarrow> Closed 0 | Some st \<Rightarrow> abs_state st)"

text \<open>The invariant of a machine: a closed one has counted fewer failures than trip it.\<close>

definition us_ok :: "int \<Rightarrow> urlState \<Rightarrow> bool" where
  "us_ok maxF st \<longleftrightarrow> in_i64 (failures st) \<and>
     (state st = StateClosed \<longrightarrow> 0 \<le> failures st \<and> failures st < max 1 maxF)"

definition cb_ok :: "'w URLCircuitBreaker \<Rightarrow> bool" where
  "cb_ok cb \<longleftrightarrow> in_i64 (maxFailures cb) \<and> in_i64 (openTimeout cb) \<and>
     (\<forall>url st. urlStates cb url = Some st \<longrightarrow> us_ok (maxFailures cb) st)"

text \<open>What a method does to a machine while it holds the lock.\<close>

fun us_op :: "int \<Rightarrow> duration \<Rightarrow> cb_op \<Rightarrow> gotime \<Rightarrow> urlState \<Rightarrow> urlState" where
  "us_op maxF timeout OpSuccess now st =
     st\<lparr>state := (if state st = StateHalfOpen then StateClosed else state st), failures := 0\<rparr>"
| "us_op maxF timeout OpFailure now st =
     st\<lparr>state := (if state st = StateHalfOpen \<or> maxF \<le> i64 (failures st + 1) then StateOpen else state st),
        failures := i64 (failures st + 1), lastFailure := now\<rparr>"
| "us_op maxF timeout _ now st =
     st\<lparr>state := (if state st = StateOpen \<and> timeout \<le> time_since now (lastFailure st) then StateHalfOpen
                  else state st)\<rparr>"

definition trips :: "urlState \<Rightarrow> urlState \<Rightarrow> bool" where
  "trips st st' \<longleftrightarrow> state st \<noteq> StateOpen \<and> state st' = StateOpen"

definition notifies :: "cb_op \<Rightarrow> urlState \<Rightarrow> urlState \<Rightarrow> bool" where
  "notifies op st st' \<longleftrightarrow> state st \<noteq> state st' \<or> (op = OpFailure \<and> state st' = StateOpen)"

definition machine :: "'w URLCircuitBreaker \<Rightarrow> string \<Rightarrow> urlState" where
  "machine cb url = (case urlStates cb url of None \<Rightarrow> new_urlState | Some st \<Rightarrow> st)"

inductive legal :: "State \<Rightarrow> State \<Rightarrow> bool" where
  legal_refl: "legal s s"
| legal_trip: "legal StateClosed StateOpen"
| legal_probe: "legal StateOpen StateHalfOpen"
| legal_close: "legal StateHalfOpen StateClosed"
| legal_reopen: "legal StateHalfOpen StateOpen"

inductive_simps legal_simps [simp]:
  "legal StateOpen s" "legal StateClosed s" "legal StateHalfOpen s"

section \<open>Lemmas\<close>

lemma urlState_eqI: "state a = state b \<Longrightarrow> failures a = failures b \<Longrightarrow> lastFailure a = lastFailure b \<Longrightarrow> a = (b :: urlState)"
  by (cases a; cases b) simp

lemma getURLState_machine [simp]: "fst (getURLState cb url) = machine cb url"
  by (simp add: getURLState_def machine_def split: option.splits)

lemma put_getURLState [simp]: "put_state url st (snd (getURLState cb url)) = put_state url st cb"
  by (simp add: getURLState_def put_state_def split: option.splits)

lemma put_state_sel [simp]:
  "maxFailures (put_state url st cb) = maxFailures cb" "openTimeout (put_state url st cb) = openTimeout cb"
  "onStateChange (put_state url st cb) = onStateChange cb"
  "urlStates (put_state url st cb) = (urlStates cb)(url \<mapsto> st)"
  by (simp_all add: put_state_def)

lemma machine_put [simp]: "machine (put_state url st cb) u = (if u = url then st else machine cb u)"
  by (simp add: machine_def)

lemma triggerChange_put [simp]: "triggerChange (put_state url st cb) = triggerChange cb"
  by (simp add: triggerChange_def fun_eq_iff)

lemma breaker_of_machine: "breaker_of cb url = abs_state (machine cb url)"
  by (simp add: breaker_of_def machine_def abs_state_def new_urlState_def split: option.splits)

lemma getURLStateE:
  obtains cb1 where "getURLState cb url = (machine cb url, cb1)"
    and "\<And>st. put_state url st cb1 = put_state url st cb" and "triggerChange cb1 = triggerChange cb"
  by (rule that [of "snd (getURLState cb url)"])
    (simp_all add: prod_eq_iff, simp add: getURLState_def triggerChange_def fun_eq_iff split: option.splits)

text \<open>Every method in one shape: locked change, trip counter, callback.\<close>

lemma cb_apply_eq:
  "cb_apply op now url (cb, m, w) =
     (let st = machine cb url; st' = us_op (maxFailures cb) (openTimeout cb) op now st
      in (put_state url st' cb, if trips st st' then inc_trips url m else m,
          if notifies op st st' then triggerChange cb url (state st') (failures st') (lastFailure st') w else w))"
proof -
  obtain cb1 where g: "getURLState cb url = (machine cb url, cb1)"
    and p: "\<And>st. put_state url st cb1 = put_state url st cb" "triggerChange cb1 = triggerChange cb"
    by (rule getURLStateE) blast
  obtain s f l where mc: "machine cb url = \<lparr>state = s, failures = f, lastFailure = l\<rparr>"
    by (cases "machine cb url")
  note defs = Allow_def RecordSuccess_def RecordFailure_def State_of_def trips_def notifies_def
  show ?thesis
    by (cases op; cases s) (simp_all add: defs g p mc Let_def)
qed

lemma Allow_result: "fst (Allow now url (cb, m, w)) \<longleftrightarrow>
  \<not> (state (machine cb url) = StateOpen \<and> time_since now (lastFailure (machine cb url)) < openTimeout cb)"
  by (rule getURLStateE [of cb url]) (simp add: Allow_def Let_def not_less)

lemma State_of_result: "fst (State_of now url (cb, m, w)) =
  state (us_op (maxFailures cb) (openTimeout cb) OpState now (machine cb url))"
  by (rule getURLStateE [of cb url]) (simp add: State_of_def Let_def)

lemma closed_no_overflow:
  "us_ok maxF st \<Longrightarrow> in_i64 maxF \<Longrightarrow> state st = StateClosed \<Longrightarrow> i64 (failures st + 1) = failures st + 1"
  by (rule i64_id) (auto simp: us_ok_def in_i64_def)

lemma us_op_ok:
  assumes "us_ok maxF st" and "in_i64 maxF"
  shows "us_ok maxF (us_op maxF timeout op now st)"
proof (cases op)
  case OpFailure
  with assms show ?thesis
    using closed_no_overflow [OF assms] in_i64_i64 [of "failures st + 1"]
    by (cases "state st") (auto simp: us_ok_def)
next
  case OpSuccess
  with assms show ?thesis by (auto simp: us_ok_def in_i64_def)
qed (use assms in \<open>auto simp: us_ok_def\<close>)

lemma us_op_refines:
  assumes "us_ok maxF st" and "in_i64 maxF"
  shows "abs_state (us_op maxF timeout op now st) = spec_op maxF timeout op now (abs_state st)"
  using closed_no_overflow [OF assms] by (cases op; cases "state st") (auto simp: abs_state_def)

lemma machine_ok: "cb_ok cb \<Longrightarrow> us_ok (maxFailures cb) (machine cb url)"
  by (auto simp: cb_ok_def machine_def us_ok_def new_urlState_def in_i64_def split: option.splits)

lemma cb_apply_sel:
  assumes "cb_apply op now url (cb, m, w) = (cb', m', w')"
  shows "cb' = put_state url (us_op (maxFailures cb) (openTimeout cb) op now (machine cb url)) cb"
    and "m' = (if trips (machine cb url) (machine cb' url) then inc_trips url m else m)"
  using assms by (auto simp: cb_apply_eq Let_def)

lemma cb_apply_ok:
  assumes "cb_apply op now url (cb, m, w) = (cb', m', w')" and "cb_ok cb"
  shows "cb_ok cb'" and "maxFailures cb' = maxFailures cb" and "openTimeout cb' = openTimeout cb"
    and "onStateChange cb' = onStateChange cb"
  using us_op_ok [OF machine_ok [OF assms(2), of url]] assms(2)
  by (auto simp: cb_apply_sel(1) [OF assms(1)] cb_ok_def)

lemma cb_apply_refines:
  assumes "cb_apply op now url (cb, m, w) = (cb', m', w')" and "cb_ok cb"
  shows "breaker_of cb' u =
    (if u = url then spec_op (maxFailures cb) (openTimeout cb) op now (breaker_of cb u) else breaker_of cb u)"
  using us_op_refines [OF machine_ok [OF assms(2), of url]] assms(2)
  by (auto simp: cb_apply_sel(1) [OF assms(1)] breaker_of_machine cb_ok_def)

lemma spec_run_append:
  "spec_run maxF timeout (xs @ ys) url b = spec_run maxF timeout ys url (spec_run maxF timeout xs url b)"
  by (induction xs arbitrary: b) auto

lemma cb_run_refines:
  assumes "cb_ok cb" and "cb_run ops (cb, m, w) = (cb', m', w')"
  shows "cb_ok cb' \<and> maxFailures cb' = maxFailures cb \<and> openTimeout cb' = openTimeout cb \<and>
    breaker_of cb' url = spec_run (maxFailures cb) (openTimeout cb) ops url (breaker_of cb url)"
  using assms
proof (induction ops arbitrary: cb m w)
  case Nil
  then show ?case by simp
next
  case (Cons x ops)
  obtain op now u where x: "x = (op, now, u)" by (metis prod_cases3)
  obtain cb1 m1 w1 where step: "cb_apply op now u (cb, m, w) = (cb1, m1, w1)" by (metis prod_cases3)
  note ok = cb_apply_ok [OF step Cons.prems(1)]
  from Cons.prems(2) x step have "cb_run ops (cb1, m1, w1) = (cb', m', w')" by simp
  from Cons.IH [OF ok(1) this] ok cb_apply_refines [OF step Cons.prems(1), of url] x
  show ?case by (auto simp: eq_commute [of url])
qed

lemma cb_ok_new: "in_i64 maxF \<Longrightarrow> in_i64 timeout \<Longrightarrow> cb_ok (NewURLCircuitBreaker maxF timeout)"
  by (simp add: cb_ok_def NewURLCircuitBreaker_def)

lemma cb_ok_OnStateChange [simp]: "cb_ok (OnStateChange fn cb) = cb_ok cb"
  by (simp add: cb_ok_def OnStateChange_def)

lemma breaker_of_OnStateChange [simp]: "breaker_of (OnStateChange fn cb) = breaker_of cb"
  by (simp add: breaker_of_def OnStateChange_def fun_eq_iff)

lemma breaker_of_new [simp]: "breaker_of (NewURLCircuitBreaker maxF timeout) url = Closed 0"
  by (simp add: breaker_of_def NewURLCircuitBreaker_def)

lemma new_sel [simp]:
  "maxFailures (NewURLCircuitBreaker maxF timeout) = maxF" "openTimeout (NewURLCircuitBreaker maxF timeout) = timeout"
  "maxFailures (OnStateChange fn cb) = maxFailures cb" "openTimeout (OnStateChange fn cb) = openTimeout cb"
  by (simp_all add: NewURLCircuitBreaker_def OnStateChange_def)

subsection \<open>Facts of the specification\<close>

definition blocked :: "duration \<Rightarrow> gotime \<Rightarrow> breaker \<Rightarrow> bool" where
  "blocked timeout now b = (case b of Open t \<Rightarrow> time_since now t < timeout | _ \<Rightarrow> False)"

lemma Allow_blocked: "fst (Allow now url (cb, m, w)) \<longleftrightarrow> \<not> blocked (openTimeout cb) now (breaker_of cb url)"
  by (simp add: Allow_result blocked_def breaker_of_machine abs_state_def split: State.splits)

lemma time_since_less: "now - t < d \<Longrightarrow> in_i64 d \<Longrightarrow> t \<le> now \<Longrightarrow> time_since now t < d"
  by (auto simp: time_since_def in_i64_def)

lemma spec_stays_open:
  assumes "in_i64 timeout" and "t0 \<le> t" and "\<forall>(op, now, u) \<in> set ops. u = url \<longrightarrow> t0 \<le> now \<and> now < t0 + timeout"
    and "t < t0 + timeout"
  shows "\<exists>t'. t0 \<le> t' \<and> t' < t0 + timeout \<and> spec_run maxF timeout ops url (Open t) = Open t'"
  using assms(2-)
proof (induction ops arbitrary: t)
  case (Cons x ops)
  obtain op now u where x: "x = (op, now, u)" by (metis prod_cases3)
  have "\<exists>t1. t0 \<le> t1 \<and> t1 < t0 + timeout \<and> (if u = url then spec_op maxF timeout op now (Open t) else Open t) = Open t1"
  proof (cases "u = url")
    case True
    with x Cons.prems have "t0 \<le> now" "now < t0 + timeout" by auto
    moreover from this Cons.prems(1) have "time_since now t < timeout"
      using assms(1) by (auto simp: time_since_def in_i64_def)
    ultimately show ?thesis using True Cons.prems by (cases op) auto
  qed (use Cons.prems in auto)
  then obtain t1 where "t0 \<le> t1" "t1 < t0 + timeout"
    "(if u = url then spec_op maxF timeout op now (Open t) else Open t) = Open t1" by blast
  with Cons.IH [of t1] Cons.prems(2) x show ?case by auto
qed auto

text \<open>Deliveries that succeed (\<open>True\<close>) or fail (\<open>False\<close>), and the failures in a row at the end.\<close>

definition outcome_ops :: "string \<Rightarrow> (bool \<times> gotime) list \<Rightarrow> (cb_op \<times> gotime \<times> string) list" where
  "outcome_ops url outs = map (\<lambda>(ok, t). (if ok then OpSuccess else OpFailure, t, url)) outs"

definition trailing_failures :: "(bool \<times> gotime) list \<Rightarrow> nat" where
  "trailing_failures outs = length (takeWhile (\<lambda>(ok, t). \<not> ok) (rev outs))"

lemma trailing_failures_snoc [simp]:
  "trailing_failures (outs @ [(ok, t)]) = (if ok then 0 else Suc (trailing_failures outs))"
  by (simp add: trailing_failures_def)

lemma spec_outcomes:
  assumes "1 \<le> maxF"
  shows "if \<exists>k \<le> length outs. maxF \<le> int (trailing_failures (take k outs))
    then \<exists>t. spec_run maxF timeout (outcome_ops url outs) url (Closed 0) = Open t
    else spec_run maxF timeout (outcome_ops url outs) url (Closed 0) = Closed (int (trailing_failures outs))"
proof (induction outs rule: rev_induct)
  case Nil
  then show ?case using assms by (simp add: outcome_ops_def trailing_failures_def)
next
  case (snoc x outs)
  obtain ok t where x: "x = (ok, t)" by (cases x)
  let ?run = "spec_run maxF timeout (outcome_ops url outs) url (Closed 0)"
  have run: "spec_run maxF timeout (outcome_ops url (outs @ [x])) url (Closed 0) =
    spec_op maxF timeout (if ok then OpSuccess else OpFailure) t ?run"
    by (simp add: outcome_ops_def spec_run_append x)
  have iff: "(\<exists>k \<le> length (outs @ [x]). maxF \<le> int (trailing_failures (take k (outs @ [x])))) \<longleftrightarrow>
    (\<exists>k \<le> length outs. maxF \<le> int (trailing_failures (take k outs))) \<or> maxF \<le> int (trailing_failures (outs @ [x]))"
    by (auto simp: le_Suc_eq)
  show ?case unfolding run iff using snoc.IH assms by (auto simp: x split: if_splits)
qed

text \<open>How often a machine goes from closed or half-open to open.\<close>

definition is_open :: "breaker \<Rightarrow> bool" where
  "is_open b = (case b of Open t \<Rightarrow> True | _ \<Rightarrow> False)"

fun spec_trips :: "int \<Rightarrow> duration \<Rightarrow> (cb_op \<times> gotime \<times> string) list \<Rightarrow> string \<Rightarrow> breaker \<Rightarrow> nat" where
  "spec_trips maxF timeout [] url b = 0"
| "spec_trips maxF timeout ((op, now, u) # ops) url b =
     (let b' = (if u = url then spec_op maxF timeout op now b else b)
      in (if \<not> is_open b \<and> is_open b' then 1 else 0) + spec_trips maxF timeout ops url b')"

lemma is_open_abs: "is_open (abs_state st) \<longleftrightarrow> state st = StateOpen"
  by (simp add: is_open_def abs_state_def split: State.splits)

lemma cb_run_trips:
  assumes "cb_ok cb" and "cb_run ops (cb, m, w) = (cb', m', w')"
  shows "count_list (CircuitBreakerTrips m') url =
    count_list (CircuitBreakerTrips m) url + spec_trips (maxFailures cb) (openTimeout cb) ops url (breaker_of cb url)"
  using assms
proof (induction ops arbitrary: cb m w)
  case Nil
  then show ?case by simp
next
  case (Cons x ops)
  obtain op now u where x: "x = (op, now, u)" by (metis prod_cases3)
  obtain cb1 m1 w1 where step: "cb_apply op now u (cb, m, w) = (cb1, m1, w1)" by (metis prod_cases3)
  note ok = cb_apply_ok [OF step Cons.prems(1)] and ref = cb_apply_refines [OF step Cons.prems(1), of url]
  from Cons.prems(2) x step have "cb_run ops (cb1, m1, w1) = (cb', m', w')" by simp
  note IH = Cons.IH [OF ok(1) this]
  have "count_list (CircuitBreakerTrips m1) url = count_list (CircuitBreakerTrips m) url +
    (if \<not> is_open (breaker_of cb url) \<and> is_open (breaker_of cb1 url) then 1 else 0)"
    using cb_apply_sel [OF step]
    by (auto simp: inc_trips_def breaker_of_machine is_open_abs trips_def)
  with IH ok(2,3) ref x show ?case by (auto simp: Let_def eq_commute [of url])
qed

lemma us_op_legal:
  assumes "us_ok maxF st" and "in_i64 maxF"
  shows "legal (state st) (state (us_op maxF timeout op now st))"
  by (cases op; cases "state st") (auto intro: legal.intros)

lemma cb_step_ok:
  assumes "cb_step fn s s'" and "cb_ok (fst s)"
  shows "cb_ok (fst s') \<and> maxFailures (fst s') = maxFailures (fst s) \<and> openTimeout (fst s') = openTimeout (fst s) \<and>
    (\<exists>ops. \<forall>url. breaker_of (fst s') url =
      spec_run (maxFailures (fst s)) (openTimeout (fst s)) ops url (breaker_of (fst s) url))"
  using assms(1)
proof cases
  case (locked op now url cb m p cb' m' p' w)
  then have "cb_ok cb" using assms(2) by simp
  note ok = cb_apply_ok [OF locked(3) this] and ref = cb_apply_refines [OF locked(3) this]
  have "\<exists>ops. \<forall>u. breaker_of cb' u = spec_run (maxFailures cb) (openTimeout cb) ops u (breaker_of cb u)"
    by (rule exI [of _ "[(op, now, url)]"]) (auto simp: ref)
  with locked ok show ?thesis by simp
next
  case (callback cb m p1 url st fails lastFail p2 w)
  with assms(2) show ?thesis by (auto intro: exI [of _ "[]"])
qed

lemma cb_reach_linear:
  assumes "cb_reach fn maxF timeout w0 s" and "in_i64 maxF" and "in_i64 timeout"
  shows "cb_ok (fst s) \<and> maxFailures (fst s) = maxF \<and> openTimeout (fst s) = timeout \<and>
    (\<exists>ops. \<forall>url. breaker_of (fst s) url = spec_run maxF timeout ops url (Closed 0))"
  using assms
proof (induction rule: cb_reach.induct)
  case start
  then show ?case by (auto simp: cb_ok_new intro: exI [of _ "[]"])
next
  case (step s s')
  then obtain ops where "\<forall>url. breaker_of (fst s) url = spec_run maxF timeout ops url (Closed 0)" by blast
  moreover from step cb_step_ok [OF step.hyps(2)] obtain ops' where
    "\<forall>url. breaker_of (fst s') url = spec_run maxF timeout ops' url (breaker_of (fst s) url)" by auto
  ultimately have "\<forall>url. breaker_of (fst s') url = spec_run maxF timeout (ops @ ops') url (Closed 0)"
    by (simp add: spec_run_append)
  with step cb_step_ok [OF step.hyps(2)] show ?case by blast
qed

section \<open>The interface of a circuit breaker\<close>

locale circuit_breaker =
  fixes allow :: "gotime \<Rightarrow> string \<Rightarrow> 'b \<Rightarrow> bool \<times> 'b"
    and success :: "string \<Rightarrow> 'b \<Rightarrow> 'b"
    and failure :: "gotime \<Rightarrow> string \<Rightarrow> 'b \<Rightarrow> 'b"
    and state_of :: "gotime \<Rightarrow> string \<Rightarrow> 'b \<Rightarrow> State \<times> 'b"
    and view :: "'b \<Rightarrow> string \<Rightarrow> breaker"
    and ok :: "int \<Rightarrow> duration \<Rightarrow> 'b \<Rightarrow> bool"
  assumes allow_law: "ok maxF timeout b \<Longrightarrow> allow now url b = (res, b') \<Longrightarrow>
      res = (\<not> blocked timeout now (view b url)) \<and> ok maxF timeout b' \<and>
      view b' = (view b)(url := spec_op maxF timeout OpAllow now (view b url))"
    and success_law: "ok maxF timeout b \<Longrightarrow> ok maxF timeout (success url b) \<and>
      view (success url b) = (view b)(url := spec_op maxF timeout OpSuccess 0 (view b url))"
    and failure_law: "ok maxF timeout b \<Longrightarrow> ok maxF timeout (failure now url b) \<and>
      view (failure now url b) = (view b)(url := spec_op maxF timeout OpFailure now (view b url))"
    and state_law: "ok maxF timeout b \<Longrightarrow> state_of now url b = (st, b') \<Longrightarrow> ok maxF timeout b' \<and>
      view b' = (view b)(url := spec_op maxF timeout OpState now (view b url))"
begin

text \<open>Failures in a row open the breaker for their URL, whatever happened before.\<close>

lemma failures_open:
  assumes "ok maxF timeout b" and "ts \<noteq> []" and "maxF \<le> int (length ts)"
    and "\<forall>n. view b url = Closed n \<longrightarrow> 0 \<le> n"
  shows "ok maxF timeout (fold (\<lambda>t. failure t url) ts b) \<and>
    view (fold (\<lambda>t. failure t url) ts b) url = Open (last ts)"
proof -
  have "ok maxF timeout (fold (\<lambda>t. failure t url) ts b) \<and>
    (view (fold (\<lambda>t. failure t url) ts b) url =
      fold (\<lambda>t. spec_op maxF timeout OpFailure t) ts (view b url))"
    using assms(1) by (induction ts arbitrary: b) (auto simp: failure_law)
  moreover have "fold (\<lambda>t. spec_op maxF timeout OpFailure t) ts s = Open (last ts)"
    if "case s of Closed n \<Rightarrow> maxF \<le> n + int (length ts) \<and> 0 \<le> n | _ \<Rightarrow> True" for s
    using assms(2) that
  proof (induction ts arbitrary: s)
    case (Cons t ts)
    show ?case
    proof (cases "ts = []")
      case True
      with Cons.prems show ?thesis by (cases s) auto
    next
      case False
      with Cons show ?thesis by (cases s) auto
    qed
  qed simp
  moreover have "case view b url of Closed n \<Rightarrow> maxF \<le> n + int (length ts) \<and> 0 \<le> n | _ \<Rightarrow> True"
    using assms(3,4) by (fastforce split: breaker.split)
  ultimately show ?thesis by simp
qed

text \<open>Until the timeout has passed, an open breaker refuses.\<close>

lemma open_refuses:
  assumes "ok maxF timeout b" and "view b url = Open t" and "time_since now t < timeout"
  shows "\<exists>b'. allow now url b = (False, b') \<and> ok maxF timeout b' \<and> view b' url = Open t"
proof -
  obtain res b' where "allow now url b = (res, b')" by fastforce
  with allow_law [OF assms(1) this] assms(2,3) show ?thesis by (auto simp: blocked_def)
qed

end

definition cb_world_ok :: "int \<Rightarrow> duration \<Rightarrow> 'w cb_world \<Rightarrow> bool" where
  "cb_world_ok maxF timeout s \<longleftrightarrow> cb_ok (fst s) \<and> maxFailures (fst s) = maxF \<and> openTimeout (fst s) = timeout"

lemma cb_apply_world:
  assumes "cb_world_ok maxF timeout s"
  shows "cb_world_ok maxF timeout (cb_apply op now url s) \<and>
    breaker_of (fst (cb_apply op now url s)) = (breaker_of (fst s))(url := spec_op maxF timeout op now (breaker_of (fst s) url))"
proof -
  obtain cb m w where s: "s = (cb, m, w)" by (metis prod_cases3)
  obtain cb' m' w' where step: "cb_apply op now url (cb, m, w) = (cb', m', w')" by (metis prod_cases3)
  from assms s have ok: "cb_ok cb" "maxFailures cb = maxF" "openTimeout cb = timeout"
    by (simp_all add: cb_world_ok_def)
  with cb_apply_ok [OF step ok(1)] cb_apply_refines [OF step ok(1)] show ?thesis
    by (auto simp: s step cb_world_ok_def fun_eq_iff)
qed

lemma spec_success_time: "spec_op maxF timeout OpSuccess now b = spec_op maxF timeout OpSuccess 0 b"
  by (cases b) auto

interpretation url_breaker: circuit_breaker Allow RecordSuccess RecordFailure State_of
  "\<lambda>s. breaker_of (fst s)" cb_world_ok
proof (unfold_locales, goal_cases)
  case (1 maxF timeout b now url res b')
  then show ?case
    using cb_apply_world [OF 1(1), of OpAllow now url] Allow_blocked [of now url "fst b" "fst (snd b)" "snd (snd b)"]
    by (simp add: cb_world_ok_def)
next
  case (2 maxF timeout b url)
  then show ?case using cb_apply_world [OF 2, of OpSuccess 0 url] by simp
next
  case (3 maxF timeout b now url)
  then show ?case using cb_apply_world [OF 3, of OpFailure now url] by simp
next
  case (4 maxF timeout b now url st b')
  then show ?case using cb_apply_world [OF 4(1), of OpState now url] by simp
qed

section \<open>Properties\<close>

text \<open>
  C4: Every breaker is the three-state machine of the specification. For any sequence of
  calls on any URLs and any callback, the breaker of each URL is closed with its number
  of consecutive failures, open since its last failure, or half-open, exactly as the
  specification computes it from the calls for that URL alone. No counter overflows on
  the way.
\<close>

theorem breaker_refines_spec:
  assumes "in_i64 maxF" and "in_i64 timeout"
  shows "breaker_of (fst (cb_run ops (OnStateChange fn (NewURLCircuitBreaker maxF timeout), m, w))) url =
    spec_run maxF timeout ops url (Closed 0)"
proof -
  let ?cb = "OnStateChange fn (NewURLCircuitBreaker maxF timeout)"
  obtain cb' m' w' where run: "cb_run ops (?cb, m, w) = (cb', m', w')" by (metis prod_cases3)
  have "cb_ok ?cb" using assms by (simp add: cb_ok_new)
  from cb_run_refines [OF this run, of url] show ?thesis by (simp add: run)
qed

theorem breaker_refines_spec_witness:
  "breaker_of (fst (cb_run
      [(OpFailure, 100, ''u''), (OpFailure, 110, ''v''), (OpFailure, 120, ''u''), (OpAllow, 180, ''u'')]
      (OnStateChange (\<lambda>url st f t w. w + 1) (NewURLCircuitBreaker 2 50), new_metrics, 0 :: nat))) ''u'' = HalfOpen"
  by (subst breaker_refines_spec) (simp_all add: in_i64_def time_since_def)


lemma cb_reach_example:
  "cb_reach fn 2 50 w0 (put_state ''u'' \<lparr>state = StateClosed, failures = 1, lastFailure = 100\<rparr>
     (OnStateChange enqueue (NewURLCircuitBreaker 2 50)), new_metrics, [], w0)"
  by (rule cb_reach.step [OF cb_reach.start], rule cb_step.locked [of OpFailure 100 "''u''"])
    (simp add: cb_apply_eq machine_def NewURLCircuitBreaker_def OnStateChange_def new_urlState_def
      Let_def trips_def notifies_def i64_def)


text \<open>
  A breaker opens exactly when \<open>maxFailures\<close> deliveries fail in a row. Over any
  sequence of delivery outcomes for a URL, the breaker of a fresh URL has opened iff at
  some point the last \<open>maxFailures\<close> outcomes were all failures.
\<close>

theorem breaker_opens_iff:
  assumes "1 \<le> maxF" and "in_i64 maxF" and "in_i64 timeout"
  shows "is_open (breaker_of (fst (cb_run (outcome_ops url outs)
      (OnStateChange fn (NewURLCircuitBreaker maxF timeout), m, w))) url) \<longleftrightarrow>
    (\<exists>k \<le> length outs. maxF \<le> int (trailing_failures (take k outs)))"
proof -
  let ?s = "(OnStateChange fn (NewURLCircuitBreaker maxF timeout), m, w)"
  obtain cb' m' w' where run: "cb_run (outcome_ops url outs) ?s = (cb', m', w')" by (metis prod_cases3)
  have "cb_ok (fst ?s)" using assms by (simp add: cb_ok_new)
  with cb_run_refines [of _ "outcome_ops url outs" m w cb' m' w' url] run
  have "breaker_of cb' url = spec_run maxF timeout (outcome_ops url outs) url (Closed 0)" by fastforce
  with spec_outcomes [OF assms(1), of outs timeout url] show ?thesis
    by (auto simp: run is_open_def split: if_splits)
qed

theorem breaker_opens_iff_witness:
  "is_open (breaker_of (fst (cb_run
      (outcome_ops ''u'' [(False, 1), (True, 2), (False, 3), (False, 4), (True, 5)])
      (OnStateChange (\<lambda>url st f t w. w) (NewURLCircuitBreaker 2 50), new_metrics, ()))) ''u'')"
  by (subst breaker_opens_iff) (auto simp: in_i64_def trailing_failures_def intro!: exI [of _ 4])

text \<open>
  An open breaker blocks. From a breaker that opened at \<open>t0\<close>, whatever calls are made
  for any URL before \<open>t0\<close> plus the timeout (other deliveries succeeding, failing, asking),
  \<^verbatim>\<open>Allow\<close> refuses until then.
\<close>

theorem open_breaker_blocks:
  assumes "cb_ok cb" and "breaker_of cb url = Open t0"
    and "\<forall>(op, now, u) \<in> set ops. u = url \<longrightarrow> t0 \<le> now \<and> now < t0 + openTimeout cb"
    and "t0 \<le> now" and "now < t0 + openTimeout cb"
  shows "\<not> fst (Allow now url (cb_run ops (cb, m, w)))"
proof -
  obtain cb' m' w' where run: "cb_run ops (cb, m, w) = (cb', m', w')" by (metis prod_cases3)
  note ref = cb_run_refines [OF assms(1) run, of url]
  have timeout: "in_i64 (openTimeout cb)" using assms(1) by (simp add: cb_ok_def)
  obtain t where "t0 \<le> t" "breaker_of cb' url = Open t" "openTimeout cb' = openTimeout cb"
    using spec_stays_open [OF timeout _ assms(3), of t0 "maxFailures cb"] ref assms(2,4,5) by auto
  with assms(4,5) timeout show ?thesis
    by (auto simp: run Allow_blocked blocked_def time_since_def in_i64_def)
qed

definition tripped_breaker :: "nat URLCircuitBreaker" where
  "tripped_breaker = put_state ''u'' \<lparr>state = StateOpen, failures = 5, lastFailure = 1000\<rparr> (NewURLCircuitBreaker 5 50)"

lemma tripped_breaker_ok: "cb_ok tripped_breaker" "breaker_of tripped_breaker ''u'' = Open 1000"
    "openTimeout tripped_breaker = 50" "maxFailures tripped_breaker = 5"
  by (auto simp: tripped_breaker_def cb_ok_def us_ok_def in_i64_def NewURLCircuitBreaker_def
    breaker_of_def abs_state_def)

theorem open_breaker_blocks_witness:
  "\<not> fst (Allow 1049 ''u'' (cb_run [(OpSuccess, 1020, ''u''), (OpFailure, 1030, ''u'')] (tripped_breaker, new_metrics, 0)))"
  by (rule open_breaker_blocks [of _ _ 1000]) (simp_all add: tripped_breaker_ok)

text \<open>
  The only transitions are closed to open, open to half-open, half-open to closed and
  half-open to open (a breaker never closes without a successful probe), and no call on
  one URL touches the breaker of another.
\<close>

theorem breaker_transitions_legal:
  assumes "cb_ok cb" and "cb_apply op now url (cb, m, w) = (cb', m', w')"
  shows "legal (state (machine cb url)) (state (machine cb' url)) \<and>
    (\<forall>u. u \<noteq> url \<longrightarrow> machine cb' u = machine cb u)"
  using us_op_legal [OF machine_ok [OF assms(1), of url]] assms(1)
  by (simp add: cb_apply_sel(1) [OF assms(2)] cb_ok_def)

theorem breaker_transitions_legal_witness:
  "\<exists>cb' m' w'. cb_apply OpSuccess 1060 ''u'' (tripped_breaker, new_metrics, 0) = (cb', m', w') \<and>
     state (machine cb' ''u'') \<noteq> StateClosed"
proof -
  obtain cb' m' w' where step: "cb_apply OpSuccess 1060 ''u'' (tripped_breaker, new_metrics, 0) = (cb', m', w')"
    by (metis prod_cases3)
  have "state (machine tripped_breaker ''u'') = StateOpen"
    by (simp add: tripped_breaker_def)
  with breaker_transitions_legal [OF tripped_breaker_ok(1) step] step show ?thesis by auto
qed

text \<open>
  The trip counter is exact: over any run from a new breaker, the metric of a URL has
  been incremented once for every time its breaker went from closed or half-open to open,
  and not for failures recorded while it was already open.
\<close>

theorem trip_counter_exact:
  assumes "in_i64 maxF" and "in_i64 timeout"
  shows "count_list (CircuitBreakerTrips (fst (snd (cb_run ops
      (OnStateChange fn (NewURLCircuitBreaker maxF timeout), new_metrics, w))))) url =
    spec_trips maxF timeout ops url (Closed 0)"
proof -
  let ?cb = "OnStateChange fn (NewURLCircuitBreaker maxF timeout)"
  obtain cb' m' w' where run: "cb_run ops (?cb, new_metrics, w) = (cb', m', w')" by (metis prod_cases3)
  have "cb_ok ?cb" using assms by (simp add: cb_ok_new)
  from cb_run_trips [OF this run, of url] show ?thesis by (simp add: run)
qed

theorem trip_counter_exact_witness:
  "count_list (CircuitBreakerTrips (fst (snd (cb_run
      [(OpFailure, 1, ''u''), (OpFailure, 2, ''u''), (OpFailure, 3, ''u''), (OpState, 60, ''u''), (OpFailure, 61, ''u'')]
      (OnStateChange (\<lambda>url st f t w. w) (NewURLCircuitBreaker 2 50), new_metrics, ()))))) ''u'' = 2"
  by (subst trip_counter_exact) (simp_all add: in_i64_def time_since_def is_open_def Let_def)

text \<open>
  The listing agrees with \<^verbatim>\<open>State\<close> except at one instant: for a breaker that has been
  open for exactly the timeout, \<^verbatim>\<open>GetBreakers\<close> (which compares strictly) still reports
  Open where \<^verbatim>\<open>State\<close> and \<^verbatim>\<open>Allow\<close> have gone to Half-Open.
\<close>

theorem GetBreakers_agrees_with_State:
  assumes "urlStates cb url = Some st"
  shows "\<exists>info. GetBreakers [(url, now)] cb = [info] \<and> TargetURL info = url \<and>
    (BreakerState info = State_String (fst (State_of now url (cb, m, w))) \<longleftrightarrow>
     \<not> (state st = StateOpen \<and> time_since now (lastFailure st) = openTimeout cb))"
  using assms by (cases "state st")
    (auto simp: State_of_result machine_def breaker_info_def Let_def)

theorem GetBreakers_agrees_with_State_witness:
  "\<exists>info. GetBreakers [(''u'', 1050)] tripped_breaker = [info] \<and>
     BreakerState info \<noteq> State_String (fst (State_of 1050 ''u'' (tripped_breaker, new_metrics, 0)))"
  using GetBreakers_agrees_with_State [of tripped_breaker "''u''" "\<lparr>state = StateOpen, failures = 5, lastFailure = 1000\<rparr>"
      1050 new_metrics 0]
  by (auto simp: tripped_breaker_def time_since_def NewURLCircuitBreaker_def)

end
