(* ===== verification/Webhook_Worker.thy ===== *)
theory Webhook_Worker
  imports Circuit_Breaker Event_Codec "HOL-Library.Multiset"
begin

text \<open>
  The webhook worker (\<^verbatim>\<open>src/internal/worker/worker.go\<close>): \<^verbatim>\<open>deliverWithRetry\<close>,
  \<^verbatim>\<open>handleDelivery\<close> and the consumer loop of \<^verbatim>\<open>Start\<close> with its goroutines.

  What the outside does during one delivery is an \<open>env\<close>: the readings of the clock, the
  error of building the request, the outcome of every POST, the cancellation seen at every
  backoff and at the database update. The effects are the fields of \<open>worker_state\<close>: the
  breaker with the metrics and the callback's world, the database, the requests sent and
  the sleeps, and the answers given to the broker.

  \<open>worker_step\<close> interleaves the goroutines of \<^verbatim>\<open>Start\<close> at their accesses to shared state;
  a handler that runs alone computes \<open>handleDelivery\<close>.
\<close>

section \<open>Definitions\<close>

datatype wire = Sent out_request | Slept duration

record env =
  t_allow :: gotime
  t_state :: gotime
  t_fail :: gotime
  build_err :: "string option"
  post :: "nat \<Rightarrow> http_outcome"
  backoff_cancelled :: "nat \<Rightarrow> string option"
  update_cancelled :: bool

definition maxAttempts :: nat where
  "maxAttempts = 3"

definition delivery_request :: "WebhookEvent \<Rightarrow> out_request" where
  "delivery_request event =
     (let h = Header_Set ''X-Trace-ID'' (ID event) (Header_Set ''Content-Type'' ''application/json'' Map.empty);
          h' = (if IdempotencyKey event \<noteq> '''' then Header_Set ''X-Idempotency-Key'' (IdempotencyKey event) h else h)
      in \<lparr>out_method = ''POST'', out_url = EventURL event, out_header = h', out_body = Payload event\<rparr>)"

definition is_2xx :: "http_outcome \<Rightarrow> bool" where
  "is_2xx r = (case r of HttpStatus c \<Rightarrow> 200 \<le> c \<and> c < 300 | HttpErr e \<Rightarrow> False)"

definition attempt_error :: "http_outcome \<Rightarrow> string" where
  "attempt_error r =
     (case r of
        HttpStatus c \<Rightarrow> ''remote target responded with status code '' @ show_int c
      | HttpErr e \<Rightarrow> ''http post execution failed: '' @ e)"

definition backoff :: "nat \<Rightarrow> duration" where
  "backoff attempt = 2 ^ attempt * Second"

function deliver_loop :: "env \<Rightarrow> WebhookEvent \<Rightarrow> string option \<Rightarrow> nat \<Rightarrow> string option \<times> wire list" where
  "deliver_loop env event lastErr attempt =
     (if attempt < maxAttempts then
        (case build_err env of
           Some e \<Rightarrow> (Some (''failed to build http request: '' @ e), [])
         | None \<Rightarrow>
             (let req = delivery_request event; resp = post env attempt
              in if is_2xx resp then (None, [Sent req])
                 else if attempt < maxAttempts - 1 then
                   (case backoff_cancelled env attempt of
                      Some e \<Rightarrow> (Some (''context cancelled during retry backoff: '' @ e), [Sent req])
                    | None \<Rightarrow>
                        (case deliver_loop env event (Some (attempt_error resp)) (attempt + 1) of
                           (r, tr) \<Rightarrow> (r, Sent req # Slept (backoff attempt) # tr)))
                 else
                   (case deliver_loop env event (Some (attempt_error resp)) (attempt + 1) of
                      (r, tr) \<Rightarrow> (r, Sent req # tr))))
      else (lastErr, []))"
  by pat_completeness auto
termination by (relation "measure (\<lambda>(env, event, lastErr, attempt). maxAttempts - attempt)") auto

declare deliver_loop.simps [simp del]

definition deliverWithRetry :: "env \<Rightarrow> WebhookEvent \<Rightarrow> string option \<times> wire list" where
  "deliverWithRetry env event = deliver_loop env event None 0"

datatype answer = Ack nat bool | Nack nat bool bool

record Delivery =
  DeliveryTag :: nat
  MsgBody :: string

record ('d, 'w) worker_state =
  wk_cb :: "'w cb_world"
  wk_db :: 'd
  wk_wire :: "wire list"
  wk_answers :: "answer list"

definition count_attempt :: "string \<Rightarrow> 'w cb_world \<Rightarrow> 'w cb_world" where
  "count_attempt status s = (case s of (cb, m, w) \<Rightarrow> (cb, inc_attempts status m, w))"

definition blocked_error :: "State \<Rightarrow> string" where
  "blocked_error st = ''delivery blocked: circuit breaker is in '' @ State_String st @ '' state''"

definition handleDelivery ::
  "'d EventStore \<Rightarrow> env \<Rightarrow> Delivery \<Rightarrow>
     ('d, 'w) worker_state \<Rightarrow> ('d, 'w) worker_state" where
  "handleDelivery es env d s =
     (case unmarshal_event (MsgBody d) of
        Inl err \<Rightarrow> s\<lparr>wk_answers := wk_answers s @ [Nack (DeliveryTag d) False False]\<rparr>
      | Inr event \<Rightarrow>
          (let (allowed, c1) = Allow (t_allow env) (EventURL event) (wk_cb s)
           in if \<not> allowed then
                (let c2 = count_attempt ''circuit_breaker_blocked'' c1;
                     (st, c3) = State_of (t_state env) (EventURL event) c2;
                     errMsg = blocked_error st;
                     (e, db) = es_UpdateEventStatus es (update_cancelled env) (ID event) ''failed'' errMsg (wk_db s)
                 in s\<lparr>wk_cb := c3, wk_db := db,
                      wk_answers := wk_answers s @ [Nack (DeliveryTag d) False False]\<rparr>)
              else
                (case deliverWithRetry env event of
                   (Some err, tr) \<Rightarrow>
                     (let c2 = RecordFailure (t_fail env) (EventURL event) (count_attempt ''failed'' c1);
                          (e, db) = es_UpdateEventStatus es (update_cancelled env) (ID event) ''failed'' err (wk_db s)
                      in s\<lparr>wk_cb := c2, wk_db := db, wk_wire := wk_wire s @ tr,
                           wk_answers := wk_answers s @ [Nack (DeliveryTag d) False False]\<rparr>)
                 | (None, tr) \<Rightarrow>
                     (let c2 = RecordSuccess (EventURL event) (count_attempt ''success'' c1);
                          (e, db) = es_UpdateEventStatus es (update_cancelled env) (ID event) ''success'' '''' (wk_db s)
                      in s\<lparr>wk_cb := c2, wk_db := db, wk_wire := wk_wire s @ tr,
                           wk_answers := wk_answers s @ [Ack (DeliveryTag d) False]\<rparr>))))"

subsection \<open>The consumer loop and its goroutines\<close>

text \<open>A handler between two accesses to shared state.\<close>

datatype stage =
    Received Delivery
  | Blocked Delivery WebhookEvent
  | Admitted Delivery WebhookEvent
  | Delivered Delivery WebhookEvent
  | Undelivered Delivery WebhookEvent string
  | Updating Delivery string string string bool
  | Answering Delivery bool

fun handler_step ::
  "'d EventStore \<Rightarrow> env \<Rightarrow> stage \<Rightarrow>
     ('d, 'w) worker_state \<Rightarrow> stage option \<times> ('d, 'w) worker_state" where
  "handler_step es env (Received d) s =
     (case unmarshal_event (MsgBody d) of
        Inl err \<Rightarrow> (Some (Answering d False), s)
      | Inr event \<Rightarrow>
          (case Allow (t_allow env) (EventURL event) (wk_cb s) of
             (allowed, c1) \<Rightarrow> (Some (if allowed then Admitted d event else Blocked d event), s\<lparr>wk_cb := c1\<rparr>)))"
| "handler_step es env (Blocked d event) s =
     (case State_of (t_state env) (EventURL event) (count_attempt ''circuit_breaker_blocked'' (wk_cb s)) of
        (st, c) \<Rightarrow>
          (Some (Updating d (ID event) ''failed''
             (blocked_error st) False), s\<lparr>wk_cb := c\<rparr>))"
| "handler_step es env (Admitted d event) s =
     (case deliverWithRetry env event of
        (Some err, tr) \<Rightarrow> (Some (Undelivered d event err), s\<lparr>wk_wire := wk_wire s @ tr\<rparr>)
      | (None, tr) \<Rightarrow> (Some (Delivered d event), s\<lparr>wk_wire := wk_wire s @ tr\<rparr>))"
| "handler_step es env (Undelivered d event err) s =
     (Some (Updating d (ID event) ''failed'' err False),
      s\<lparr>wk_cb := RecordFailure (t_fail env) (EventURL event) (count_attempt ''failed'' (wk_cb s))\<rparr>)"
| "handler_step es env (Delivered d event) s =
     (Some (Updating d (ID event) ''success'' '''' True),
      s\<lparr>wk_cb := RecordSuccess (EventURL event) (count_attempt ''success'' (wk_cb s))\<rparr>)"
| "handler_step es env (Updating d i status msg ok) s =
     (Some (Answering d ok), s\<lparr>wk_db := snd (es_UpdateEventStatus es (update_cancelled env) i status msg (wk_db s))\<rparr>)"
| "handler_step es env (Answering d ok) s =
     (None, s\<lparr>wk_answers := wk_answers s @
        [if ok then Ack (DeliveryTag d) False else Nack (DeliveryTag d) False False]\<rparr>)"

fun handler_run ::
  "nat \<Rightarrow> 'd EventStore \<Rightarrow> env \<Rightarrow> stage \<Rightarrow>
     ('d, 'w) worker_state \<Rightarrow> stage option \<times> ('d, 'w) worker_state" where
  "handler_run 0 es env st s = (Some st, s)"
| "handler_run (Suc n) es env st s =
     (case handler_step es env st s of
        (None, s') \<Rightarrow> (None, s')
      | (Some st', s') \<Rightarrow> handler_run n es env st' s')"

text \<open>
  \<^verbatim>\<open>Start\<close>: opening the channel, setting the prefetch limit and consuming can each fail;
  then the loop receives deliveries, each of which starts a goroutine, until the context is
  done or the message channel is closed; then it waits for the goroutines and returns.
\<close>

datatype phase = Consuming | Waiting | Returned "string option"

definition start_phase :: "string option \<Rightarrow> string option \<Rightarrow> string option \<Rightarrow> phase" where
  "start_phase channel_err qos_err consume_err =
     (case channel_err of
        Some e \<Rightarrow> Returned (Some (''failed to open channel: '' @ e))
      | None \<Rightarrow>
          (case qos_err of
             Some e \<Rightarrow> Returned (Some (''failed to set RabbitMQ QoS: '' @ e))
           | None \<Rightarrow>
               (case consume_err of
                  Some e \<Rightarrow> Returned (Some (''failed to initiate consumer: '' @ e))
                | None \<Rightarrow> Consuming)))"

text \<open>
  The worker object: the connection, the store, the timeout of its HTTP client and the queue. The
  breaker is part of \<open>worker_state\<close>, the wait group is the list of active handlers below. The
  calls \<^verbatim>\<open>Start\<close> makes on the connection of type \<open>'c\<close>, with their parameters in the source's order.
\<close>

record ('d, 'c) WebhookWorker =
  ww_conn :: 'c
  ww_eventStore :: "'d EventStore"
  ww_timeout :: duration
  ww_queueName :: string

definition NewWebhookWorker :: "'c \<Rightarrow> 'd EventStore \<Rightarrow> string \<Rightarrow> ('d, 'c) WebhookWorker" where
  "NewWebhookWorker conn eventStore qname =
     \<lparr>ww_conn = conn, ww_eventStore = eventStore, ww_timeout = 5 * Second, ww_queueName = qname\<rparr>"

record 'c consumer_client =
  cc_Channel :: "'c \<Rightarrow> string + nat"
  cc_Qos :: "'c \<Rightarrow> nat \<Rightarrow> int \<Rightarrow> int \<Rightarrow> bool \<Rightarrow> string option"
  cc_Consume :: "'c \<Rightarrow> nat \<Rightarrow> string \<Rightarrow> string \<Rightarrow> bool \<Rightarrow> bool \<Rightarrow> bool \<Rightarrow> bool \<Rightarrow> string option"

definition Start_setup :: "'c consumer_client \<Rightarrow> ('d, 'c) WebhookWorker \<Rightarrow> phase" where
  "Start_setup cl w =
     (case cc_Channel cl (ww_conn w) of
        Inl e \<Rightarrow> start_phase (Some e) None None
      | Inr ch \<Rightarrow> start_phase None (cc_Qos cl (ww_conn w) ch 100 0 False)
          (cc_Consume cl (ww_conn w) ch (ww_queueName w) '''' False False False False))"

record ('d, 'w) consumer =
  c_phase :: phase
  c_active :: "(stage \<times> env) list"
  c_received :: "Delivery list"
  c_shared :: "('d, 'w) worker_state"

inductive worker_step ::
  "'d EventStore \<Rightarrow> ('d, 'w) consumer \<Rightarrow> ('d, 'w) consumer \<Rightarrow> bool"
  for es where
  receive: "c_phase c = Consuming \<Longrightarrow>
     worker_step es c
       (c\<lparr>c_active := c_active c @ [(Received d, env)], c_received := c_received c @ [d]\<rparr>)"
| stop: "c_phase c = Consuming \<Longrightarrow> worker_step es c (c\<lparr>c_phase := Waiting\<rparr>)"
| return: "c_phase c = Waiting \<Longrightarrow> c_active c = [] \<Longrightarrow>
     worker_step es c (c\<lparr>c_phase := Returned None\<rparr>)"
| handle: "c_active c = us @ (st, env) # vs \<Longrightarrow> handler_step es env st (c_shared c) = (st', s') \<Longrightarrow>
     worker_step es c
       (c\<lparr>c_active := us @ (case st' of None \<Rightarrow> [] | Some x \<Rightarrow> [(x, env)]) @ vs, c_shared := s'\<rparr>)"

inductive worker_reach ::
  "'d EventStore \<Rightarrow> ('d, 'w) worker_state \<Rightarrow> ('d, 'w) consumer \<Rightarrow> bool"
  for es s0 where
  start: "worker_reach es s0
     \<lparr>c_phase = start_phase e1 e2 e3, c_active = [], c_received = [], c_shared = s0\<rparr>"
| step: "worker_reach es s0 c \<Longrightarrow> worker_step es c c' \<Longrightarrow> worker_reach es s0 c'"

text \<open>A worker that handles a sequence of deliveries one after the other.\<close>

fun worker_run ::
  "'d EventStore \<Rightarrow> (env \<times> Delivery) list \<Rightarrow>
     ('d, 'w) worker_state \<Rightarrow> ('d, 'w) worker_state" where
  "worker_run es [] s = s"
| "worker_run es ((env, d) # ds) s = worker_run es ds (handleDelivery es env d s)"

definition is_for :: "string \<Rightarrow> Delivery \<Rightarrow> bool" where
  "is_for url d = (case unmarshal_event (MsgBody d) of Inl e \<Rightarrow> False | Inr ev \<Rightarrow> EventURL ev = url)"

definition delivery_fails :: "env \<times> Delivery \<Rightarrow> bool" where
  "delivery_fails ed =
     (case unmarshal_event (MsgBody (snd ed)) of Inl e \<Rightarrow> False | Inr ev \<Rightarrow> fst (deliverWithRetry (fst ed) ev) \<noteq> None)"

text \<open>The trace of \<open>n\<close> attempts: the request each time, and the backoffs in between.\<close>

definition attempts_trace :: "out_request \<Rightarrow> nat \<Rightarrow> wire list" where
  "attempts_trace req n = concat (map (\<lambda>k. [Sent req, Slept (backoff k)]) [0..<n - 1]) @ [Sent req]"

text \<open>What became of a delivery, and how each observer sees it.\<close>

datatype outcome = Malformed | BreakerBlocked | DeliveryFailed string | DeliverySucceeded

definition outcome_of ::
  "env \<Rightarrow> Delivery \<Rightarrow> ('d, 'w) worker_state \<Rightarrow> outcome" where
  "outcome_of env d s =
     (case unmarshal_event (MsgBody d) of
        Inl e \<Rightarrow> Malformed
      | Inr ev \<Rightarrow>
          if \<not> fst (Allow (t_allow env) (EventURL ev) (wk_cb s)) then BreakerBlocked
          else (case fst (deliverWithRetry env ev) of
                  Some err \<Rightarrow> DeliveryFailed err | None \<Rightarrow> DeliverySucceeded))"

fun outcome_labels :: "outcome \<Rightarrow> string list" where
  "outcome_labels Malformed = []"
| "outcome_labels BreakerBlocked = [''circuit_breaker_blocked'']"
| "outcome_labels (DeliveryFailed err) = [''failed'']"
| "outcome_labels DeliverySucceeded = [''success'']"

fun answer_tag :: "answer \<Rightarrow> nat" where
  "answer_tag (Ack t m) = t"
| "answer_tag (Nack t m r) = t"

fun stage_delivery :: "stage \<Rightarrow> Delivery" where
  "stage_delivery (Received d) = d"
| "stage_delivery (Blocked d ev) = d"
| "stage_delivery (Admitted d ev) = d"
| "stage_delivery (Delivered d ev) = d"
| "stage_delivery (Undelivered d ev err) = d"
| "stage_delivery (Updating d i status msg ok) = d"
| "stage_delivery (Answering d ok) = d"

text \<open>How many steps a handler has left at most.\<close>

fun stage_rank :: "stage \<Rightarrow> nat" where
  "stage_rank (Received d) = 5"
| "stage_rank (Admitted d ev) = 4"
| "stage_rank (Blocked d ev) = 3"
| "stage_rank (Delivered d ev) = 3"
| "stage_rank (Undelivered d ev err) = 3"
| "stage_rank (Updating d i status msg ok) = 2"
| "stage_rank (Answering d ok) = 1"

fun phase_rank :: "phase \<Rightarrow> nat" where
  "phase_rank Consuming = 2"
| "phase_rank Waiting = 1"
| "phase_rank (Returned e) = 0"

definition drain_rank :: "('d, 'w) consumer \<Rightarrow> nat" where
  "drain_rank c = phase_rank (c_phase c) + sum_list (map (\<lambda>(st, env). stage_rank st) (c_active c))"

definition tags_balanced :: "('d, 'w) worker_state \<Rightarrow> ('d, 'w) consumer \<Rightarrow> bool" where
  "tags_balanced s0 c \<longleftrightarrow>
     mset (map answer_tag (wk_answers (c_shared c))) + mset (map (\<lambda>(st, env). DeliveryTag (stage_delivery st)) (c_active c)) =
     mset (map answer_tag (wk_answers s0)) + mset (map DeliveryTag (c_received c))"

section \<open>Lemmas\<close>

subsection \<open>Retries\<close>

lemma attempts_3:
  assumes "build_err env = None"
  shows "deliverWithRetry env ev =
    (let req = delivery_request ev in
     if is_2xx (post env 0) then (None, attempts_trace req 1)
     else if backoff_cancelled env 0 \<noteq> None
       then (Some (''context cancelled during retry backoff: '' @ the (backoff_cancelled env 0)), attempts_trace req 1)
     else if is_2xx (post env 1) then (None, attempts_trace req 2)
     else if backoff_cancelled env 1 \<noteq> None
       then (Some (''context cancelled during retry backoff: '' @ the (backoff_cancelled env 1)), attempts_trace req 2)
     else if is_2xx (post env 2) then (None, attempts_trace req 3)
     else (Some (attempt_error (post env 2)), attempts_trace req 3))"
proof -
  have 3: "deliver_loop env ev e 3 = (e, [])" for e
    by (simp add: deliver_loop.simps maxAttempts_def)
  have 2: "deliver_loop env ev e 2 =
      (if is_2xx (post env 2) then None else Some (attempt_error (post env 2)), [Sent (delivery_request ev)])" for e
    using assms 3 by (subst deliver_loop.simps) (simp add: maxAttempts_def Let_def numeral_3_eq_3)
  have 1: "deliver_loop env ev e 1 =
      (if is_2xx (post env 1) then (None, attempts_trace (delivery_request ev) 1)
       else case backoff_cancelled env 1 of
         Some e \<Rightarrow> (Some (''context cancelled during retry backoff: '' @ e), attempts_trace (delivery_request ev) 1)
       | None \<Rightarrow> (if is_2xx (post env 2) then None else Some (attempt_error (post env 2)),
           [Sent (delivery_request ev), Slept (backoff 1), Sent (delivery_request ev)]))" for e
    using assms by (subst deliver_loop.simps)
      (simp add: maxAttempts_def Let_def 2 [unfolded numeral_2_eq_2] attempts_trace_def numeral_2_eq_2 split: option.splits)
  show ?thesis
    using assms 1 unfolding deliverWithRetry_def
    by (subst deliver_loop.simps) (auto simp: maxAttempts_def Let_def attempts_trace_def upt_rec split: option.splits)
qed

lemma build_error: "build_err env = Some e \<Longrightarrow>
  deliverWithRetry env ev = (Some (''failed to build http request: '' @ e), [])"
  by (simp add: deliverWithRetry_def deliver_loop.simps maxAttempts_def)

lemma deliver_error_nonempty: "deliverWithRetry env ev = (Some err, tr) \<Longrightarrow> err \<noteq> ''''"
  by (cases "build_err env")
    (auto simp: build_error attempts_3 attempt_error_def Let_def split: if_splits http_outcome.splits)

subsection \<open>One delivery\<close>

lemma count_attempt_sel [simp]:
  "fst (count_attempt l s) = fst s"
  "fst (snd (count_attempt l s)) = inc_attempts l (fst (snd s))"
  "snd (snd (count_attempt l s)) = snd (snd s)"
  by (simp_all add: count_attempt_def split: prod.splits)

lemma cb_world_ok_count [simp]: "cb_world_ok maxF timeout (count_attempt l s) = cb_world_ok maxF timeout s"
  by (simp add: cb_world_ok_def)

lemma cb_apply_attempts [simp]:
  "WebhookDeliveryAttempts (fst (snd (cb_apply op now url s))) = WebhookDeliveryAttempts (fst (snd s))"
  by (cases s) (simp add: cb_apply_eq Let_def)

lemmas cb_attempts [simp] =
  cb_apply_attempts [of OpAllow, simplified] cb_apply_attempts [of OpSuccess, simplified]
  cb_apply_attempts [of OpFailure, simplified] cb_apply_attempts [of OpState, simplified]

text \<open>The four ways a delivery goes, as equations.\<close>

lemma handle_malformed:
  "unmarshal_event (MsgBody d) = Inl e \<Longrightarrow>
     handleDelivery es env d s = s\<lparr>wk_answers := wk_answers s @ [Nack (DeliveryTag d) False False]\<rparr>"
  by (simp add: handleDelivery_def)

lemma handle_blocked:
  assumes "unmarshal_event (MsgBody d) = Inr ev" and "Allow (t_allow env) (EventURL ev) (wk_cb s) = (False, c1)"
    and "State_of (t_state env) (EventURL ev) (count_attempt ''circuit_breaker_blocked'' c1) = (st, c2)"
  shows "handleDelivery es env d s =
    s\<lparr>wk_cb := c2,
      wk_db := snd (es_UpdateEventStatus es (update_cancelled env) (ID ev) ''failed''
        (blocked_error st) (wk_db s)),
      wk_answers := wk_answers s @ [Nack (DeliveryTag d) False False]\<rparr>"
  using assms by (simp add: handleDelivery_def Let_def case_prod_unfold)

lemma handle_failed:
  assumes "unmarshal_event (MsgBody d) = Inr ev" and "Allow (t_allow env) (EventURL ev) (wk_cb s) = (True, c1)"
    and "deliverWithRetry env ev = (Some err, tr)"
  shows "handleDelivery es env d s =
    s\<lparr>wk_cb := RecordFailure (t_fail env) (EventURL ev) (count_attempt ''failed'' c1),
      wk_db := snd (es_UpdateEventStatus es (update_cancelled env) (ID ev) ''failed'' err (wk_db s)),
      wk_wire := wk_wire s @ tr,
      wk_answers := wk_answers s @ [Nack (DeliveryTag d) False False]\<rparr>"
  using assms by (simp add: handleDelivery_def Let_def case_prod_unfold)

lemma handle_success:
  assumes "unmarshal_event (MsgBody d) = Inr ev" and "Allow (t_allow env) (EventURL ev) (wk_cb s) = (True, c1)"
    and "deliverWithRetry env ev = (None, tr)"
  shows "handleDelivery es env d s =
    s\<lparr>wk_cb := RecordSuccess (EventURL ev) (count_attempt ''success'' c1),
      wk_db := snd (es_UpdateEventStatus es (update_cancelled env) (ID ev) ''success'' '''' (wk_db s)),
      wk_wire := wk_wire s @ tr,
      wk_answers := wk_answers s @ [Ack (DeliveryTag d) False]\<rparr>"
  using assms by (simp add: handleDelivery_def Let_def case_prod_unfold)

lemma delivery_cases [case_names malformed blocked failed success]:
  assumes "\<And>e. unmarshal_event (MsgBody d) = Inl e \<Longrightarrow> P"
    and "\<And>ev c1 st c2. unmarshal_event (MsgBody d) = Inr ev \<Longrightarrow> Allow (t_allow env) (EventURL ev) (wk_cb s) = (False, c1) \<Longrightarrow>
      State_of (t_state env) (EventURL ev) (count_attempt ''circuit_breaker_blocked'' c1) = (st, c2) \<Longrightarrow> P"
    and "\<And>ev c1 err tr. unmarshal_event (MsgBody d) = Inr ev \<Longrightarrow> Allow (t_allow env) (EventURL ev) (wk_cb s) = (True, c1) \<Longrightarrow>
      deliverWithRetry env ev = (Some err, tr) \<Longrightarrow> P"
    and "\<And>ev c1 tr. unmarshal_event (MsgBody d) = Inr ev \<Longrightarrow> Allow (t_allow env) (EventURL ev) (wk_cb s) = (True, c1) \<Longrightarrow>
      deliverWithRetry env ev = (None, tr) \<Longrightarrow> P"
  shows P
proof (cases "unmarshal_event (MsgBody d)")
  case (Inr ev)
  obtain a c1 where A: "Allow (t_allow env) (EventURL ev) (wk_cb s) = (a, c1)" by (metis surj_pair)
  obtain r tr where D: "deliverWithRetry env ev = (r, tr)" by (metis surj_pair)
  obtain st c2 where "State_of (t_state env) (EventURL ev) (count_attempt ''circuit_breaker_blocked'' c1) = (st, c2)"
    by (metis surj_pair)
  with A D Inr assms(2) [of ev c1 st c2] assms(3) [of ev c1 _ tr] assms(4) [of ev c1 tr] show ?thesis
    by (cases a; cases r) simp_all
qed (use assms(1) in blast)

lemma Allow_attempts: "Allow now url s = (a, c) \<Longrightarrow>
  WebhookDeliveryAttempts (fst (snd c)) = WebhookDeliveryAttempts (fst (snd s))"
  using cb_attempts(1) [of now url s] by simp

lemma State_attempts: "State_of now url s = (st, c) \<Longrightarrow>
  WebhookDeliveryAttempts (fst (snd c)) = WebhookDeliveryAttempts (fst (snd s))"
  using cb_attempts(4) [of now url s] by simp

lemma handle_agrees:
  fixes s :: "('d, 'w) worker_state" and es env d
  defines "s' \<equiv> handleDelivery es env d s" and "out \<equiv> outcome_of env d s"
  shows "wk_answers s' = wk_answers s @
      [if out = DeliverySucceeded then Ack (DeliveryTag d) False else Nack (DeliveryTag d) False False]"
    and "WebhookDeliveryAttempts (fst (snd (wk_cb s'))) =
      WebhookDeliveryAttempts (fst (snd (wk_cb s))) @ outcome_labels out"
  unfolding s'_def out_def
  by (cases rule: delivery_cases [where d = d and env = env and s = s];
      simp add: handle_malformed handle_blocked handle_failed handle_success outcome_of_def Allow_attempts State_attempts)+

text \<open>The breaker of the target URL sees the admission and the result, no other breaker sees anything.\<close>

definition view_after :: "int \<Rightarrow> duration \<Rightarrow> env \<Rightarrow> WebhookEvent \<Rightarrow> breaker \<Rightarrow> breaker" where
  "view_after maxF timeout env ev b =
     (let b1 = spec_op maxF timeout OpAllow (t_allow env) b
      in if blocked timeout (t_allow env) b then spec_op maxF timeout OpState (t_state env) b1
         else if fst (deliverWithRetry env ev) = None then spec_op maxF timeout OpSuccess 0 b1
         else spec_op maxF timeout OpFailure (t_fail env) b1)"

lemma handle_view:
  assumes ok: "cb_world_ok maxF timeout (wk_cb s)" and ev: "unmarshal_event (MsgBody d) = Inr ev"
  shows "cb_world_ok maxF timeout (wk_cb (handleDelivery es env d s)) \<and>
    breaker_of (fst (wk_cb (handleDelivery es env d s))) =
      (breaker_of (fst (wk_cb s)))(EventURL ev := view_after maxF timeout env ev (breaker_of (fst (wk_cb s)) (EventURL ev)))"
proof (cases rule: delivery_cases [where d = d and env = env and s = s])
  case (blocked ev' c1 st c2)
  note A = url_breaker.allow_law [OF ok blocked(2)]
  with url_breaker.state_law [of maxF timeout "count_attempt ''circuit_breaker_blocked'' c1", OF _ blocked(3)] blocked ev
  show ?thesis by (simp add: handle_blocked view_after_def Let_def)
next
  case (failed ev' c1 err tr)
  note A = url_breaker.allow_law [OF ok failed(2)]
  with url_breaker.failure_law [of maxF timeout "count_attempt ''failed'' c1" "t_fail env" "EventURL ev"] failed ev
  show ?thesis by (simp add: handle_failed view_after_def Let_def)
next
  case (success ev' c1 tr)
  note A = url_breaker.allow_law [OF ok success(2)]
  with url_breaker.success_law [of maxF timeout "count_attempt ''success'' c1" "EventURL ev"] success ev
  show ?thesis by (simp add: handle_success view_after_def Let_def)
qed (use ev in simp)

lemma handle_other:
  assumes "cb_world_ok maxF timeout (wk_cb s)" and "\<not> is_for url d"
  shows "cb_world_ok maxF timeout (wk_cb (handleDelivery es env d s)) \<and>
    breaker_of (fst (wk_cb (handleDelivery es env d s))) url = breaker_of (fst (wk_cb s)) url"
proof (cases "unmarshal_event (MsgBody d)")
  case (Inr ev)
  with assms handle_view [where d = d, OF assms(1) Inr, of es env] show ?thesis by (simp add: is_for_def)
qed (use assms in \<open>simp add: handle_malformed\<close>)

text \<open>Failing deliveries count up the closed breaker of their URL, deliveries to other URLs do not matter.\<close>

lemma run_counts:
  assumes "cb_world_ok maxF timeout (wk_cb s)" and "breaker_of (fst (wk_cb s)) url = Closed n"
    and "\<forall>ed \<in> set ds. is_for url (snd ed) \<longrightarrow> delivery_fails ed"
    and "n + int (length (filter (\<lambda>ed. is_for url (snd ed)) ds)) < maxF"
  shows "cb_world_ok maxF timeout (wk_cb (worker_run es ds s)) \<and>
    breaker_of (fst (wk_cb (worker_run es ds s))) url =
      Closed (n + int (length (filter (\<lambda>ed. is_for url (snd ed)) ds)))"
  using assms
proof (induction ds arbitrary: s n)
  case (Cons ed ds)
  obtain env d where ed: "ed = (env, d)" by fastforce
  let ?s = "handleDelivery es env d s"
  show ?case
  proof (cases "is_for url d")
    case False
    with Cons.prems Cons.IH [of ?s n] handle_other [OF Cons.prems(1) False, of es env] show ?thesis
      by (simp add: ed)
  next
    case True
    then obtain ev where ev: "unmarshal_event (MsgBody d) = Inr ev" "EventURL ev = url"
      by (auto simp: is_for_def split: sum.splits)
    with Cons.prems True have "fst (deliverWithRetry env ev) \<noteq> None" by (simp add: ed delivery_fails_def)
    then have "breaker_of (fst (wk_cb ?s)) url = Closed (n + 1)"
      using handle_view [where d = d, OF Cons.prems(1) ev(1), of es env] Cons.prems(2,4) ev True
      by (auto simp: ed view_after_def Let_def blocked_def)
    with Cons.prems Cons.IH [of ?s "n + 1"] handle_view [where d = d, OF Cons.prems(1) ev(1), of es env] True show ?thesis
      by (simp add: ed algebra_simps)
  qed
qed simp

lemma worker_run_append:
  "worker_run es (ds @ ds') s = worker_run es ds' (worker_run es ds s)"
  by (induction ds arbitrary: s) auto

text \<open>What an update of a row's status did, with the context cancelled or not.\<close>

definition row_updated ::
  "'d pg_pool \<Rightarrow> ('d \<Rightarrow> event_table) \<Rightarrow> bool \<Rightarrow> string \<Rightarrow> string \<Rightarrow> string \<Rightarrow> 'd \<Rightarrow> 'd \<Rightarrow> bool" where
  "row_updated pool table cancelled i status msg db db' \<longleftrightarrow>
     (if cancelled then table db' = table db
      else table db' = set_status i status msg (table db) \<or>
        table db' = table db \<and> fst (UpdateEventStatus pool False i status msg db) \<noteq> None)"

lemma row_updatedI:
  assumes "postgres pool table jsonb to_char" and "uuid_text i"
  shows "row_updated pool table cancelled i status msg db (snd (UpdateEventStatus pool cancelled i status msg db))"
  using postgres.UpdateEventStatus_law [OF assms(1), of cancelled i status msg db] assms(2)
  by (cases "UpdateEventStatus pool cancelled i status msg db") (auto simp: row_updated_def)

subsection \<open>Goroutines\<close>

inductive_cases worker_stepE: "worker_step es c c'"

lemma handler_stays:
  "handler_step es env st s = (Some st', s') \<Longrightarrow>
     stage_delivery st' = stage_delivery st \<and> stage_rank st' < stage_rank st \<and> wk_answers s' = wk_answers s"
  by (cases st) (auto split: sum.splits prod.splits option.splits)

lemma handler_ends:
  "handler_step es env st s = (None, s') \<Longrightarrow>
     map answer_tag (wk_answers s') = map answer_tag (wk_answers s) @ [DeliveryTag (stage_delivery st)]"
  by (cases st) (auto split: sum.splits prod.splits option.splits)

lemma stage_rank_pos: "0 < stage_rank st"
  by (cases st) auto

lemma worker_step_balanced:
  assumes "worker_step es c c'" and "tags_balanced s0 c"
  shows "tags_balanced s0 c'"
  using assms
proof (cases rule: worker_step.cases)
  case (handle us st env vs st' s')
  with assms(2) show ?thesis
    using handler_stays [of es env st "c_shared c" _ s'] handler_ends [of es env st "c_shared c" s']
    by (cases st') (auto simp: tags_balanced_def)
qed (auto simp: tags_balanced_def)

lemma worker_reach_balanced: "worker_reach es s0 c \<Longrightarrow> tags_balanced s0 c"
  by (induction rule: worker_reach.induct) (simp add: tags_balanced_def, blast intro: worker_step_balanced)

lemma worker_reach_returned:
  "worker_reach es s0 c \<Longrightarrow> c_phase c = Returned e \<Longrightarrow> c_active c = []"
proof (induction arbitrary: e rule: worker_reach.induct)
  case (step c c')
  from step.hyps(2) step.prems step.IH show ?case by (cases rule: worker_step.cases) auto
qed simp

lemma worker_step_rank:
  assumes "worker_step es c c'" and "c_phase c \<noteq> Consuming"
  shows "drain_rank c' < drain_rank c \<and> c_phase c' \<noteq> Consuming \<and> c_received c' = c_received c"
  using assms
proof (cases rule: worker_step.cases)
  case (handle us st env vs st' s')
  with assms(2) show ?thesis
    using handler_stays [of es env st "c_shared c" _ s'] stage_rank_pos [of st]
    by (cases st') (auto simp: drain_rank_def)
qed (auto simp: drain_rank_def)

lemma worker_progress:
  assumes "c_phase c = Waiting"
  shows "\<exists>c'. worker_step es c c'"
proof (cases "c_active c")
  case Nil
  with assms return show ?thesis by blast
next
  case (Cons a vs)
  obtain st env where "a = (st, env)" by fastforce
  with Cons have "c_active c = [] @ (st, env) # vs" by simp
  moreover obtain st' s' where "handler_step es env st (c_shared c) = (st', s')" by (metis surj_pair)
  ultimately show ?thesis by (blast intro: handle)
qed

lemma handler_run_eq: "handler_run 5 es env (Received d) s = (None, handleDelivery es env d s)"
  by (cases rule: delivery_cases [where d = d and env = env and s = s])
    (simp_all add: handle_malformed handle_blocked handle_failed handle_success eval_nat_numeral)

lemma no_step_returned:
  assumes "c_phase c = Returned e" and "c_active c = []"
  shows "\<not> worker_step es c c'"
  using assms by (auto elim: worker_stepE)

subsection \<open>Sample data\<close>

definition sample_env :: "http_outcome \<Rightarrow> gotime \<Rightarrow> env" where
  "sample_env r t = \<lparr>t_allow = t, t_state = t, t_fail = t, build_err = None, post = (\<lambda>n. r),
     backoff_cancelled = (\<lambda>n. None), update_cancelled = False\<rparr>"

definition sample_worker :: "(ref_db, unit) worker_state" where
  "sample_worker = \<lparr>wk_cb = (NewURLCircuitBreaker 5 (30 * Second), new_metrics, ()),
     wk_db = ([(uuid_a, sample_row ''pending'')], 0), wk_wire = [], wk_answers = []\<rparr>"

lemma sample_fails: "delivery_fails (sample_env (HttpStatus 500) t, \<lparr>DeliveryTag = n, MsgBody = sample_body\<rparr>)"
  by (simp add: delivery_fails_def sample_body_decodes attempts_3 sample_env_def is_2xx_def Let_def)

section \<open>Properties\<close>






text \<open>
  C40: A delivery changes at most the row of its event: an acked one is marked \<^verbatim>\<open>success\<close>
  without error message, a nacked one \<^verbatim>\<open>failed\<close> with a message, or the update reported an
  error and changed nothing. When the worker's context is already cancelled the update never
  happens: the message is answered, but the row keeps its old status.
\<close>

theorem delivery_updates_row:
  fixes s :: "('d, 'w) worker_state" and env d pool table
  defines "s' \<equiv> handleDelivery (NewPostgresEventStore pool) env d s"
    and "acked \<equiv> outcome_of env d s = DeliverySucceeded"
  assumes pg: "postgres pool table jsonb to_char"
    and ev: "unmarshal_event (MsgBody d) = Inr ev" and i: "uuid_text (ID ev)"
  shows "\<exists>msg. (acked \<longleftrightarrow> msg = '''') \<and>
    row_updated pool table (update_cancelled env) (ID ev) (if acked then ''success'' else ''failed'') msg (wk_db s) (wk_db s')"
proof -
  note upd = row_updatedI [OF pg i, of "update_cancelled env" _ _ "wk_db s"]
  show ?thesis
  proof (cases rule: delivery_cases [where d = d and env = env and s = s])
    case (blocked ev' c1 st c2)
    then have "wk_db s' = snd (UpdateEventStatus pool (update_cancelled env) (ID ev) ''failed'' (blocked_error st) (wk_db s))"
      and "\<not> acked"
      using ev by (simp_all add: s'_def acked_def handle_blocked outcome_of_def)
    moreover have "blocked_error st \<noteq> ''''" by (simp add: blocked_error_def)
    ultimately show ?thesis using upd by auto
  next
    case (failed ev' c1 err tr)
    then have "wk_db s' = snd (UpdateEventStatus pool (update_cancelled env) (ID ev) ''failed'' err (wk_db s))"
      and "\<not> acked"
      using ev by (simp_all add: s'_def acked_def handle_failed outcome_of_def)
    moreover have "err \<noteq> ''''" using deliver_error_nonempty [OF failed(3)] .
    ultimately show ?thesis using upd by auto
  next
    case (success ev' c1 tr)
    then have "wk_db s' = snd (UpdateEventStatus pool (update_cancelled env) (ID ev) ''success'' '''' (wk_db s))"
      and acked
      using ev by (simp_all add: s'_def acked_def handle_success outcome_of_def)
    then show ?thesis using upd by auto
  qed (use ev in simp)
qed

theorem delivery_updates_row_witness:
  "ref_table (wk_db (handleDelivery (NewPostgresEventStore ref_pool)
       (sample_env (HttpStatus 500) 0\<lparr>update_cancelled := True\<rparr>) \<lparr>DeliveryTag = 1, MsgBody = sample_body\<rparr> sample_worker)) uuid_a =
     Some (sample_row ''pending'')"
proof -
  let ?env = "sample_env (HttpStatus 500) 0\<lparr>update_cancelled := True\<rparr>" and ?d = "\<lparr>DeliveryTag = 1, MsgBody = sample_body\<rparr>"
  have "unmarshal_event (MsgBody ?d) = Inr (sample_event uuid_a ''k'')"
    by (simp add: sample_body_decodes)
  from delivery_updates_row [where d = ?d and env = ?env and s = sample_worker,
      OF refdb.postgres_axioms this] show ?thesis
    by (auto simp: row_updated_def sample_worker_def ref_table_def)
qed

text \<open>
  A goroutine that handles a delivery without interruption does in its (at most five)
  accesses to shared state exactly what \<^verbatim>\<open>handleDelivery\<close> does.
\<close>

theorem goroutine_is_handler:
  "handler_run 5 es env (Received d) s = (None, handleDelivery es env d s)"
  by (rule handler_run_eq)

text \<open>
  C9: When \<^verbatim>\<open>Start\<close> returns, every delivery it received has been answered exactly once,
  whatever the interleaving of the handler goroutines, and no handler is left running.
\<close>

theorem worker_drains:
  assumes "worker_reach es s0 c" and "c_phase c = Returned e"
  shows "c_active c = [] \<and>
    mset (map answer_tag (wk_answers (c_shared c))) =
      mset (map answer_tag (wk_answers s0)) + mset (map DeliveryTag (c_received c))"
  using worker_reach_balanced [OF assms(1)] worker_reach_returned [OF assms] by (simp add: tags_balanced_def)

theorem worker_drains_witness:
  "\<exists>c. worker_reach (NewPostgresEventStore ref_pool) sample_worker c \<and> c_phase c = Returned None \<and>
     mset (map answer_tag (wk_answers (c_shared c))) = {#7#}"
proof -
  let ?reach = "worker_reach (NewPostgresEventStore ref_pool) sample_worker"
  define c0 :: "(ref_db, unit) consumer" where
    "c0 = \<lparr>c_phase = Consuming, c_active = [], c_received = [], c_shared = sample_worker\<rparr>"
  define d where "d = \<lparr>DeliveryTag = 7, MsgBody = ''bad''\<rparr>"
  define env where "env = sample_env (HttpStatus 500) 0"
  have "?reach c0" using start [of _ sample_worker None None None] by (simp add: c0_def start_phase_def)
  then have 1: "?reach (c0\<lparr>c_active := [(Received d, env)], c_received := [d]\<rparr>)"
    using receive [of c0 "NewPostgresEventStore ref_pool" d env]
    by (auto simp: c0_def intro: step)
  have 2: "?reach (c0\<lparr>c_active := [(Answering d False, env)], c_received := [d]\<rparr>)"
    using step [OF 1 handle [of _ "[]" "Received d" env "[]"]] by (simp add: c0_def d_def bad_body)
  have 3: "?reach (c0\<lparr>c_received := [d], c_shared := sample_worker\<lparr>wk_answers := [Nack 7 False False]\<rparr>\<rparr>)"
    using step [OF 2 handle [of _ "[]" "Answering d False" env "[]"]] by (simp add: c0_def d_def sample_worker_def)
  have 4: "?reach (c0\<lparr>c_phase := Waiting, c_received := [d], c_shared := sample_worker\<lparr>wk_answers := [Nack 7 False False]\<rparr>\<rparr>)"
    using step [OF 3 stop] by (simp add: c0_def)
  have 5: "?reach (c0\<lparr>c_phase := Returned None, c_received := [d], c_shared := sample_worker\<lparr>wk_answers := [Nack 7 False False]\<rparr>\<rparr>)"
    using step [OF 4 return] by (simp add: c0_def)
  from worker_drains [OF 5] 5 show ?thesis
    by (intro exI [of _ "c0\<lparr>c_phase := Returned None, c_received := [d], c_shared := sample_worker\<lparr>wk_answers := [Nack 7 False False]\<rparr>\<rparr>"])
      (auto simp: sample_worker_def d_def)
qed

text \<open>
  Shutdown terminates: once \<^verbatim>\<open>Start\<close> has stopped consuming, it can always take a step
  until it has returned, it receives nothing more, and every step of any goroutine brings it
  closer, so that no schedule delays the return forever.
\<close>

theorem worker_shutdown_terminates:
  assumes "c_phase c = Waiting"
  shows "(\<exists>c'. worker_step es c c') \<and>
    (\<forall>c'. worker_step es c c' \<longrightarrow>
      drain_rank c' < drain_rank c \<and> c_received c' = c_received c \<and> (c_phase c' = Waiting \<or> c_phase c' = Returned None))"
proof -
  have "c_phase c' = Waiting \<or> c_phase c' = Returned None" if "worker_step es c c'" for c'
    using that assms by (cases rule: worker_step.cases) auto
  with assms show ?thesis using worker_progress [OF assms] worker_step_rank by (metis phase.distinct(1))
qed

theorem worker_shutdown_terminates_witness:
  "\<exists>c'. worker_step (NewPostgresEventStore ref_pool)
     \<lparr>c_phase = Waiting, c_active = [(Received \<lparr>DeliveryTag = 1, MsgBody = ''bad''\<rparr>, sample_env (HttpStatus 200) 0)],
      c_received = [], c_shared = sample_worker\<rparr> c'"
  using worker_shutdown_terminates [of
     "\<lparr>c_phase = Waiting, c_active = [(Received \<lparr>DeliveryTag = 1, MsgBody = ''bad''\<rparr>, sample_env (HttpStatus 200) 0)],
      c_received = [], c_shared = sample_worker\<rparr>" "NewPostgresEventStore ref_pool"]
  by simp

text \<open>
  A schedule after the end of consumption: at every point some goroutine takes a step, unless
  none can.
\<close>

definition schedule :: "'d EventStore \<Rightarrow> (nat \<Rightarrow> ('d, 'w) consumer) \<Rightarrow> bool" where
  "schedule es f \<longleftrightarrow> (\<forall>i. worker_step es (f i) (f (Suc i)) \<or> (\<forall>c. \<not> worker_step es (f i) c) \<and> f (Suc i) = f i)"

lemma schedule_drains:
  assumes "schedule es f" and "c_phase (f 0) = Waiting"
  shows "(\<forall>i \<le> n. c_phase (f i) = Waiting) \<longrightarrow> drain_rank (f n) + n \<le> drain_rank (f 0) \<and> c_received (f n) = c_received (f 0)"
proof (induction n)
  case (Suc n)
  show ?case
  proof
    assume w: "\<forall>i \<le> Suc n. c_phase (f i) = Waiting"
    then have phase: "c_phase (f n) = Waiting" and IH: "drain_rank (f n) + n \<le> drain_rank (f 0)" "c_received (f n) = c_received (f 0)"
      using Suc.IH by auto
    have "worker_step es (f n) (f (Suc n))"
      using assms(1) worker_progress [OF phase] unfolding schedule_def by blast
    with worker_shutdown_terminates [OF phase, of es] IH
    show "drain_rank (f (Suc n)) + Suc n \<le> drain_rank (f 0) \<and> c_received (f (Suc n)) = c_received (f 0)" by fastforce
  qed
qed simp

lemma schedule_reaches:
  assumes "worker_reach es s0 (f 0)" and "schedule es f"
  shows "worker_reach es s0 (f n)"
proof (induction n)
  case (Suc n)
  with assms(2) show ?case unfolding schedule_def by (metis worker_reach.step)
qed (rule assms(1))

text \<open>
  C14: Every delivery that was received is answered: from the moment \<^verbatim>\<open>Start\<close> stops consuming,
  under every schedule of the handler goroutines, \<^verbatim>\<open>Start\<close> returns after a bounded number of
  steps, and then each received delivery has exactly one answer.
\<close>

theorem deliveries_eventually_answered:
  assumes "worker_reach es s0 (f 0)" and "c_phase (f 0) = Waiting" and "schedule es f"
  shows "\<exists>n \<le> Suc (drain_rank (f 0)). c_phase (f n) = Returned None \<and>
    mset (map answer_tag (wk_answers (c_shared (f n)))) =
      mset (map answer_tag (wk_answers s0)) + mset (map DeliveryTag (c_received (f 0)))"
proof -
  let ?N = "Suc (drain_rank (f 0))"
  have "\<exists>n \<le> ?N. c_phase (f n) \<noteq> Waiting"
    using schedule_drains [OF assms(3,2), of ?N] by force
  then obtain n where n: "n \<le> ?N" "c_phase (f n) \<noteq> Waiting" "\<forall>i < n. c_phase (f i) = Waiting"
    using exists_least_iff [of "\<lambda>n. c_phase (f n) \<noteq> Waiting"] by (metis le_trans linorder_not_less nat_le_linear)
  then obtain m where m: "n = Suc m" using assms(2) by (cases n) auto
  with n have w: "\<forall>i \<le> m. c_phase (f i) = Waiting" by auto
  then have step: "worker_step es (f m) (f n)"
    using assms(3) worker_progress [of "f m" es] m unfolding schedule_def by blast
  note t = worker_shutdown_terminates [of "f m" es]
  have ret: "c_phase (f n) = Returned None" "c_received (f n) = c_received (f 0)"
    using t step n(2) w schedule_drains [OF assms(3,2), of m] by auto
  from worker_reach_balanced [OF schedule_reaches [OF assms(1,3), of n]]
    worker_reach_returned [OF schedule_reaches [OF assms(1,3), of n] ret(1)] ret n(1)
  show ?thesis by (intro exI [of _ n]) (simp add: tags_balanced_def)
qed

text \<open>A schedule of a worker with one malformed message.\<close>

definition sample_consumer :: "(stage \<times> env) list \<Rightarrow> phase \<Rightarrow> answer list \<Rightarrow> (ref_db, unit) consumer" where
  "sample_consumer hs ph as = \<lparr>c_phase = ph, c_active = hs, c_received = [\<lparr>DeliveryTag = 7, MsgBody = ''bad''\<rparr>],
     c_shared = sample_worker\<lparr>wk_answers := as\<rparr>\<rparr>"

definition sample_schedule :: "nat \<Rightarrow> (ref_db, unit) consumer" where
  "sample_schedule i =
     (let d = \<lparr>DeliveryTag = 7, MsgBody = ''bad''\<rparr>; env = sample_env (HttpStatus 500) 0 in
      if i = 0 then sample_consumer [(Received d, env)] Waiting []
      else if i = 1 then sample_consumer [(Answering d False, env)] Waiting []
      else if i = 2 then sample_consumer [] Waiting [Nack 7 False False]
      else sample_consumer [] (Returned None) [Nack 7 False False])"

lemma sample_schedule_ok: "schedule (NewPostgresEventStore ref_pool) sample_schedule"
  unfolding schedule_def
proof
  fix i
  let ?es = "NewPostgresEventStore ref_pool"
  let ?d = "\<lparr>DeliveryTag = 7, MsgBody = ''bad''\<rparr>" and ?env = "sample_env (HttpStatus 500) 0"
  let ?c = "sample_schedule i" and ?c' = "sample_schedule (Suc i)"
  consider "i = 0" | "i = 1" | "i = 2" | "i > 2" by linarith
  then show "worker_step ?es ?c ?c' \<or> (\<forall>c. \<not> worker_step ?es ?c c) \<and> ?c' = ?c"
  proof cases
    case 1
    then have "c_active ?c = [] @ (Received ?d, ?env) # []" by (simp add: sample_schedule_def sample_consumer_def)
    from handle [OF this, of ?es] 1 show ?thesis by (simp add: sample_schedule_def sample_consumer_def bad_body)
  next
    case 2
    then have "c_active ?c = [] @ (Answering ?d False, ?env) # []" by (simp add: sample_schedule_def sample_consumer_def)
    from handle [OF this, of ?es] 2 show ?thesis by (simp add: sample_schedule_def sample_consumer_def)
  next
    case 3
    then show ?thesis using return [of ?c ?es] by (simp add: sample_schedule_def sample_consumer_def)
  next
    case 4
    then show ?thesis using no_step_returned [of ?c None ?es] by (simp add: sample_schedule_def sample_consumer_def)
  qed
qed

lemma sample_schedule_start: "worker_reach (NewPostgresEventStore ref_pool) sample_worker (sample_schedule 0)"
proof -
  let ?es = "NewPostgresEventStore ref_pool"
  let ?d = "\<lparr>DeliveryTag = 7, MsgBody = ''bad''\<rparr>" and ?env = "sample_env (HttpStatus 500) 0"
  let ?c0 = "\<lparr>c_phase = Consuming, c_active = [], c_received = [], c_shared = sample_worker\<rparr>"
  have "worker_reach ?es sample_worker ?c0" using start [of _ sample_worker None None None] by (simp add: start_phase_def)
  from step [OF this receive, of ?d ?env]
  have "worker_reach ?es sample_worker (sample_consumer [(Received ?d, ?env)] Consuming [])"
    by (simp add: sample_consumer_def sample_worker_def)
  from step [OF this stop] show ?thesis by (simp add: sample_schedule_def sample_consumer_def)
qed

theorem deliveries_eventually_answered_witness:
  "\<exists>n. c_phase (sample_schedule n) = Returned None \<and> mset (map answer_tag (wk_answers (c_shared (sample_schedule n)))) = {#7#}"
proof -
  have "c_phase (sample_schedule 0) = Waiting" "map DeliveryTag (c_received (sample_schedule 0)) = [7]" "wk_answers sample_worker = []"
    by (simp_all add: sample_schedule_def sample_consumer_def sample_worker_def)
  with deliveries_eventually_answered [OF sample_schedule_start _ sample_schedule_ok] show ?thesis by auto
qed

end
