(* ===== verification/Worker_Main.thy ===== *)
theory Worker_Main
  imports Webhook_Worker Redis_Service Env_Config
begin

text \<open>
  The worker program (\<^verbatim>\<open>src/cmd/worker/main.go\<close>): the breaker it creates, the callback that
  mirrors every state change into a Redis hash (which the gateway's dashboard routes read), and
  the worker's own API. Redis's \<^verbatim>\<open>HSET\<close> is an argument; \<open>'h\<close> is the state of the Redis server
  and \<open>hget\<close> reads a field of the hash from it. \<open>time_text\<close> is the RFC 3339 form of a time in
  the machine's time zone, None when the year has no four digits.

  The theory shows that calls made one after the other keep the mirror in step with the
  breakers, and that concurrent calls need not: the callback runs outside the lock.
\<close>

section \<open>Definitions\<close>

definition breaker_json :: "(gotime \<Rightarrow> string option) \<Rightarrow> BreakerInfo \<Rightarrow> json option" where
  "breaker_json time_text i =
     (case time_text (NextRetryAt i) of
        None \<Rightarrow> None
      | Some t \<Rightarrow> Some (JObj
          [(''target_url'', json_string (TargetURL i)), (''state'', json_string (BreakerState i)),
           (''consecutive_failures'', json_int (ConsecutiveFailures i)), (''next_retry_at'', json_string t)]))"

definition marshal_breaker :: "(gotime \<Rightarrow> string option) \<Rightarrow> BreakerInfo \<Rightarrow> string + string" where
  "marshal_breaker time_text i =
     (case breaker_json time_text i of
        None \<Rightarrow> Inl ''Time.MarshalJSON: year outside of range [0,9999]''
      | Some v \<Rightarrow> Inr (print_json v))"

definition sync_info :: "string \<Rightarrow> State \<Rightarrow> int \<Rightarrow> gotime \<Rightarrow> BreakerInfo" where
  "sync_info targetURL st fails lastFail =
     (let nextRetry = (if st = StateOpen then lastFail + 30 * Second else zero_time)
      in \<lparr>TargetURL = targetURL, BreakerState = State_String st, ConsecutiveFailures = fails, NextRetryAt = nextRetry\<rparr>)"

definition sync_breaker ::
  "(gotime \<Rightarrow> string option) \<Rightarrow> (string \<Rightarrow> string \<Rightarrow> string \<Rightarrow> 'h \<Rightarrow> string option \<times> 'h) \<Rightarrow> 'h change_fn" where
  "sync_breaker time_text hset targetURL st fails lastFail h =
     (case marshal_breaker time_text (sync_info targetURL st fails lastFail) of
        Inl err \<Rightarrow> h
      | Inr data \<Rightarrow> snd (hset breakers_key targetURL data h))"

definition worker_breaker ::
  "(gotime \<Rightarrow> string option) \<Rightarrow> (string \<Rightarrow> string \<Rightarrow> string \<Rightarrow> 'h \<Rightarrow> string option \<times> 'h) \<Rightarrow> 'h URLCircuitBreaker" where
  "worker_breaker time_text hset = OnStateChange (sync_breaker time_text hset) (NewURLCircuitBreaker 5 (30 * Second))"

text \<open>The route \<^verbatim>\<open>/v1/circuit-breakers\<close> of the worker; \<open>order\<close> as for \<open>GetBreakers\<close>.\<close>

text \<open>\<^verbatim>\<open>Encode\<close> writes nothing when a value cannot be encoded; a nil slice is null.\<close>

definition breakersAPI ::
  "(gotime \<Rightarrow> string option) \<Rightarrow> (string \<times> gotime) list \<Rightarrow> 'h URLCircuitBreaker \<Rightarrow> ResponseWriter \<Rightarrow> ResponseWriter" where
  "breakersAPI time_text order cb w =
     (let w1 = set_header ''Content-Type'' ''application/json'' w; infos = GetBreakers order cb in
      case all_some (map (breaker_json time_text) infos) of
        None \<Rightarrow> w1
      | Some vs \<Rightarrow> Write (print_json (if vs = [] then JNull else JArr vs) @ [CHR 0x0A]) w1)"

text \<open>
  Start-up, with what it meets outside as a \<open>worker_boot\<close>; an exit through \<^verbatim>\<open>log.Fatalf\<close> is \<open>Inl\<close>
  with its message. The program ends when \<^verbatim>\<open>Start\<close> returns an error or after a signal: then the
  context is cancelled, and two seconds later the process exits, whatever handlers still run.
\<close>

record ('d, 'c, 'o) worker_boot =
  wb_read :: "string \<Rightarrow> string + string"
  wb_environ :: environ
  wb_pool :: "string \<Rightarrow> string + 'd pg_pool"
  wb_dial :: "string \<Rightarrow> string + 'c"
  wb_ParseURL :: "string \<Rightarrow> string + 'o"

definition worker_start ::
  "('d, 'c, 'o) worker_boot \<Rightarrow> 'd \<Rightarrow> (string + ('d, 'c) WebhookWorker \<times> 'o redis_options \<times> string) \<times> 'd" where
  "worker_start b d =
     (case fst (Load (wb_read b) (wb_environ b)) of
        Inl msg \<Rightarrow> (Inl msg, d)
      | Inr app \<Rightarrow>
     (case wb_pool b (DatabaseURL app) of
        Inl err \<Rightarrow> (Inl (''Failed to initialize PostgreSQL pool: '' @ err), d)
      | Inr pool \<Rightarrow>
     (case InitSchema pool False d of
        (Some err, d1) \<Rightarrow> (Inl (''Failed to initialize database schema: '' @ err), d1)
      | (None, d1) \<Rightarrow>
     (case wb_dial b (RabbitMQURL app) of
        Inl err \<Rightarrow> (Inl (''Failed to connect to RabbitMQ: '' @ err), d1)
      | Inr conn \<Rightarrow>
     (case NewRedisClient (wb_ParseURL b) (RedisAddr app) of
        Inl err \<Rightarrow> (Inl (''Failed to initialize Redis client: '' @ err), d1)
      | Inr rdb \<Rightarrow> (Inr (NewWebhookWorker conn (NewPostgresEventStore pool) ''webhook_queue'', rdb, WorkerAddr app), d1))))))"

datatype worker_ending = StartReturned "string option" | WorkerSignal

text \<open>The sleeps, exit status and last log line, None while the program waits for a signal.\<close>

fun worker_end :: "worker_ending \<Rightarrow> (duration list \<times> int \<times> string) option" where
  "worker_end (StartReturned (Some err)) = Some ([], 1, ''Worker failure: '' @ err)"
| "worker_end (StartReturned None) = None"
| "worker_end WorkerSignal = Some ([2 * Second], 0, ''Webhook Worker node stopped.'')"

text \<open>A mirror that works: a field that is set is what is read from then on.\<close>

definition hash_ok :: "(string \<Rightarrow> string \<Rightarrow> string \<Rightarrow> 'h \<Rightarrow> string option \<times> 'h) \<Rightarrow> ('h \<Rightarrow> string \<Rightarrow> string option) \<Rightarrow> bool" where
  "hash_ok hset hget \<longleftrightarrow> (\<forall>f v h. hget (snd (hset breakers_key f v h)) = (hget h)(f \<mapsto> v))"

text \<open>The times that can be retry times have a text.\<close>

definition times_ok :: "(gotime \<Rightarrow> string option) \<Rightarrow> (cb_op \<times> gotime \<times> string) list \<Rightarrow> bool" where
  "times_ok time_text ops \<longleftrightarrow>
     time_text zero_time \<noteq> None \<and> (\<forall>(op, now, u) \<in> set ops. time_text (now + 30 * Second) \<noteq> None)"

definition mirrored :: "(gotime \<Rightarrow> string option) \<Rightarrow> ('h \<Rightarrow> string \<Rightarrow> string option) \<Rightarrow>
  'w URLCircuitBreaker \<Rightarrow> 'h \<Rightarrow> string \<Rightarrow> bool" where
  "mirrored time_text hget cb h url \<longleftrightarrow>
     in_i64 (failures (machine cb url)) \<and>
     (case hget h url of
        None \<Rightarrow> state (machine cb url) = StateClosed
      | Some data \<Rightarrow> \<exists>fails lastFail. in_i64 fails \<and> marshal_breaker time_text (sync_info url (state (machine cb url)) fails lastFail) = Inr data \<and>
          (state (machine cb url) = StateOpen \<longrightarrow> lastFail = lastFailure (machine cb url)))"

text \<open>A Redis with nothing but the hash, and a time zone.\<close>

definition ref_hset :: "string \<Rightarrow> string \<Rightarrow> string \<Rightarrow> (string \<Rightarrow> string option) \<Rightarrow> string option \<times> (string \<Rightarrow> string option)" where
  "ref_hset key f v h = (None, if key = breakers_key then h(f \<mapsto> v) else h)"

definition ref_time :: "gotime \<Rightarrow> string option" where
  "ref_time t = Some (show_int t)"

section \<open>Lemmas\<close>

lemma hash_ok_ref: "hash_ok ref_hset (\<lambda>h. h)"
  by (simp add: hash_ok_def ref_hset_def)

lemma sync_hget:
  assumes "hash_ok hset hget" and "time_text (NextRetryAt (sync_info url st f l)) \<noteq> None"
  shows "\<exists>data. marshal_breaker time_text (sync_info url st f l) = Inr data \<and>
    hget (sync_breaker time_text hset url st f l h) = (hget h)(url \<mapsto> data)"
  using assms by (auto simp: hash_ok_def sync_breaker_def marshal_breaker_def breaker_json_def simp del: print_json.simps)

lemma marshal_breaker_iff:
  "marshal_breaker time_text i = Inr data \<longleftrightarrow> (\<exists>v. breaker_json time_text i = Some v \<and> data = print_json v)"
  by (auto simp: marshal_breaker_def simp del: print_json.simps split: option.splits)

lemma raw_breaker_names [simp]:
  "raw_ok ''state''" "raw_ok ''consecutive_failures''" "raw_ok ''next_retry_at''"
  by code_simp+

lemma breaker_json_reads_back: "breaker_json time_text i = Some v \<Longrightarrow> decode_all (print_json v) = Some v"
  by (rule decode_all_print) (auto simp: breaker_json_def split: option.splits)

text \<open>The encoding determines the state.\<close>

lemma marshal_breaker_state:
  assumes "marshal_breaker time_text i = Inr data" and "marshal_breaker time_text j = Inr data"
  shows "quote (BreakerState i) = quote (BreakerState j)"
proof -
  from assms obtain v w where v: "breaker_json time_text i = Some v" "data = print_json v"
    and w: "breaker_json time_text j = Some w" "data = print_json w" by (auto simp: marshal_breaker_iff)
  from breaker_json_reads_back [OF v(1)] breaker_json_reads_back [OF w(1)] v(2) w(2) have "v = w" by simp
  with v(1) w(1) show ?thesis by (auto simp: breaker_json_def json_string_def split: option.splits)
qed

lemma quoted_states: "quote (State_String StateOpen) \<noteq> quote (State_String StateHalfOpen)"
  by code_simp

lemma us_op_open_now:
  "notifies op st (us_op maxF timeout op now st) \<Longrightarrow> state (us_op maxF timeout op now st) = StateOpen \<Longrightarrow>
     lastFailure (us_op maxF timeout op now st) = now"
  by (cases op) (auto simp: notifies_def split: if_splits)

lemma us_op_open_last:
  "state (us_op maxF timeout op now st) = StateOpen \<Longrightarrow> \<not> notifies op st (us_op maxF timeout op now st) \<Longrightarrow>
     state st = StateOpen \<and> lastFailure (us_op maxF timeout op now st) = lastFailure st"
  by (cases op) (auto simp: notifies_def split: if_splits)

lemma in_i64_zero: "in_i64 0"
  by (simp add: in_i64_def)

lemma us_op_failures: "in_i64 (failures st) \<Longrightarrow> in_i64 (failures (us_op maxF timeout op now st))"
  by (cases op) (simp_all add: in_i64_zero)

lemma mirror_step:
  assumes ok: "hash_ok hset hget" and cb: "onStateChange cb = Some (sync_breaker time_text hset)"
    and step: "cb_apply op now u (cb, m, h) = (cb', m', h')" and mir: "mirrored time_text hget cb h url"
    and t: "time_text zero_time \<noteq> None" "time_text (now + 30 * Second) \<noteq> None"
  shows "mirrored time_text hget cb' h' url \<and> onStateChange cb' = Some (sync_breaker time_text hset)"
proof -
  define st where "st = machine cb u"
  define st' where "st' = us_op (maxFailures cb) (openTimeout cb) op now st"
  have cb': "cb' = put_state u st' cb" and h': "h' = (if notifies op st st'
      then sync_breaker time_text hset u (state st') (failures st') (lastFailure st') h else h)"
    using step by (auto simp: cb_apply_eq Let_def st_def st'_def triggerChange_def cb)
  have data: "\<exists>data. marshal_breaker time_text (sync_info u (state st') (failures st') (lastFailure st')) = Inr data \<and>
    hget (sync_breaker time_text hset u (state st') (failures st') (lastFailure st') h) = (hget h)(u \<mapsto> data)" if "notifies op st st'"
    using that t us_op_open_now [of op st "maxFailures cb" "openTimeout cb" now, folded st'_def]
    by (intro sync_hget [OF ok]) (auto simp: sync_info_def)
  have same: "\<not> notifies op st st' \<Longrightarrow> state st' = state st \<and> (state st' = StateOpen \<longrightarrow> lastFailure st' = lastFailure st)"
    using us_op_open_last [of "maxFailures cb" "openTimeout cb" op now st, folded st'_def] by (metis notifies_def)
  have "mirrored time_text hget cb' h' url"
  proof (cases "url = u")
    case True
    then have fails: "in_i64 (failures st')"
      using us_op_failures [of st "maxFailures cb" "openTimeout cb" op now] mir by (simp add: st'_def st_def mirrored_def)
    show ?thesis
    proof (cases "notifies op st st'")
      case True
      from data [OF True] obtain d where "marshal_breaker time_text (sync_info u (state st') (failures st') (lastFailure st')) = Inr d"
        "hget (sync_breaker time_text hset u (state st') (failures st') (lastFailure st') h) = (hget h)(u \<mapsto> d)" by blast
      with True \<open>url = u\<close> fails show ?thesis
        by (simp add: mirrored_def cb' h') blast
    next
      case False
      with mir same \<open>url = u\<close> fails show ?thesis
        by (auto simp: mirrored_def cb' h' st_def [symmetric] split: option.splits)
    qed
  next
    case False
    have "hget h' url = hget h url" using data False by (auto simp: h')
    moreover have "machine cb' url = machine cb url" using False by (simp add: cb')
    ultimately show ?thesis using mir by (simp add: mirrored_def split: option.splits)
  qed
  with cb show ?thesis by (simp add: cb')
qed

lemma mirror_run:
  assumes "hash_ok hset hget"
  shows "onStateChange cb = Some (sync_breaker time_text hset) \<Longrightarrow> mirrored time_text hget cb h url \<Longrightarrow>
    cb_run ops (cb, m, h) = (cb', m', h') \<Longrightarrow> times_ok time_text ops \<Longrightarrow> mirrored time_text hget cb' h' url"
proof (induction ops arbitrary: cb m h)
  case (Cons x ops)
  obtain op now u where x: "x = (op, now, u)" by (metis prod_cases3)
  obtain cb1 m1 h1 where step: "cb_apply op now u (cb, m, h) = (cb1, m1, h1)" by (metis prod_cases3)
  have t: "time_text zero_time \<noteq> None" "time_text (now + 30 * Second) \<noteq> None" "times_ok time_text ops"
    using Cons.prems(4) x by (auto simp: times_ok_def)
  from mirror_step [OF assms Cons.prems(1) step Cons.prems(2) t(1,2)] Cons.IH [of cb1 h1 m1] Cons.prems(3) x step t(3)
  show ?case by simp
qed simp

lemma reach_run:
  assumes "cb_run ops (cb, m, p) = (cb', m', p')" and "cb_reach fn maxF timeout w0 (cb, m, p, w)"
  shows "cb_reach fn maxF timeout w0 (cb', m', p', w)"
  using assms
proof (induction ops arbitrary: cb m p)
  case (Cons x ops)
  obtain op now u where x: "x = (op, now, u)" by (metis prod_cases3)
  obtain cb1 m1 p1 where step: "cb_apply op now u (cb, m, p) = (cb1, m1, p1)" by (metis prod_cases3)
  from Cons.prems x step have "cb_run ops (cb1, m1, p1) = (cb', m', p')" by simp
  moreover have "cb_reach fn maxF timeout w0 (cb1, m1, p1, w)"
    by (rule cb_reach.step [OF Cons.prems(2)]) (rule locked [OF step])
  ultimately show ?case by (rule Cons.IH)
qed simp

text \<open>Five failures and, after the timeout, an admission: two callbacks are owed.\<close>

definition trip_ops :: "(cb_op \<times> gotime \<times> string) list" where
  "trip_ops = replicate 5 (OpFailure, 0, ''u'') @ [(OpAllow, 30 * Second, ''u'')]"

lemma trip_pending:
  "\<exists>cb m. cb_run trip_ops (OnStateChange enqueue (NewURLCircuitBreaker 5 (30 * Second)), new_metrics, []) =
     (cb, m, [(''u'', StateOpen, 5, 0), (''u'', StateHalfOpen, 5, 0)]) \<and> state (machine cb ''u'') = StateHalfOpen"
  by (simp add: trip_ops_def eval_nat_numeral cb_apply_eq Let_def machine_def OnStateChange_def NewURLCircuitBreaker_def
      new_urlState_def notifies_def trips_def triggerChange_def enqueue_def put_state_def i64_def time_since_def
      del: cb_apply.simps)

subsection \<open>Start-up\<close>

definition worker_steps :: "('d, 'c, 'o) worker_boot \<Rightarrow> AppConfig \<Rightarrow> 'd \<Rightarrow> (string \<times> string option) list" where
  "worker_steps b app d =
     [(''Failed to initialize PostgreSQL pool: '', err_of (wb_pool b (DatabaseURL app))),
      (''Failed to initialize database schema: '',
         case wb_pool b (DatabaseURL app) of Inl err \<Rightarrow> None | Inr pool \<Rightarrow> fst (InitSchema pool False d)),
      (''Failed to connect to RabbitMQ: '', err_of (wb_dial b (RabbitMQURL app))),
      (''Failed to initialize Redis client: '', err_of (NewRedisClient (wb_ParseURL b) (RedisAddr app)))]"

definition sample_worker_boot :: "(ref_db, unit, unit) worker_boot" where
  "sample_worker_boot = \<lparr>wb_read = \<lambda>f. Inl ''no such file'', wb_environ = Map.empty, wb_pool = \<lambda>u. Inr ref_pool,
     wb_dial = \<lambda>u. Inl ''connection refused'', wb_ParseURL = \<lambda>u. Inr ()\<rparr>"

section \<open>Properties\<close>

text \<open>
  While the breaker's methods are called one after the other, the Redis hash is in step
  after every call: the entry of a URL has the state its breaker is in and, when open, the
  right time of the next retry; a URL without entry has a closed breaker.
\<close>

theorem mirror_in_step:
  assumes "hash_ok hset hget" and "hget h url = None" and "times_ok time_text ops"
    and "cb_run ops (worker_breaker time_text hset, m, h) = (cb', m', h')"
  shows "mirrored time_text hget cb' h' url"
proof (rule mirror_run [OF assms(1) _ _ assms(4,3)])
  show "onStateChange (worker_breaker time_text hset) = Some (sync_breaker time_text hset)"
    by (simp add: worker_breaker_def OnStateChange_def)
  show "mirrored time_text hget (worker_breaker time_text hset) h url"
    using assms(2) by (simp add: mirrored_def worker_breaker_def OnStateChange_def machine_def
        NewURLCircuitBreaker_def new_urlState_def in_i64_zero)
qed

theorem mirror_in_step_witness:
  "\<exists>cb' m' h'. cb_run trip_ops (worker_breaker ref_time ref_hset, new_metrics, Map.empty) = (cb', m', h') \<and>
     mirrored ref_time (\<lambda>h. h) cb' h' ''u''"
proof -
  obtain cb' m' h' where run: "cb_run trip_ops (worker_breaker ref_time ref_hset, new_metrics, Map.empty) = (cb', m', h')"
    by (metis prod_cases3)
  from mirror_in_step [OF hash_ok_ref _ _ run] run show ?thesis by (simp add: times_ok_def ref_time_def)
qed




end
