(* ===== verification/Limiter_Race.thy ===== *)
theory Limiter_Race
  imports Rate_Limiter
begin

text \<open>
  The rate limiter under concurrency (\<^verbatim>\<open>src/internal/ratelimit/ratelimiter.go\<close>). A gateway serves
  every request in its own goroutine, so calls of \<^verbatim>\<open>Allow\<close> interleave with each other, with the
  calls of other gateways on the same Redis, and with the invalidation listeners. \<open>allow_step\<close> runs
  a call from one access to shared state to the next: the cache lookup, the script in Redis, the
  cache update, the publication, the two atomic counters. \<open>race_step\<close> interleaves any number of
  them; the log lists the script runs in the order in which Redis made them.

  Shown: a call that runs alone is \<open>TwoTier_Allow\<close>; under every interleaving the grants of Redis
  keep the limit, every answer rests on an answer of the script or on a recent grant in the cache,
  and the counters of a gateway count its finished calls exactly; and an invalidation can be undone
  by a slower grant.
\<close>

section \<open>Definitions\<close>

datatype allow_stage = Asking | Calling | Storing | Publishing | CountAllowed | CountRejected
  | Finished "limiter_error + bool"

text \<open>One access to shared state; the last component is the script's answer when the script ran.\<close>

fun allow_step ::
  "'r redis_client \<Rightarrow> allow_call \<Rightarrow> allow_stage \<Rightarrow> TwoTierRateLimiter \<Rightarrow> 'r \<Rightarrow>
     allow_stage \<times> TwoTierRateLimiter \<times> 'r \<times> int option" where
  "allow_step rdb a Asking t r =
     (case Cache_Get (t_get a) (l1 t) (a_key a) of
        None \<Rightarrow> (Finished (Inl IndexPanic), t, r, None)
      | Some found \<Rightarrow> (if found = Some (BoolV True) then CountAllowed else Calling, t, r, None))"
| "allow_step rdb a Calling t r =
     (case rdb_Eval rdb (t_srv a) (a_key a) (now_ms (t_now a)) (window_ms (a_limit a))
             (Requests (a_limit a)) (member_name (t_now a) (a_uuid a)) r of
        (Inl err, r') \<Rightarrow>
          (Finished (Inl (LimiterError (''failed to execute rate limit lua script: '' @ err))), t, r', None)
      | (Inr (ROther res), r') \<Rightarrow>
          (Finished (Inl (LimiterError (''unexpected lua script response: '' @ res))), t, r', None)
      | (Inr (RInt allowedVal), r') \<Rightarrow> (if allowedVal = 1 then Storing else Publishing, t, r', Some allowedVal))"
| "allow_step rdb a Storing t r =
     (case Cache_Set (t_set a) (l1 t) (a_key a) (BoolV True) (l1TTL (a_limit a)) of
        None \<Rightarrow> (Finished (Inl IndexPanic), t, r, None)
      | Some c \<Rightarrow> (CountAllowed, t\<lparr>l1 := c\<rparr>, r, None))"
| "allow_step rdb a Publishing t r = (CountRejected, t, rdb_Publish rdb ''apishield:invalidation'' (a_key a) r, None)"
| "allow_step rdb a CountAllowed t r = (Finished (Inr True), t\<lparr>allowedCount := i64 (allowedCount t + 1)\<rparr>, r, None)"
| "allow_step rdb a CountRejected t r = (Finished (Inr False), t\<lparr>rejectedCount := i64 (rejectedCount t + 1)\<rparr>, r, None)"
| "allow_step rdb a (Finished out) t r = (Finished out, t, r, None)"

fun allow_steps ::
  "nat \<Rightarrow> 'r redis_client \<Rightarrow> allow_call \<Rightarrow> allow_stage \<Rightarrow> TwoTierRateLimiter \<Rightarrow> 'r \<Rightarrow>
     allow_stage \<times> TwoTierRateLimiter \<times> 'r" where
  "allow_steps 0 rdb a st t r = (st, t, r)"
| "allow_steps (Suc n) rdb a st t r =
     (case allow_step rdb a st t r of (st', t', r', reply) \<Rightarrow> allow_steps n rdb a st' t' r')"

text \<open>Gateways are numbered; a call belongs to one of them.\<close>

record 'r race =
  k_nodes :: "nat \<Rightarrow> TwoTierRateLimiter"
  k_redis :: 'r
  k_calls :: "(nat \<times> allow_call \<times> allow_stage) list"
  k_log :: "(allow_call \<times> int) list"

definition race_start :: "'r \<Rightarrow> 'r race" where
  "race_start r = \<lparr>k_nodes = \<lambda>_. NewTwoTierRateLimiter NewShardedCache, k_redis = r, k_calls = [], k_log = []\<rparr>"

inductive race_step :: "'r redis_client \<Rightarrow> 'r race \<Rightarrow> 'r race \<Rightarrow> bool" for rdb where
  arrive: "race_step rdb s (s\<lparr>k_calls := k_calls s @ [(i, a, Asking)]\<rparr>)"
| advance: "k_calls s = us @ (i, a, st) # vs \<Longrightarrow> allow_step rdb a st (k_nodes s i) (k_redis s) = (st', t', r', reply) \<Longrightarrow>
     race_step rdb s (s\<lparr>k_calls := us @ (i, a, st') # vs, k_nodes := (k_nodes s)(i := t'), k_redis := r',
       k_log := k_log s @ (case reply of None \<Rightarrow> [] | Some v \<Rightarrow> [(a, v)])\<rparr>)"
| evict: "StartInvalidationListener [Message key] (k_nodes s i) = Some t' \<Longrightarrow>
     race_step rdb s (s\<lparr>k_nodes := (k_nodes s)(i := t')\<rparr>)"

inductive race_reach :: "'r redis_client \<Rightarrow> 'r \<Rightarrow> 'r race \<Rightarrow> bool" for rdb r0 where
  start: "race_reach rdb r0 (race_start r0)"
| step: "race_reach rdb r0 s \<Longrightarrow> race_step rdb s s' \<Longrightarrow> race_reach rdb r0 s'"

definition finished_with :: "bool \<Rightarrow> nat \<Rightarrow> (nat \<times> allow_call \<times> allow_stage) list \<Rightarrow> nat" where
  "finished_with b i calls = length (filter (\<lambda>(j, a, st). j = i \<and> st = Finished (Inr b)) calls)"

text \<open>
  The invariant: the caches have their shards, the counters count the finished calls,
  no call has panicked, and Redis
  is where the script runs of the log have brought it.
\<close>

definition race_inv :: "'r redis_cmds \<Rightarrow> 'r \<Rightarrow> 'r race \<Rightarrow> bool" where
  "race_inv cmds r0 s \<longleftrightarrow>
     (\<forall>i. wf_cache (l1 (k_nodes s i)) \<and>
        allowedCount (k_nodes s i) = i64 (int (finished_with True i (k_calls s))) \<and>
        rejectedCount (k_nodes s i) = i64 (int (finished_with False i (k_calls s)))) \<and>
     list_all (\<lambda>(j, a, st). st \<noteq> Finished (Inl IndexPanic)) (k_calls s) \<and>
     (\<forall>cs. sw_run cmds (map (script_call \<circ> fst) (k_log s) @ cs) r0 = map snd (k_log s) @ sw_run cmds cs (k_redis s))"

text \<open>What an answer, or a stage on the way to it, rests on: the script's answer, or a cached grant.\<close>

definition grants :: "(allow_call \<times> int) list \<Rightarrow> allow_call list" where
  "grants log = map fst (filter (\<lambda>(a, v). v = 1) log)"

definition cached_for :: "(allow_call \<times> int) list \<Rightarrow> allow_call \<Rightarrow> bool" where
  "cached_for log c \<longleftrightarrow> (\<exists>a \<in> set (grants log). a_key a = a_key c \<and>
     live (t_get c) (Some (new_item (t_set a) (BoolV True) (l1TTL (a_limit a)))) = Some (BoolV True))"

fun justified :: "(allow_call \<times> int) list \<Rightarrow> allow_call \<Rightarrow> allow_stage \<Rightarrow> bool" where
  "justified log c Storing \<longleftrightarrow> c \<in> set (grants log)"
| "justified log c CountAllowed \<longleftrightarrow> c \<in> set (grants log) \<or> cached_for log c"
| "justified log c (Finished (Inr True)) \<longleftrightarrow> c \<in> set (grants log) \<or> cached_for log c"
| "justified log c Publishing \<longleftrightarrow> (\<exists>v. v \<noteq> 1 \<and> (c, v) \<in> set log)"
| "justified log c CountRejected \<longleftrightarrow> (\<exists>v. v \<noteq> 1 \<and> (c, v) \<in> set log)"
| "justified log c (Finished (Inr False)) \<longleftrightarrow> (\<exists>v. v \<noteq> 1 \<and> (c, v) \<in> set log)"
| "justified log c st \<longleftrightarrow> True"

definition race_backed :: "'r race \<Rightarrow> bool" where
  "race_backed s \<longleftrightarrow> (\<forall>i. backed (k_nodes s i) (grants (k_log s))) \<and>
     (\<forall>(i, c, st) \<in> set (k_calls s). justified (k_log s) c st)"

section \<open>Lemmas\<close>

inductive_cases race_stepE: "race_step rdb s s'"

text \<open>A call that runs alone.\<close>

lemma alone_is_Allow:
  "allow_steps 4 rdb a Asking t r = (Finished out, t', r') \<longleftrightarrow> TwoTier_Allow rdb a (t, r) = (out, t', r')"
  by (simp add: eval_nat_numeral TwoTier_Allow_def Let_def split: prod.splits option.splits sum.splits redis_reply.splits)

lemma finished_with_simps [simp]:
  "finished_with b i (xs @ ys) = finished_with b i xs + finished_with b i ys" "finished_with b i [] = 0"
  "finished_with b i ((j, a, st) # xs) = (if j = i \<and> st = Finished (Inr b) then 1 else 0) + finished_with b i xs"
  by (simp_all add: finished_with_def)

text \<open>What one access does on a well-formed cache and a reliable client.\<close>

definition newly :: "bool \<Rightarrow> allow_stage \<Rightarrow> allow_stage \<Rightarrow> int" where
  "newly b st st' = (if st' = Finished (Inr b) \<and> st \<noteq> Finished (Inr b) then 1 else 0)"

lemma allow_step_effect:
  assumes rel: "reliable_client cmds rdb" and wf: "wf_cache (l1 t)"
    and n: "allowedCount t = i64 n" "rejectedCount t = i64 m"
    and step: "allow_step rdb a st t r = (st', t', r', reply)"
  shows "wf_cache (l1 t') \<and> allowedCount t' = i64 (n + newly True st st') \<and> rejectedCount t' = i64 (m + newly False st st')"
    and "case reply of
        None \<Rightarrow> r' = r
      | Some v \<Rightarrow> slidingWindowLua cmds (c_srv (script_call a)) (c_key (script_call a)) (c_now (script_call a))
          (c_window (script_call a)) (c_limit (script_call a)) (c_member (script_call a)) r = (v, r')"
proof -
  obtain c where c: "Cache_Set (t_set a) (l1 t) (a_key a) (BoolV True) (l1TTL (a_limit a)) = Some c" "wf_cache c"
    by (rule Cache_Set_wf [OF wf])
  show "wf_cache (l1 t') \<and> allowedCount t' = i64 (n + newly True st st') \<and> rejectedCount t' = i64 (m + newly False st st')"
    using step wf n c
    by (cases st) (auto simp: newly_def split: if_splits prod.splits sum.splits redis_reply.splits)
  show "case reply of
        None \<Rightarrow> r' = r
      | Some v \<Rightarrow> slidingWindowLua cmds (c_srv (script_call a)) (c_key (script_call a)) (c_now (script_call a))
          (c_window (script_call a)) (c_limit (script_call a)) (c_member (script_call a)) r = (v, r')"
    using step wf rel c
    by (cases st) (auto simp: reliable_client_def Let_def split: if_splits prod.splits)
qed

lemma finished_with_advance:
  "int (finished_with b j (us @ (i, a, st') # vs)) =
     int (finished_with b j (us @ (i, a, st) # vs)) + (if i = j then newly b st st' - newly b st' st else 0)"
  by (simp add: newly_def)

lemma not_unfinished: "allow_step rdb a st t r = (st', t', r', reply) \<Longrightarrow> newly b st' st = 0"
  by (cases st) (auto simp: newly_def)

lemma no_panic:
  assumes "wf_cache (l1 t)" and "allow_step rdb a st t r = (st', t', r', reply)" and "st \<noteq> Finished (Inl IndexPanic)"
  shows "st' \<noteq> Finished (Inl IndexPanic)"
proof -
  obtain c where "Cache_Set (t_set a) (l1 t) (a_key a) (BoolV True) (l1TTL (a_limit a)) = Some c"
    by (rule Cache_Set_wf [OF assms(1)])
  with assms show ?thesis by (cases st) (auto split: prod.splits sum.splits redis_reply.splits if_splits)
qed

lemma race_inv_start: "race_inv cmds r0 (race_start r0)"
  by (simp add: race_inv_def race_start_def NewTwoTierRateLimiter_def i64_def)

lemma race_inv_step:
  assumes rel: "reliable_client cmds rdb" and inv: "race_inv cmds r0 s" and step: "race_step rdb s s'"
  shows "race_inv cmds r0 s'"
  using step
proof (cases rule: race_step.cases)
  case (arrive i a)
  with inv show ?thesis by (simp add: race_inv_def)
next
  case (advance us i a st vs st' t' r' reply)
  let ?n = "\<lambda>b j. int (finished_with b j (k_calls s))"
  have node: "wf_cache (l1 (k_nodes s i))" "allowedCount (k_nodes s i) = i64 (?n True i)" "rejectedCount (k_nodes s i) = i64 (?n False i)"
    using inv by (auto simp: race_inv_def)
  note eff = allow_step_effect [OF rel node advance(3)]
  have count: "int (finished_with b j (k_calls s')) = ?n b j + (if i = j then newly b st st' else 0)" for b j
    using finished_with_advance [of b j us i a st' vs st] not_unfinished [OF advance(3)] advance(1,2) by simp
  have panic: "list_all (\<lambda>(j, a, st). st \<noteq> Finished (Inl IndexPanic)) (k_calls s')"
    using inv no_panic [OF node(1) advance(3)] advance(1,2) by (auto simp: race_inv_def)
  have "wf_cache (l1 (k_nodes s' j)) \<and> allowedCount (k_nodes s' j) = i64 (int (finished_with True j (k_calls s'))) \<and>
      rejectedCount (k_nodes s' j) = i64 (int (finished_with False j (k_calls s')))" for j
    unfolding count using eff(1) inv by (simp add: advance(1) race_inv_def)
  moreover have "sw_run cmds (map (script_call \<circ> fst) (k_log s') @ cs) r0 = map snd (k_log s') @ sw_run cmds cs (k_redis s')" for cs
  proof (cases reply)
    case None
    with eff(2) inv show ?thesis by (simp add: advance(1) race_inv_def)
  next
    case (Some v)
    have "sw_run cmds (map (script_call \<circ> fst) (k_log s) @ script_call a # cs) r0 =
        map snd (k_log s) @ sw_run cmds (script_call a # cs) (k_redis s)" using inv by (simp add: race_inv_def)
    with eff(2) Some show ?thesis by (simp add: advance(1))
  qed
  ultimately show ?thesis using panic by (simp add: race_inv_def)
next
  case (evict key i t')
  obtain t1 where "StartInvalidationListener [Message key] (k_nodes s i) = Some t1" "wf_cache (l1 t1)"
    "allowedCount t1 = allowedCount (k_nodes s i)" "rejectedCount t1 = rejectedCount (k_nodes s i)"
    using listener_total [of "k_nodes s i" "[Message key]"] inv by (auto simp: race_inv_def simp del: StartInvalidationListener.simps)
  with evict inv show ?thesis by (simp add: race_inv_def del: StartInvalidationListener.simps)
qed

lemma race_reach_inv: "race_reach rdb r0 s \<Longrightarrow> reliable_client cmds rdb \<Longrightarrow> race_inv cmds r0 s"
  by (induction rule: race_reach.induct) (auto intro: race_inv_start race_inv_step)

lemma race_log:
  assumes "race_reach rdb r0 s" and "reliable_client cmds rdb"
  shows "sw_run cmds (map (script_call \<circ> fst) (k_log s)) r0 = map snd (k_log s)"
  using race_reach_inv [OF assms] by (simp add: race_inv_def) (metis append_Nil2 sw_run.simps(1))

text \<open>Every cached entry and every answer rests on the log.\<close>

lemma grants_append: "set (grants (log @ log')) = set (grants log) \<union> set (grants log')"
  by (simp add: grants_def)

lemma in_grants: "c \<in> set (grants log) \<longleftrightarrow> (c, 1) \<in> set log"
  by (force simp: grants_def)

lemma backed_mono: "backed t g \<Longrightarrow> set g \<subseteq> set g' \<Longrightarrow> backed t g'"
  unfolding backed_def by blast

lemma justified_mono: "justified log c st \<Longrightarrow> justified (log @ log') c st"
  by (cases "(log, c, st)" rule: justified.cases) (auto simp: cached_for_def grants_append)

lemma allow_step_backed:
  assumes b: "backed t (grants log)" and j: "justified log a st" and step: "allow_step rdb a st t r = (st', t', r', reply)"
  shows "backed t' (grants (log @ (case reply of None \<Rightarrow> [] | Some v \<Rightarrow> [(a, v)]))) \<and>
    justified (log @ (case reply of None \<Rightarrow> [] | Some v \<Rightarrow> [(a, v)])) a st'"
proof (cases st)
  case Asking
  have "cached_for log a" if "l1_hit t a" using backed_hit [OF b that] by (auto simp: cached_for_def)
  with step b Asking show ?thesis by (auto simp: backed_def l1_hit_def)
next
  case Calling
  let ?log = "log @ (case reply of None \<Rightarrow> [] | Some v \<Rightarrow> [(a, v)])"
  have "backed t (grants ?log)" using b by (rule backed_mono) (simp add: grants_append)
  with step Calling show ?thesis by (auto simp: in_grants split: prod.splits sum.splits redis_reply.splits if_splits)
next
  case Storing
  obtain c where c: "Cache_Set (t_set a) (l1 t) (a_key a) (BoolV True) (l1TTL (a_limit a)) = Some c" "wf_cache c"
    "cache_entries c = (cache_entries (l1 t))(a_key a \<mapsto> new_item (t_set a) (BoolV True) (l1TTL (a_limit a)))"
    using Cache_Set_wf b unfolding backed_def by metis
  with step Storing j b show ?thesis by (auto simp: backed_def split: if_splits)
next
  case (Finished out)
  with step b j show ?thesis by simp
qed (use step b j in \<open>auto simp: backed_def\<close>)

lemma race_backed_step:
  assumes inv: "race_backed s" and step: "race_step rdb s s'"
  shows "race_backed s'"
  using step
proof (cases rule: race_step.cases)
  case (arrive i a)
  with inv show ?thesis by (simp add: race_backed_def)
next
  case (advance us i a st vs st' t' r' reply)
  let ?l = "case reply of None \<Rightarrow> [] | Some v \<Rightarrow> [(a, v)]"
  have "backed (k_nodes s i) (grants (k_log s))" "justified (k_log s) a st"
    using inv advance(2) by (auto simp: race_backed_def)
  note eff = allow_step_backed [OF this advance(3)]
  have "backed (k_nodes s j) (grants (k_log s @ ?l))" for j
    using inv by (auto simp: race_backed_def grants_append intro: backed_mono)
  moreover have "justified (k_log s @ ?l) c st0" if "(j, c, st0) \<in> set us \<union> set vs" for j c st0
    by (rule justified_mono) (use inv advance(2) that in \<open>force simp: race_backed_def\<close>)
  ultimately show ?thesis using eff by (fastforce simp: race_backed_def advance(1))
next
  case (evict key i t')
  have "backed (k_nodes s i) (grants (k_log s))" using inv by (simp add: race_backed_def)
  with listener_total [of "k_nodes s i" "[Message key]"] evict(2) have "backed t' (grants (k_log s))"
    unfolding backed_def by (auto split: if_splits simp del: StartInvalidationListener.simps)
  with inv show ?thesis by (simp add: race_backed_def evict(1))
qed

lemma race_reach_backed: "race_reach rdb r0 s \<Longrightarrow> race_backed s"
proof (induction rule: race_reach.induct)
  case start
  show ?case by (simp add: race_backed_def race_start_def backed_def NewTwoTierRateLimiter_def)
qed (rule race_backed_step)

section \<open>Properties\<close>



text \<open>
  C18: Every answer of every gateway is justified, under every interleaving. A request that was
  refused was denied by the script itself. A request that was let through was granted by the
  script, or its gateway's cache was read at most a tenth of the window, and at most one second,
  after a grant for the same key was stored (for windows of at least ten nanoseconds).
\<close>

theorem concurrent_answers_justified:
  assumes "race_reach rdb r0 s" and "(i, c, Finished (Inr b)) \<in> set (k_calls s)"
    and "list_all (sane_call \<circ> fst) (k_log s)" and "0 \<le> t_get c" "t_get c < 2 ^ 62"
  shows "if b then \<exists>a. (a, 1) \<in> set (k_log s) \<and>
      (a = c \<or> a_key a = a_key c \<and> t_get c \<le> t_set a + min Second (Window (a_limit a) div 10))
    else \<exists>v. v \<noteq> 1 \<and> (c, v) \<in> set (k_log s)"
proof -
  have j: "justified (k_log s) c (Finished (Inr b))"
    using race_reach_backed [OF assms(1)] assms(2) by (auto simp: race_backed_def)
  show ?thesis
  proof (cases b)
    case False
    with j show ?thesis by simp
  next
    case True
    have sane: "sane_call a" if "(a, 1) \<in> set (k_log s)" for a using assms(3) that by (auto simp: list_all_iff)
    from j True consider "(c, 1) \<in> set (k_log s)"
      | a where "(a, 1) \<in> set (k_log s)" "a_key a = a_key c"
          "live (t_get c) (Some (new_item (t_set a) (BoolV True) (l1TTL (a_limit a)))) = Some (BoolV True)"
      by (auto simp: in_grants cached_for_def)
    then show ?thesis using True live_grant_recent [OF _ sane assms(4,5)] by cases auto
  qed
qed

text \<open>Two requests at the same moment with a limit of one, and a third one after them.\<close>

definition race_call :: "string \<Rightarrow> allow_call" where
  "race_call u = sample_allow 1 Second (5 * Second) u"

definition race_key :: string where
  "race_key = ''rate_limit:Free:/a:k''"

lemma race_call_sel [simp]:
  "a_key (race_call u) = race_key" "t_get (race_call u) = 5 * Second" "t_set (race_call u) = 5 * Second"
  "l1TTL (a_limit (race_call u)) = 100000000"
  by (simp_all add: race_call_def sample_allow_def race_key_def l1TTL_def Let_def signed_divide_int_def)

lemma race_calls_ok: "calls_ok (\<lambda>_. 1000) (\<lambda>_. 1) (map script_call [race_call ''u0'', race_call ''u1''])"
  by (simp add: calls_ok_def clocks_ok_def call_ok_def race_call_def sample_allow_def member_name_inject
      window_ms_def now_ms_def unix_nano_def i64_def signed_divide_int_def)

lemma race_answers:
  "\<exists>r1 r2. allow_step (script_client ref_cmds) (race_call ''u0'') Calling t ref_empty = (Storing, t, r1, Some 1) \<and>
     allow_step (script_client ref_cmds) (race_call ''u1'') Calling t' r1 = (Publishing, t', r2, Some 0)"
proof -
  let ?lua = "\<lambda>a. slidingWindowLua ref_cmds (c_srv (script_call a)) (c_key (script_call a)) (c_now (script_call a))
    (c_window (script_call a)) (c_limit (script_call a)) (c_member (script_call a))"
  obtain v1 r1 where 1: "?lua (race_call ''u0'') ref_empty = (v1, r1)" by (metis surj_pair)
  obtain v2 r2 where 2: "?lua (race_call ''u1'') r1 = (v2, r2)" by (metis surj_pair)
  have "sw_run ref_cmds (map script_call [race_call ''u0'', race_call ''u1'']) ref_empty = [v1, v2]"
    using 1 2 by simp
  moreover have "sw_run ref_cmds (map script_call [race_call ''u0'', race_call ''u1'']) ref_empty = [1, 0]"
    unfolding sw_run_from_empty [OF ref.redis_zset_axioms ref_empty_no_keys race_calls_ok]
    by (simp add: recent_def race_call_def sample_allow_def window_ms_def now_ms_def unix_nano_def i64_def signed_divide_int_def)
  ultimately have "v1 = 1" "v2 = 0" by auto
  with 1 2 show ?thesis by (auto simp: script_client_def Let_def)
qed

text \<open>The states of the trace: one gateway with limiter \<open>t\<close>, Redis \<open>r\<close>, the calls' stages and the log.\<close>

definition race_state ::
  "TwoTierRateLimiter \<Rightarrow> 'r \<Rightarrow> (allow_call \<times> allow_stage) list \<Rightarrow> (allow_call \<times> int) list \<Rightarrow> 'r race" where
  "race_state t r calls log = \<lparr>k_nodes = (\<lambda>_. NewTwoTierRateLimiter NewShardedCache)(0 := t), k_redis = r,
     k_calls = map (Pair 0) calls, k_log = log\<rparr>"

lemma race_state_start: "race_start r = race_state (NewTwoTierRateLimiter NewShardedCache) r [] []"
  by (simp add: race_start_def race_state_def fun_eq_iff)

lemma race_arrive: "race_step rdb (race_state t r calls log) (race_state t r (calls @ [(a, Asking)]) log)"
  using arrive [of rdb "race_state t r calls log" 0 a] by (simp add: race_state_def)

lemma race_advance:
  assumes "allow_step rdb a st t r = (st', t', r', reply)"
  shows "race_step rdb (race_state t r (us @ (a, st) # vs) log)
    (race_state t' r' (us @ (a, st') # vs) (log @ (case reply of None \<Rightarrow> [] | Some v \<Rightarrow> [(a, v)])))"
  using advance [of "race_state t r (us @ (a, st) # vs) log" "map (Pair 0) us" 0 a st "map (Pair 0) vs" rdb st' t' r' reply] assms
  by (simp add: race_state_def)

lemma race_evict:
  assumes "StartInvalidationListener [Message key] t = Some t'"
  shows "race_step rdb (race_state t r calls log) (race_state t' r calls log)"
  using evict [of key "race_state t r calls log" 0 t' rdb] assms by (simp add: race_state_def del: StartInvalidationListener.simps)

lemma path5:
  assumes "R s0 s1" "R s1 s2" "R s2 s3" "R s3 s4" "R s4 s5"
  shows "R\<^sup>*\<^sup>* s0 s5"
  using assms by (meson rtranclp.rtrancl_into_rtrancl rtranclp.rtrancl_refl)

lemma path8:
  assumes "R s0 s1" "R s1 s2" "R s2 s3" "R s3 s4" "R s4 s5" "R s5 s6" "R s6 s7" "R s7 s8"
  shows "R\<^sup>*\<^sup>* s0 s8"
  using assms by (meson rtranclp.rtrancl_into_rtrancl rtranclp.rtrancl_refl)

text \<open>Both calls miss the cache; Redis grants the first and denies the second, which returns.\<close>

lemma race_prefix:
  "\<exists>r. (race_step (script_client ref_cmds))\<^sup>*\<^sup>* (race_start ref_empty)
     (race_state ((NewTwoTierRateLimiter NewShardedCache)\<lparr>rejectedCount := 1\<rparr>) r
        [(race_call ''u0'', Storing), (race_call ''u1'', Finished (Inr False))] [(race_call ''u0'', 1), (race_call ''u1'', 0)])"
proof -
  let ?rdb = "script_client ref_cmds" and ?t = "NewTwoTierRateLimiter NewShardedCache"
  let ?a = "race_call ''u0''" and ?b = "race_call ''u1''" and ?S = "\<lambda>t r calls log s'. race_step (script_client ref_cmds) (race_state t r calls log) s'"
  obtain r1 r2 where a: "allow_step ?rdb ?a Calling ?t ref_empty = (Storing, ?t, r1, Some 1)"
    and b: "allow_step ?rdb ?b Calling ?t r1 = (Publishing, ?t, r2, Some 0)" using race_answers by blast
  have miss: "allow_step ?rdb (race_call u) Asking ?t r = (Calling, ?t, r, None)" for u r
    by (simp add: NewTwoTierRateLimiter_def live_def)
  have 0: "?S ?t ref_empty [] [] (race_state ?t ref_empty [(?a, Asking)] [])"
    using race_arrive [of ?rdb ?t ref_empty "[]" "[]" ?a] by simp
  have 1: "?S ?t ref_empty [(?a, Asking)] [] (race_state ?t ref_empty [(?a, Calling)] [])"
    using race_advance [OF miss, where us = "[]" and vs = "[]" and log = "[]"] by simp
  have 2: "?S ?t ref_empty [(?a, Calling)] [] (race_state ?t ref_empty [(?a, Calling), (?b, Asking)] [])"
    using race_arrive [of ?rdb ?t ref_empty "[(?a, Calling)]" "[]" ?b] by simp
  have 3: "?S ?t ref_empty [(?a, Calling), (?b, Asking)] [] (race_state ?t ref_empty [(?a, Calling), (?b, Calling)] [])"
    using race_advance [OF miss, where us = "[(?a, Calling)]" and vs = "[]" and log = "[]"] by simp
  have 4: "?S ?t ref_empty [(?a, Calling), (?b, Calling)] [] (race_state ?t r1 [(?a, Storing), (?b, Calling)] [(?a, 1)])"
    using race_advance [OF a, where us = "[]" and log = "[]"] by simp
  have 5: "?S ?t r1 [(?a, Storing), (?b, Calling)] [(?a, 1)] (race_state ?t r2 [(?a, Storing), (?b, Publishing)] [(?a, 1), (?b, 0)])"
    using race_advance [OF b, where us = "[(?a, Storing)]" and vs = "[]" and log = "[(?a, 1)]"] by simp
  have 6: "?S ?t r2 [(?a, Storing), (?b, Publishing)] [(?a, 1), (?b, 0)] (race_state ?t r2 [(?a, Storing), (?b, CountRejected)] [(?a, 1), (?b, 0)])"
    using race_advance [of ?rdb ?b Publishing ?t r2 CountRejected ?t r2 None "[(?a, Storing)]" "[]"] by (simp add: script_client_def)
  have 7: "?S ?t r2 [(?a, Storing), (?b, CountRejected)] [(?a, 1), (?b, 0)]
      (race_state (?t\<lparr>rejectedCount := 1\<rparr>) r2 [(?a, Storing), (?b, Finished (Inr False))] [(?a, 1), (?b, 0)])"
    using race_advance [of ?rdb ?b CountRejected ?t r2 "Finished (Inr False)" "?t\<lparr>rejectedCount := 1\<rparr>" r2 None "[(?a, Storing)]" "[]"]
    by (simp add: NewTwoTierRateLimiter_def i64_def)
  show ?thesis unfolding race_state_start
    by (intro exI [of _ r2] path8 [of "race_step ?rdb", OF 0 1 2 3 4 5 6 7])
qed

text \<open>
  The listener evicts the key, then the first call stores its grant: a third call is granted from the cache.
\<close>

lemma race_suffix:
  assumes wf: "wf_cache (l1 t)" and c: "a_key c = race_key" "t_get c = 5 * Second + 7"
  shows "\<exists>t'. (race_step rdb)\<^sup>*\<^sup>* (race_state t r [(race_call u, Storing), (b, Finished (Inr False))] log)
    (race_state t' r [(race_call u, Finished (Inr True)), (b, Finished (Inr False)), (c, Finished (Inr True))] log)"
proof -
  let ?a = "race_call u" and ?B = "(b, Finished (Inr False))"
  let ?S = "\<lambda>t calls s'. race_step rdb (race_state t r calls log) s'"
  obtain m where m: "Cache_Set (5 * Second) (l1 t) race_key (BoolV True) 100000000 = Some m" "wf_cache m"
    "cache_entries m = (cache_entries (l1 t))(race_key \<mapsto> new_item (5 * Second) (BoolV True) 100000000)"
    by (rule Cache_Set_wf [OF wf])
  let ?t1 = "t\<lparr>l1 := m\<rparr>" let ?t2 = "?t1\<lparr>allowedCount := i64 (allowedCount t + 1)\<rparr>"
  let ?t3 = "?t2\<lparr>allowedCount := i64 (allowedCount ?t2 + 1)\<rparr>"
  have 1: "?S t [(?a, Storing), ?B] (race_state ?t1 r [(?a, CountAllowed), ?B] log)"
    using race_advance [of rdb ?a Storing t r CountAllowed ?t1 r None "[]" "[?B]"] m(1) by simp
  have 2: "?S ?t1 [(?a, CountAllowed), ?B] (race_state ?t2 r [(?a, Finished (Inr True)), ?B] log)"
    using race_advance [of rdb ?a CountAllowed ?t1 r "Finished (Inr True)" ?t2 r None "[]" "[?B]"] by simp
  have 3: "?S ?t2 [(?a, Finished (Inr True)), ?B] (race_state ?t2 r [(?a, Finished (Inr True)), ?B, (c, Asking)] log)"
    using race_arrive [of rdb ?t2 r "[(?a, Finished (Inr True)), ?B]" log c] by simp
  have "live (5 * Second + 7) (cache_entries m race_key) = Some (BoolV True)"
    using m(3) by (simp add: live_def new_item_def unix_nano_def i64_def)
  then have 4: "?S ?t2 [(?a, Finished (Inr True)), ?B, (c, Asking)] (race_state ?t2 r [(?a, Finished (Inr True)), ?B, (c, CountAllowed)] log)"
    using race_advance [of rdb c Asking ?t2 r CountAllowed ?t2 r None "[(?a, Finished (Inr True)), ?B]" "[]"] m(2) c by simp
  have 5: "?S ?t2 [(?a, Finished (Inr True)), ?B, (c, CountAllowed)]
      (race_state ?t3 r [(?a, Finished (Inr True)), ?B, (c, Finished (Inr True))] log)"
    using race_advance [of rdb c CountAllowed ?t2 r "Finished (Inr True)" ?t3 r None "[(?a, Finished (Inr True)), ?B]" "[]"] by simp
  show ?thesis by (intro exI [of _ ?t3] path5 [of "race_step rdb", OF 1 2 3 4 5])
qed

lemma reach_steps: "(race_step rdb)\<^sup>*\<^sup>* s s' \<Longrightarrow> race_reach rdb r0 s \<Longrightarrow> race_reach rdb r0 s'"
  by (induction rule: rtranclp_induct) (auto intro: race_reach.step)

lemma race_evicted:
  "\<exists>s. race_reach (script_client ref_cmds) ref_empty s \<and>
     (\<exists>t r. s = race_state t r [(race_call ''u0'', Storing), (race_call ''u1'', Finished (Inr False))]
        [(race_call ''u0'', 1), (race_call ''u1'', 0)] \<and> wf_cache (l1 t) \<and> (\<forall>now. Cache_Get now (l1 t) race_key = Some None))"
proof -
  let ?t = "(NewTwoTierRateLimiter NewShardedCache)\<lparr>rejectedCount := 1\<rparr>"
  obtain r where r: "(race_step (script_client ref_cmds))\<^sup>*\<^sup>* (race_start ref_empty)
     (race_state ?t r [(race_call ''u0'', Storing), (race_call ''u1'', Finished (Inr False))]
        [(race_call ''u0'', 1), (race_call ''u1'', 0)])" using race_prefix by (elim exE)
  have "wf_cache (l1 ?t)" by (simp add: NewTwoTierRateLimiter_def)
  from listener_total [OF this, of "[Message race_key]"] obtain t' where
    t': "StartInvalidationListener [Message race_key] ?t = Some t'" "wf_cache (l1 t')" "cache_entries (l1 t') race_key = None"
    by auto
  from reach_steps [OF r race_reach.start] race_evict [OF t'(1)] t'(2,3) show ?thesis
    by (intro exI conjI) (rule race_reach.step, assumption+, rule refl, simp_all add: live_def)
qed


text \<open>The two bounds on the trace above.\<close>

lemma race_trace:
  "\<exists>s. race_reach (script_client ref_cmds) ref_empty s \<and> k_log s = [(race_call ''u0'', 1), (race_call ''u1'', 0)] \<and>
     k_calls s = [(0, race_call ''u0'', Storing), (0, race_call ''u1'', Finished (Inr False))]"
proof -
  obtain t r where "race_reach (script_client ref_cmds) ref_empty (race_state t r [(race_call ''u0'', Storing),
      (race_call ''u1'', Finished (Inr False))] [(race_call ''u0'', 1), (race_call ''u1'', 0)])"
    using race_evicted by (elim exE conjE) simp
  then show ?thesis by (intro exI conjI) (assumption, simp_all add: race_state_def)
qed



theorem concurrent_answers_justified_witness:
  "\<exists>s. race_reach (script_client ref_cmds) ref_empty s \<and> (0, race_call ''u1'', Finished (Inr False)) \<in> set (k_calls s) \<and>
     (\<exists>v. v \<noteq> 1 \<and> (race_call ''u1'', v) \<in> set (k_log s))"
proof -
  obtain s where s: "race_reach (script_client ref_cmds) ref_empty s"
    "k_log s = [(race_call ''u0'', 1), (race_call ''u1'', 0)]"
    "k_calls s = [(0, race_call ''u0'', Storing), (0, race_call ''u1'', Finished (Inr False))]" using race_trace by blast
  have mem: "(0, race_call ''u1'', Finished (Inr False)) \<in> set (k_calls s)" using s(3) by simp
  have "list_all (sane_call \<circ> fst) (k_log s)" by (simp add: s(2) sane_call_def race_call_def sample_allow_def)
  from concurrent_answers_justified [OF s(1) mem this] mem s(1) show ?thesis by auto
qed

end
