(* ===== verification/Spec2Isabelle.thy ===== *)
theory Spec2Isabelle
  imports Gateway_Main Gateway_Race Worker_Main Limiter_Race
begin

text \<open>
  APIShield is an API gateway with a webhook pipeline. Clients call the gateway
  (\<^verbatim>\<open>src/cmd/gateway/main.go\<close>), which authenticates a request, sheds load, limits its rate
  and passes it to a route; the webhook routes store an event in PostgreSQL and publish it to
  RabbitMQ. The worker (\<^verbatim>\<open>src/cmd/worker/main.go\<close>) consumes the queue and delivers each event
  to its target over HTTP with retries and a circuit breaker per target, records the outcome in
  PostgreSQL, answers the broker, and mirrors breaker states into Redis, where the gateway's
  dashboard routes read them.

  \<^bold>\<open>Theories, in the order of their imports, and the code they model.\<close>

  Go and its library, as far as the sources use them:

  \<^item> \<open>Shield_Prelude\<close>: integers, times, durations, decimal formatting and strings.
  \<^item> \<open>Json_Text\<close>, \<open>Go_Json\<close>: \<^verbatim>\<open>encoding/json\<close>, from UTF-8 and string tokens to the decoders and
    the compact form. Shown: what is printed is parsed back, compacting keeps the meaning.
  \<^item> \<open>Go_Float\<close>: \<^verbatim>\<open>float64\<close> with correct rounding and its shortest decimal form.
  \<^item> \<open>Go_Duration\<close>: \<^verbatim>\<open>time.ParseDuration\<close>.
  \<^item> \<open>Net_Http\<close>: headers, requests with context values, the response writer.
  \<^item> \<open>Net_Url\<close>: query parameters, cleaned paths and \<^verbatim>\<open>ServeMux\<close>.

  The components:

  \<^item> \<open>Sharded_Cache\<close> (\<^verbatim>\<open>src/internal/cache/cache.go\<close>): the L1 cache. Shown: any run of its
    operations answers as one flat map with expiry times, and no index is out of range.
  \<^item> \<open>Rate_Policy\<close> (\<^verbatim>\<open>src/internal/policy\<close>, \<^verbatim>\<open>src/config.yaml\<close>): the limits per tier and
    route, how a window is read and how \<^verbatim>\<open>GetLimit\<close> chooses a limit.
  \<^item> \<open>Redis_Service\<close>: the sorted-set commands the script calls, as a locale of documented laws
    (\<open>redis_zset\<close>) with a reference store.
  \<^item> \<open>Sliding_Window\<close> (\<^verbatim>\<open>src/internal/ratelimit/lua.go\<close>): the Lua script, with Lua's 53-bit
    numbers. Shown: it refines a log of grants, and no window contains more grants than the limit.
  \<^item> \<open>Rate_Limiter\<close> (\<^verbatim>\<open>src/internal/ratelimit/ratelimiter.go\<close>): the two-tier limiter, its
    invalidation listener and the stub, behind the locale \<open>rate_limiter\<close>. Shown: what a cluster of
    gateways lets Redis grant, how old an L1 answer is, and the consequences of L1 hits.
  \<^item> \<open>Limiter_Race\<close>: the same code as goroutines of several gateways that interleave at their
    accesses to the cache, Redis and the counters (\<open>race_step\<close>). Shown: the limit and the
    statistics hold under every interleaving; an invalidation can be lost.
  \<^item> \<open>Shield_Metrics\<close> (\<^verbatim>\<open>src/internal/metrics/metrics.go\<close>): the counters.
  \<^item> \<open>Circuit_Breaker\<close> (\<^verbatim>\<open>src/internal/circuitbreaker/circuitbreaker.go\<close>): the state machine per
    URL, sequentially and as an interleaving of critical sections and callbacks, behind the locale
    \<open>circuit_breaker\<close>. Shown: refinement of the three-state specification, when it opens, how long
    it blocks, which transitions exist, what the trip counter counts.
  \<^item> \<open>Event_Store\<close> (\<^verbatim>\<open>src/internal/events/events.go\<close>, \<^verbatim>\<open>src/internal/database/database.go\<close>):
    the SQL of the source as statements, PostgreSQL as the locale \<open>postgres\<close> over the table's rows,
    the store's contract as the locale \<open>event_store\<close> that every such pool implements.
  \<^item> \<open>Event_Codec\<close>: the JSON forms of events and request bodies. Shown: an event survives the queue.
  \<^item> \<open>Webhook_Worker\<close> (\<^verbatim>\<open>src/internal/worker/worker.go\<close>): retries, the delivery handler, and the
    consumer loop with its goroutines as the step relation \<open>worker_step\<close>. Shown: the retry
    contract, that every message is answered exactly once, that breaker, metrics, database and
    answer agree, that a failing target is cut off, and that shutdown drains and terminates.
  \<^item> \<open>Middleware\<close> (\<^verbatim>\<open>src/internal/middleware\<close>): chaining, tracing, authentication, rate limiting,
    load shedding.
  \<^item> \<open>Message_Queue\<close> (\<^verbatim>\<open>src/internal/queue/publisher.go\<close>): topology and publishing over the
    locale \<open>amqp_broker\<close>.
  \<^item> \<open>Gateway\<close> (\<^verbatim>\<open>src/cmd/gateway/main.go\<close>): metrics and CORS middleware, the chain, and the
    routes for webhooks, replay, load shedding and payments. Shown: every request is decided as the
    flat decision \<open>gate\<close> says, an accepted webhook is stored and published, a replay touches
    only the caller's failed events.
  \<^item> \<open>Gateway_Race\<close>: the two webhook routes as goroutines of several gateways that interleave at
    their database statements and publications (\<open>pipe_step\<close>). Shown: under every interleaving no
    message is without a row and no accepted request without both; concurrent replays can publish
    a delivered event again.
  \<^item> \<open>Dashboard\<close> (the same file): the routes for statistics, events, keys, breakers and policies.
    Shown: what the statistics report, what of a key is shown, who sees which events.
  \<^item> \<open>Env_Config\<close> (\<^verbatim>\<open>src/internal/config\<close>, \<^verbatim>\<open>src/internal/cache/redis.go\<close>): the \<^verbatim>\<open>.env\<close>
    file, the fallbacks and the production check.
  \<^item> \<open>Gateway_Main\<close>: the gateway program: the limiter behind its interface, the routing table,
    start-up and shutdown. Shown: which handler serves a request, that the state stays well typed
    through any run (locale \<open>gateway_invariant\<close>), that nothing is stored or published without a
    key, in which order start-up can fail, and what a dead Redis leads to.
  \<^item> \<open>Worker_Main\<close> (\<^verbatim>\<open>src/cmd/worker/main.go\<close>): the breaker with its Redis mirror, the worker's
    API, start-up and shutdown.

  This theory connects the two programs: a webhook that was accepted and delivered, the breakers
  the dashboard counts, and a webhook whose target is the gateway itself.

  \<^bold>\<open>Conventions.\<close> A Go string is a list of bytes; \<^verbatim>\<open>int\<close> and \<^verbatim>\<open>int64\<close> are \<^typ>\<open>int\<close> with the
  wrap-around \<open>i64\<close> where a value can grow. Clock readings, UUIDs, HTTP outcomes and cancellation
  are arguments. A method that locks is one atomic function; where goroutines interleave, the step
  relations \<open>race_step\<close>, \<open>pipe_step\<close>, \<open>cb_step\<close> and \<open>worker_step\<close> make it explicit. Errors are values (\<open>Inl\<close>,
  \<open>Some\<close>), an index panic is None or \<open>IndexPanic\<close> and is shown not to happen. Loops are structural
  or have a termination proof. Fuel appears in four places: the JSON parser has twice the length
  of the text, which is enough (\<open>parse_val_fuel\<close>); \<open>handler_run\<close>, \<open>allow_steps\<close> and \<open>route_steps\<close>
  count the steps of a goroutine, of which five (\<open>goroutine_is_handler\<close>), four (\<open>alone_is_Allow\<close>),
  two for a webhook (\<open>webhook_alone\<close>) and two per replayed event and two more (\<open>replay_loop_steps\<close>)
  are enough.

  \<^bold>\<open>External services\<close> (Redis, PostgreSQL, RabbitMQ, the file system, the YAML decoder, URL
  parsing of the Redis client, the Prometheus handler and the reverse proxy) are arguments; theorems
  assume their documented behaviour through the locales above or through named predicates, and
  witnesses instantiate them with the reference stores.

  \<^bold>\<open>Not modelled:\<close> the optional profiling listener of the gateway, which is \<^verbatim>\<open>net/http/pprof\<close>
  alone; the interleaving of requests in the routes that only read, and in the gateway's own request
  counters (those are functions of one request); the stress test, a load generator without logic of the service; the web front end,
  the shell scripts and the container files, which are not Go.
\<close>

section \<open>From the gateway to the target\<close>

text \<open>The target is reached and answers the first attempt with a 2xx status.\<close>

definition first_try_ok :: "env \<Rightarrow> bool" where
  "first_try_ok wenv \<longleftrightarrow> build_err wenv = None \<and> is_2xx (post wenv 0)"

lemma first_try_delivers:
  "first_try_ok wenv \<Longrightarrow> deliverWithRetry wenv ev = (None, [Sent (delivery_request ev)])"
  by (simp add: first_try_ok_def attempts_3 attempts_trace_def Let_def)

lemma accepted_saves:
  assumes "postgres pool table jsonb to_char" and "amqp_broker conn view handed"
    and "webhooksHandler (program_deps pool fr conn p) env r (w, s) = (w', s')"
    and "sent w = None" and "uuid_text (e_event env)" and "status_of w' = 202"
    and "decode_webhook (Body r) = Inr (target, payload)"
  shows "\<exists>body. marshal_event (webhook_event env r (ctx_string r APIKeyKey) target payload) = Inr body \<and> payload \<noteq> '''' \<and>
    saves jsonb (webhook_event env r (ctx_string r APIKeyKey) target payload) (table (gw_db s)) (table (gw_db s')) \<and>
    handed (gw_mq s') = handed (gw_mq s) @ [queue_message p body]"
  using assms(3,4)
proof (cases rule: webhooks_cases)
  case (accepted target' payload' db q)
  with assms(7) have eq: "target' = target" "payload' = payload" by auto
  let ?ev = "webhook_event env r (ctx_string r APIKeyKey) target payload"
  have "saves jsonb ?ev (table (gw_db s)) (table db)"
    using postgres.SaveEvent_law [OF assms(1)] accepted assms(5) eq by fastforce
  with amqp_broker.Publish_one [OF assms(2), of p "CtxCancelled r" ?ev "gw_mq s" q] accepted eq
  show ?thesis by auto
qed (use assms(6) in auto)

text \<open>What the worker decodes of an accepted webhook's message.\<close>

lemma webhook_wire:
  assumes "decode_webhook (Body r) = Inr (target, payload)" "payload \<noteq> ''''"
    and "marshal_event (webhook_event env r key target payload) = Inr body"
  shows "\<exists>q. compact payload = Some q \<and> utf8_valid target \<and>
    unmarshal_event body = Inr (wire_event (webhook_event env r key target payload) q)"
proof -
  let ?ev = "webhook_event env r key target payload"
  obtain v where v: "decode_all payload = Some v" "depth v < 10000" using decode_webhook_payload [OF assms(1,2)] by blast
  have "in_i64 (RetryCount ?ev)" by (simp add: webhook_event_def zero_event_def in_i64_def Let_def)
  with unmarshal_marshal [OF assms(3)] v show ?thesis
    using decode_webhook_target [OF assms(1)] assms(2) by (auto simp: payload_json_def compact_def)
qed

text \<open>
  C1: End to end: a webhook request that the gateway accepted under a new idempotency key
  leads, when a worker takes its message from the queue, the breaker admits the target and the
  target answers the first attempt with a 2xx status, to exactly one POST to the requested URL,
  an ack, and a row of the caller's API key with status \<^verbatim>\<open>success\<close> and no error message. The
  body that is posted is the request's payload in compact form: another text of the same JSON
  value.
\<close>

theorem webhook_end_to_end:
  fixes ws :: "('d, 'h) worker_state"
  assumes pg: "postgres pool table jsonb to_char" and mq: "amqp_broker conn view handed"
    and h: "webhooksHandler (program_deps pool fr conn p) env r (w, s) = (w', s')"
    and w: "sent w = None" "status_of w' = 202" and i: "uuid_text (e_event env)"
    and req: "decode_webhook (Body r) = Inr (target, payload)"
    and new: "\<not> has_idem (table (gw_db s)) (idem_key (webhook_event env r (ctx_string r APIKeyKey) target payload))"
    and msg: "last (handed (gw_mq s')) = queue_message p (MsgBody d)"
    and db: "wk_db ws = gw_db s'"
    and admits: "fst (Allow (t_allow wenv) target (wk_cb ws))" and ok: "first_try_ok wenv"
    and upd: "\<not> update_cancelled wenv"
      "fst (UpdateEventStatus pool False (e_event env) ''success'' '''' (gw_db s')) = None"
  shows "\<exists>ws' sent_req row v v'. handleDelivery (NewPostgresEventStore pool) wenv d ws = ws' \<and>
    wk_wire ws' = wk_wire ws @ [Sent sent_req] \<and> out_url sent_req = target \<and>
    decode_all payload = Some v \<and> decode_all (out_body sent_req) = Some v' \<and> meaning v' = meaning v \<and>
    wk_answers ws' = wk_answers ws @ [Ack (DeliveryTag d) False] \<and>
    table (wk_db ws') (e_event env) = Some row \<and> r_status row = ''success'' \<and> r_error row = None \<and>
    r_api_key row = ctx_string r APIKeyKey"
proof -
  define ev where "ev = webhook_event env r (ctx_string r APIKeyKey) target payload"
  from accepted_saves [OF pg mq h w(1) i w(2) req] obtain body where body: "marshal_event ev = Inr body" "payload \<noteq> ''''"
    "saves jsonb ev (table (gw_db s)) (table (gw_db s'))" "handed (gw_mq s') = handed (gw_mq s) @ [queue_message p body]"
    unfolding ev_def by blast
  obtain q where q: "compact payload = Some q" "utf8_valid target" "unmarshal_event body = Inr (wire_event ev q)"
    using webhook_wire [OF req body(2) body(1) [unfolded ev_def]] by (auto simp: ev_def)
  have um: "unmarshal_event (MsgBody d) = Inr (wire_event ev q)" (is "_ = Inr ?ev")
    using body(4) msg q(3) by (simp add: queue_message_def)
  have ids: "ID ?ev = e_event env" "EventURL ?ev = target" "Payload ?ev = q"
    using q(2) i by (simp_all add: ev_def wire_event_def utf8_fix_valid uuid_text_fix)
  obtain now where t: "table (gw_db s') (e_event env) = Some (row_of jsonb now ev)"
    using body(3) new unfolding saves_def ev_def by auto
  obtain c1 where c1: "Allow (t_allow wenv) (EventURL ?ev) (wk_cb ws) = (True, c1)"
    using admits by (cases "Allow (t_allow wenv) target (wk_cb ws)") (simp add: ids)
  note hs = handle_success [where d = d and ev = ?ev and es = "NewPostgresEventStore pool",
    OF um c1 first_try_delivers [OF ok]]
  obtain db' where db': "UpdateEventStatus pool False (e_event env) ''success'' '''' (gw_db s') = (None, db')"
    using upd(2) by (metis prod.collapse)
  have "table db' = set_status (e_event env) ''success'' '''' (table (gw_db s'))"
    using postgres.UpdateEventStatus_law [OF pg db'] i by simp
  moreover from compact_sound [OF q(1)] obtain v where v: "decode_all payload = Some v" "decode_all q = Some (html_escape v)"
    "meaning (html_escape v) = meaning v" by blast
  ultimately show ?thesis
    using t hs db' upd(1)
    by (simp add: db ids delivery_request_def Let_def set_status_def row_of_def) (simp add: ev_def)
qed

theorem webhook_end_to_end_witness:
  "\<exists>w' s' row. webhooksHandler sample_deps sample_renv (sample_auth_req ''k'')
       (new_writer, sample_gateway 0 NewStubRateLimiter) = (w', s') \<and>
     ref_table (wk_db (handleDelivery (NewPostgresEventStore ref_pool) (sample_env (HttpStatus 204) 0)
         \<lparr>DeliveryTag = 1, MsgBody = sample_message\<rparr> (sample_worker\<lparr>wk_db := gw_db s'\<rparr>))) uuid_b = Some row \<and>
     r_status row = ''success''"
proof -
  let ?ev = "webhook_event sample_renv (sample_auth_req ''k'') ''acme'' ''http://x'' ''{}''"
  let ?wenv = "sample_env (HttpStatus 204) 0" and ?d = "\<lparr>DeliveryTag = 1, MsgBody = sample_message\<rparr>"
  have g: "(sample_gateway 0 NewStubRateLimiter)\<lparr>gw_db := ([], 0)\<rparr> = sample_gateway 0 NewStubRateLimiter"
    by (simp add: sample_gateway_def ref_db0_def)
  obtain w' s' where h: "webhooksHandler sample_deps sample_renv (sample_auth_req ''k'')
      (new_writer, sample_gateway 0 NewStubRateLimiter) = (w', s')" "status_of w' = 202"
    using sample_webhook_runs [of "[]" 0] unfolding g by auto
  let ?ws = "sample_worker\<lparr>wk_db := gw_db s'\<rparr>"
  have id: "e_event sample_renv = uuid_b" by (simp add: sample_renv_def)
  have req: "decode_webhook (Body (sample_auth_req ''k'')) = Inr (''http://x'', ''{}'')" by simp
  have msg: "last (snd (gw_mq s')) = queue_message \<lparr>channel = 1, queueName = ''webhook_queue''\<rparr> (MsgBody ?d)"
    using accepted_saves [OF refdb.postgres_axioms refmq.amqp_broker_axioms h(1) [unfolded sample_deps_def] _ _ h(2) req] id
    by (auto simp: marshal_sample_message)
  have new: "\<not> has_idem (ref_table (gw_db (sample_gateway 0 NewStubRateLimiter))) (idem_key ?ev)"
    by (simp add: sample_gateway_def ref_db0_def ref_table_def has_idem_def)
  have upd: "fst (UpdateEventStatus ref_pool False (e_event sample_renv) ''success'' '''' (gw_db s')) = None"
    by (cases "gw_db s'") (auto simp: UpdateEventStatus_def ref_pool_def split: option.splits)
  have "first_try_ok ?wenv" "fst (Allow (t_allow ?wenv) ''http://x'' (wk_cb ?ws))" "\<not> update_cancelled ?wenv"
    by (simp_all add: first_try_ok_def sample_env_def is_2xx_def sample_worker_def Allow_result machine_def
        NewURLCircuitBreaker_def new_urlState_def)
  from webhook_end_to_end [where wenv = ?wenv and d = ?d and ws = ?ws,
      OF refdb.postgres_axioms refmq.amqp_broker_axioms h(1) [unfolded sample_deps_def] _ h(2) _ req _ msg _ _ _ _ upd]
    this new h id show ?thesis by auto
qed

section \<open>From the worker's breakers to the dashboard\<close>

lemma unquote_breaker_names [simp]:
  "unquote ''state'' = ''state''" "unquote ''consecutive_failures'' = ''consecutive_failures''"
  "unquote ''next_retry_at'' = ''next_retry_at''"
  by code_simp+

lemma unquote_quote_state: "unquote (quote (State_String st)) = State_String st"
proof (cases st)
  case StateClosed
  then show ?thesis by (simp only:) code_simp
next
  case StateOpen
  then show ?thesis by (simp only:) code_simp
next
  case StateHalfOpen
  then show ?thesis by (simp only:) code_simp
qed

lemma generic_scalar: "generic (json_string s) \<noteq> None" "in_i64 i \<Longrightarrow> generic (json_int i) \<noteq> None"
  using parse_float_int by (auto simp: json_string_def json_int_def)

text \<open>An entry of the hash is counted exactly when it says \<^verbatim>\<open>Open\<close>.\<close>

lemma breaker_entry_open:
  assumes "marshal_breaker time_text (sync_info u st fails lastFail) = Inr data" and "in_i64 fails"
  shows "\<exists>v. decode_map data = Some v \<and> (says_open v \<longleftrightarrow> st = StateOpen)"
proof -
  from assms(1) obtain v where v: "breaker_json time_text (sync_info u st fails lastFail) = Some v" "data = print_json v"
    by (auto simp: marshal_breaker_iff)
  obtain t where obj: "v = JObj [(''target_url'', json_string u), (''state'', json_string (State_String st)),
      (''consecutive_failures'', json_int fails), (''next_retry_at'', json_string t)]"
    using v(1) by (auto simp: breaker_json_def sync_info_def Let_def split: option.splits)
  have "generic v \<noteq> None"
    using generic_scalar(1) [of u] generic_scalar(1) [of "State_String st"] generic_scalar(1) [of t] generic_scalar(2) [OF assms(2)]
    by (auto simp: obj)
  then have "decode_map data = Some v"
    using breaker_json_reads_back [OF v(1)] by (simp add: decode_map_def v(2) obj del: print_json.simps generic.simps)
  moreover have "says_open v \<longleftrightarrow> st = StateOpen"
    by (cases st) (simp_all add: obj says_open_def map_member_def json_string_def unquote_quote_state del: State_String.simps, simp_all)
  ultimately show ?thesis by blast
qed

text \<open>
  C15: The statistics route counts exactly the open breakers of the worker: after any sequence of
  calls on the worker's breaker, made one after the other on an empty hash, the number of entries
  the gateway counts in the Redis hash is the number of URLs whose breaker is open.
\<close>

theorem dashboard_counts_open_breakers:
  assumes hash: "hash_ok hset hget" "hget h = Map.empty" and times: "times_ok time_text ops"
    and run: "cb_run ops (worker_breaker time_text hset, m, h) = (cb', m', h')"
    and entries: "d_hash env breakers_key = Inr entries" "distinct (map fst entries)" "map_of entries = hget h'" "entries \<noteq> []"
  shows "activeCBs env workerURL = int (card {u. state (machine cb' u) = StateOpen})"
proof -
  have mir: "mirrored time_text hget cb' h' u" for u
    by (rule mirror_in_step [OF hash(1) _ times run]) (simp add: hash(2))
  let ?open = "\<lambda>(f :: string, val). case decode_map val of Some v \<Rightarrow> says_open v | None \<Rightarrow> False"
  have entry: "?open (u, val) \<longleftrightarrow> state (machine cb' u) = StateOpen" if "(u, val) \<in> set entries" for u val
  proof -
    have "hget h' u = Some val" using that entries(2,3) by (metis map_of_is_SomeI)
    with mir [of u] obtain fails lastFail where "in_i64 fails"
      "marshal_breaker time_text (sync_info u (state (machine cb' u)) fails lastFail) = Inr val" by (auto simp: mirrored_def)
    from breaker_entry_open [OF this(2,1)] show ?thesis by auto
  qed
  have "fst ` set (filter ?open entries) = {u. state (machine cb' u) = StateOpen}"
  proof (intro set_eqI iffI)
    fix u assume "u \<in> {u. state (machine cb' u) = StateOpen}"
    moreover from this mir [of u] obtain val where "hget h' u = Some val" by (auto simp: mirrored_def split: option.splits)
    then have "(u, val) \<in> set entries" using entries(3) by (metis map_of_SomeD)
    ultimately have "(u, val) \<in> set (filter ?open entries)" using entry by simp
    then show "u \<in> fst ` set (filter ?open entries)" by force
  qed (use entry in auto)
  moreover have "distinct (map fst (filter ?open entries))" using entries(2) by (rule distinct_map_filter)
  then have "card (fst ` set (filter ?open entries)) = length (filter ?open entries)"
    using distinct_card [of "map fst (filter ?open entries)"] by simp
  moreover have "activeCBs env workerURL = int (length (filter ?open entries))"
    using entries(1,4) by (cases entries) (simp_all add: activeCBs_def)
  ultimately show ?thesis by simp
qed

definition open_ops :: "(cb_op \<times> gotime \<times> string) list" where
  "open_ops = replicate 5 (OpFailure, 0, ''u'')"

lemma open_ops_run:
  "\<exists>cb m data. cb_run open_ops (worker_breaker ref_time ref_hset, new_metrics, Map.empty) = (cb, m, [''u'' \<mapsto> data]) \<and>
     {u. state (machine cb u) = StateOpen} = {''u''}"
  by (simp add: open_ops_def eval_nat_numeral cb_apply_eq Let_def machine_def worker_breaker_def OnStateChange_def
      NewURLCircuitBreaker_def new_urlState_def notifies_def trips_def triggerChange_def put_state_def i64_def time_since_def
      sync_breaker_def marshal_breaker_def breaker_json_def ref_time_def ref_hset_def del: cb_apply.simps print_json.simps) blast

theorem dashboard_counts_open_breakers_witness:
  "\<exists>cb m data. cb_run open_ops (worker_breaker ref_time ref_hset, new_metrics, Map.empty) = (cb, m, [''u'' \<mapsto> data]) \<and>
     activeCBs (sample_denv\<lparr>d_hash := \<lambda>k. Inr [(''u'', data)]\<rparr>) '''' = 1"
proof -
  obtain cb m data where run: "cb_run open_ops (worker_breaker ref_time ref_hset, new_metrics, Map.empty) = (cb, m, [''u'' \<mapsto> data])"
    and one: "{u. state (machine cb u) = StateOpen} = {''u''}" using open_ops_run by (elim exE conjE) (rule that)
  let ?env = "sample_denv\<lparr>d_hash := \<lambda>k. Inr [(''u'', data)]\<rparr>"
  have "activeCBs ?env '''' = int (card {u. state (machine cb u) = StateOpen})"
    by (rule dashboard_counts_open_breakers [where entries = "[(''u'', data)]", OF hash_ok_ref _ _ run]) (simp_all add: times_ok_def ref_time_def)
  with run one show ?thesis by auto
qed

section \<open>From the worker back to the gateway\<close>

text \<open>
  A request as the server sees it when a client sent \<open>req\<close>: the transport may add headers of its
  own, but no API key.
\<close>

definition arrives :: "out_request \<Rightarrow> Request \<Rightarrow> bool" where
  "arrives req r \<longleftrightarrow> Method r = out_method req \<and> Body r = out_body req \<and> CtxValue r = Map.empty \<and>
     (\<forall>k. out_header req k \<noteq> None \<or> k = ''X-Api-Key'' \<longrightarrow> ReqHeader r k = out_header req k)"

lemma canon_delivery_headers [simp]:
  "CanonicalMIMEHeaderKey ''X-Trace-ID'' = ''X-Trace-Id''" "CanonicalMIMEHeaderKey ''Content-Type'' = ''Content-Type''"
  by code_simp+

lemma delivery_is_anonymous: "arrives (delivery_request ev) r \<Longrightarrow> Header_Get (ReqHeader r) ''X-API-Key'' = '''' \<and> Method r = ''POST''"
  by (simp add: arrives_def delivery_request_def Header_Get_def Header_Set_def Let_def split: if_splits)

lemma delivery_gets_401:
  assumes "arrives (delivery_request ev) r" and "Path r \<notin> {''/healthz'', ''/metrics''}"
  shows "status_of (fst (gateway_handler p env denv r (new_writer, s))) = 401"
proof -
  have "gate env (p_config p) (p_allow p) r s = Answer 401 (''Unauthorized: missing API Key'' @ [CHR 0x0A]) s"
    using delivery_is_anonymous [OF assms(1)] assms(2) by (simp add: gate_def Let_def)
  with gateway_pipeline [where r = r and env = env and cfg = "p_config p" and allow = "p_allow p" and s = s and mux = "gateway_mux p env denv"]
    assms(1) show ?thesis by (auto simp: gateway_handler_def arrives_def)
qed



end
